(* ===== verification/Lxg_Prelude.thy ===== *)
theory Lxg_Prelude
  imports Main "HOL-Library.Word" "HOL-Library.Sublist" "HOL-Library.Monad_Syntax"
begin

text \<open>
  The vocabulary every component shares.

  Go values. A Go \<open>byte\<close> is an \<^typ>\<open>8 word\<close>, a \<open>uint32\<close> an \<^typ>\<open>32 word\<close>. A Go
  \<open>string\<close> is a sequence of bytes, modelled as an Isabelle \<^typ>\<open>string\<close> (an Isabelle
  character is one byte); \<open>string_of_bytes\<close> and \<open>bytes_of_string\<close> are the two
  conversions. A Go \<open>int\<close> that the code uses as an offset or a length is a \<^typ>\<open>nat\<close>: the
  binary is built for 64-bit targets, and every offset is at most the length of a buffer
  plus a 32-bit length, far below the 63-bit limit.

  Faults. An operation that can panic (an index or a slice out of range) returns an
  \<open>option\<close>, with \<open>None\<close> for the panic; a Go \<open>error\<close> is the left side of a sum. So
  \<open>(e + 'a) option\<close> is the result of a function that can return a value, return an
  error, or panic.
\<close>

type_synonym byte = "8 word"
type_synonym u32 = "32 word"

named_theorems codec "round-trip and length equations of the wire codecs"
named_theorems routing "characterisations of the routing decisions"
named_theorems effects "what an operation leaves unchanged, and what it appends"

section \<open>Slices\<close>

text \<open>
  The Go expressions \<open>s[i]\<close> and \<open>s[i:j]\<close>. Go checks the upper bound of a slice expression
  against the capacity; the model checks it against the length, which is stricter, so a
  program that never panics here never panics there.
\<close>

definition go_index :: "'a list \<Rightarrow> nat \<Rightarrow> 'a option" where
  "go_index s i = (if i < length s then Some (s ! i) else None)"

definition go_slice :: "'a list \<Rightarrow> nat \<Rightarrow> nat \<Rightarrow> 'a list option" where
  "go_slice s i j = (if i \<le> j \<and> j \<le> length s then Some (take (j - i) (drop i s)) else None)"

text \<open>\<open>append(s[:i], s[i+1:]...)\<close> and \<open>slices.Index\<close>, as the argument parsers use them.\<close>

definition remove_at :: "'a list \<Rightarrow> nat \<Rightarrow> 'a list" where
  "remove_at s i = take i s @ drop (i + 1) s"

fun slices_Index :: "'a list \<Rightarrow> 'a \<Rightarrow> nat option" where
  "slices_Index [] v = None"
| "slices_Index (x # xs) v = (if x = v then Some 0 else map_option Suc (slices_Index xs v))"

lemma go_index_Some [simp]: "i < length s \<Longrightarrow> go_index s i = Some (s ! i)"
  by (simp add: go_index_def)

lemma go_index_append2 [simp]: "go_index (xs @ ys) (length xs + i) = go_index ys i"
  by (simp add: go_index_def nth_append)

lemma slice_Some [simp]:
  "i \<le> j \<Longrightarrow> j \<le> length s \<Longrightarrow> go_slice s i j = Some (take (j - i) (drop i s))"
  by (simp add: go_slice_def)

lemma slice_length: "go_slice s i j = Some t \<Longrightarrow> length t = j - i"
  by (auto simp: go_slice_def split: if_splits)

lemma slice_middle [simp]:
  "i = length xs \<Longrightarrow> j = length xs + length ys \<Longrightarrow> go_slice (xs @ ys @ zs) i j = Some ys"
  by (simp add: go_slice_def)

lemma slices_Index_None: "slices_Index xs v = None \<longleftrightarrow> v \<notin> set xs"
  by (induction xs) auto

lemma slices_Index_notin [simp]: "v \<notin> set xs \<Longrightarrow> slices_Index xs v = None"
  by (simp add: slices_Index_None)

lemma slices_Index_remove1:
  "slices_Index xs v = Some i \<Longrightarrow> remove_at xs i = remove1 v xs"
  by (induction xs arbitrary: i) (auto simp: remove_at_def split: if_splits)

section \<open>Strings and bytes\<close>

definition byte_of_char :: "char \<Rightarrow> byte" where
  "byte_of_char c = of_nat (of_char c)"

definition char_of_byte :: "byte \<Rightarrow> char" where
  "char_of_byte b = char_of (unat b)"

definition bytes_of_string :: "string \<Rightarrow> byte list" where
  "bytes_of_string s = map byte_of_char s"

definition string_of_bytes :: "byte list \<Rightarrow> string" where
  "string_of_bytes bs = map char_of_byte bs"

lemma char_of_byte_of_char [simp]: "char_of_byte (byte_of_char c) = c"
proof -
  have "of_char c < (256 :: nat)" by (rule nat_of_char_less_256)
  then show ?thesis by (simp add: char_of_byte_def byte_of_char_def unat_of_nat)
qed

lemma byte_of_char_of_byte [simp]: "byte_of_char (char_of_byte b) = b"
proof -
  have "unat b < 256" using unsigned_less [of b] by simp
  then show ?thesis by (simp add: char_of_byte_def byte_of_char_def)
qed

lemma string_of_bytes_of_string [simp, codec]: "string_of_bytes (bytes_of_string s) = s"
  by (simp add: string_of_bytes_def bytes_of_string_def comp_def)

lemma bytes_of_string_of_bytes [simp, codec]: "bytes_of_string (string_of_bytes bs) = bs"
  by (simp add: string_of_bytes_def bytes_of_string_def comp_def)

lemma length_bytes_of_string [simp, codec]: "length (bytes_of_string s) = length s"
  by (simp add: bytes_of_string_def)

lemma length_string_of_bytes [simp, codec]: "length (string_of_bytes bs) = length bs"
  by (simp add: string_of_bytes_def)

section \<open>The package strings\<close>

definition HasPrefix :: "string \<Rightarrow> string \<Rightarrow> bool" where
  "HasPrefix s p \<longleftrightarrow> length p \<le> length s \<and> take (length p) s = p"

definition HasSuffix :: "string \<Rightarrow> string \<Rightarrow> bool" where
  "HasSuffix s p \<longleftrightarrow> length p \<le> length s \<and> drop (length s - length p) s = p"

definition TrimPrefix :: "string \<Rightarrow> string \<Rightarrow> string" where
  "TrimPrefix s p = (if HasPrefix s p then drop (length p) s else s)"

definition TrimSuffix :: "string \<Rightarrow> string \<Rightarrow> string" where
  "TrimSuffix s p = (if HasSuffix s p then take (length s - length p) s else s)"

fun Contains :: "string \<Rightarrow> string \<Rightarrow> bool" where
  "Contains [] sub = HasPrefix [] sub"
| "Contains (c # s) sub = (HasPrefix (c # s) sub \<or> Contains s sub)"

lemma HasPrefix_iff: "HasPrefix s p \<longleftrightarrow> prefix p s"
  by (auto simp: HasPrefix_def prefix_def min_def) (metis append_take_drop_id)

lemma HasPrefix_Cons [simp]: "HasPrefix (c # s) (d # p) \<longleftrightarrow> c = d \<and> HasPrefix s p"
  by (auto simp: HasPrefix_def)

lemma HasPrefix_Nil [simp]: "HasPrefix [] p \<longleftrightarrow> p = []" "HasPrefix s []"
  by (auto simp: HasPrefix_def)

lemma HasSuffix_iff: "HasSuffix s p \<longleftrightarrow> suffix p s"
  by (auto simp: HasSuffix_def suffix_def) (metis append_take_drop_id)

lemma TrimSuffix_append [simp]: "TrimSuffix (p @ q) q = p"
  by (simp add: TrimSuffix_def HasSuffix_def)

lemma TrimPrefix_append [simp]: "TrimPrefix (p @ q) p = q"
  by (simp add: TrimPrefix_def HasPrefix_def)

lemma Contains_iff: "Contains s sub \<longleftrightarrow> sublist sub s"
  by (induction s) (auto simp: HasPrefix_iff sublist_Cons_right)

section \<open>Machine words\<close>

lemma unat_of_nat_u32 [simp]: "n < 2 ^ 32 \<Longrightarrow> unat (of_nat n :: u32) = n"
  by (simp add: unat_of_nat)

lemma unat_of_nat_byte [simp]: "n < 256 \<Longrightarrow> unat (of_nat n :: byte) = n"
  by (simp add: unat_of_nat)

section \<open>Prefixes of what was written\<close>

text \<open>
  A state with an append-only output: \<open>extends f s t x\<close> says that \<open>t\<close> has written \<open>x\<close>
  after what \<open>s\<close> had written.
\<close>

definition extends :: "('s \<Rightarrow> 'a list) \<Rightarrow> 's \<Rightarrow> 's \<Rightarrow> 'a list \<Rightarrow> bool" where
  "extends f s t x \<longleftrightarrow> f t = f s @ x"

lemma extends_refl [simp]: "extends f s s []"
  by (simp add: extends_def)

lemma extends_trans [trans]: "extends f s t x \<Longrightarrow> extends f t u y \<Longrightarrow> extends f s u (x @ y)"
  by (simp add: extends_def)

end
