(* ===== verification/Go_Binary.thy ===== *)
theory Go_Binary
  imports Lxg_Prelude
begin

text \<open>
  The part of Go's \<open>encoding/binary\<close> that the wire code uses: the two byte orders, with
  \<open>Uint32\<close> (which panics on fewer than four bytes) and \<open>PutUint32\<close>. The locale
  \<open>byte_order\<close> is the contract the codecs rely on; it is interpreted for both orders.
\<close>

unbundle bit_operations_syntax

datatype ByteOrder = LittleEndian | BigEndian

fun Uint32 :: "ByteOrder \<Rightarrow> byte list \<Rightarrow> u32 option" where
  "Uint32 LittleEndian (b0 # b1 # b2 # b3 # _) =
     Some (ucast b0 OR push_bit 8 (ucast b1) OR push_bit 16 (ucast b2) OR push_bit 24 (ucast b3))"
| "Uint32 BigEndian (b0 # b1 # b2 # b3 # _) =
     Some (ucast b3 OR push_bit 8 (ucast b2) OR push_bit 16 (ucast b1) OR push_bit 24 (ucast b0))"
| "Uint32 _ _ = None"

fun PutUint32 :: "ByteOrder \<Rightarrow> u32 \<Rightarrow> byte list" where
  "PutUint32 LittleEndian v =
     [ucast v, ucast (drop_bit 8 v), ucast (drop_bit 16 v), ucast (drop_bit 24 v)]"
| "PutUint32 BigEndian v =
     [ucast (drop_bit 24 v), ucast (drop_bit 16 v), ucast (drop_bit 8 v), ucast v]"

text \<open>The expression \<open>order.Uint32(s[i : i+4])\<close>.\<close>

definition u32_at :: "ByteOrder \<Rightarrow> byte list \<Rightarrow> nat \<Rightarrow> u32 option" where
  "u32_at order s i = do { w \<leftarrow> go_slice s i (i + 4); Uint32 order w }"

text \<open>The statement \<open>order.PutUint32(s[i : i+4], v)\<close>.\<close>

definition put_u32_at :: "ByteOrder \<Rightarrow> byte list \<Rightarrow> nat \<Rightarrow> u32 \<Rightarrow> byte list option" where
  "put_u32_at order s i v =
     do { w \<leftarrow> go_slice s i (i + 4); Some (take i s @ PutUint32 order v @ drop (i + 4) s) }"

section \<open>The contract of a byte order\<close>

locale byte_order =
  fixes get :: "byte list \<Rightarrow> u32 option"
    and put :: "u32 \<Rightarrow> byte list"
  assumes length_put: "length (put v) = 4"
    and get_put: "get (put v @ rest) = Some v"
    and put_get: "get bs = Some v \<Longrightarrow> take 4 bs = put v"
    and get_defined: "get bs = None \<longleftrightarrow> length bs < 4"

context byte_order
begin

lemma put_inj: "put v = put w \<Longrightarrow> v = w"
  using get_put [of v "[]"] get_put [of w "[]"] by simp

lemma get_at:
  assumes "i = length xs"
  shows "Option.bind (go_slice (xs @ put v @ ys) i (i + 4)) get = Some v"
  using assms get_put [of v "[]"] by (simp add: length_put)

lemma get_in_range:
  assumes "i + 4 \<le> length s"
  shows "\<exists>v. Option.bind (go_slice s i (i + 4)) get = Some v"
proof -
  have "get (take 4 (drop i s)) \<noteq> None"
    using assms by (simp add: get_defined)
  then show ?thesis using assms by auto
qed

end

lemma bytes4_eqI:
  "length (bs :: byte list) \<ge> 4 \<Longrightarrow> \<exists>b0 b1 b2 b3 rest. bs = b0 # b1 # b2 # b3 # rest"
  by (auto simp: numeral_eq_Suc Suc_le_length_iff)

lemma ucast_join_drop:
  fixes v :: u32
  shows "(ucast (ucast v :: byte) :: u32) OR push_bit 8 (ucast (ucast (drop_bit 8 v) :: byte))
    OR push_bit 16 (ucast (ucast (drop_bit 16 v) :: byte))
    OR push_bit 24 (ucast (ucast (drop_bit 24 v) :: byte)) = v"
proof (rule bit_word_eqI)
  fix n :: nat
  assume "n < LENGTH(32)"
  then have "n < 8 \<or> 8 \<le> n \<and> n < 16 \<or> 16 \<le> n \<and> n < 24 \<or> 24 \<le> n \<and> n < 32" by auto
  then show "bit ((ucast (ucast v :: byte) :: u32) OR push_bit 8 (ucast (ucast (drop_bit 8 v) :: byte))
    OR push_bit 16 (ucast (ucast (drop_bit 16 v) :: byte))
    OR push_bit 24 (ucast (ucast (drop_bit 24 v) :: byte))) n = bit v n"
    by (elim disjE) (auto simp: bit_simps)
qed

lemma ucast_drop_join:
  fixes b0 b1 b2 b3 :: byte
  defines "v \<equiv> (ucast b0 OR push_bit 8 (ucast b1) OR push_bit 16 (ucast b2)
    OR push_bit 24 (ucast b3) :: u32)"
  shows "(ucast v :: byte) = b0" "(ucast (drop_bit 8 v) :: byte) = b1"
    "(ucast (drop_bit 16 v) :: byte) = b2" "(ucast (drop_bit 24 v) :: byte) = b3"
  unfolding v_def by (rule bit_word_eqI; auto simp: bit_simps dest: bit_imp_le_length)+

lemma length_PutUint32 [simp, codec]: "length (PutUint32 order v) = 4"
  by (cases order) simp_all

lemma Uint32_PutUint32 [simp, codec]: "Uint32 order (PutUint32 order v @ rest) = Some v"
  using ucast_join_drop [of v] by (cases order) simp_all

lemma Uint32_None: "Uint32 order bs = None \<longleftrightarrow> length bs < 4"
proof (cases "length bs \<ge> 4")
  case True
  then obtain b0 b1 b2 b3 rest where "bs = b0 # b1 # b2 # b3 # rest"
    using bytes4_eqI by blast
  then show ?thesis by (cases order) simp_all
next
  case False
  then show ?thesis by (cases "(order, bs)" rule: Uint32.cases) auto
qed

lemma PutUint32_Uint32: "Uint32 order bs = Some v \<Longrightarrow> take 4 bs = PutUint32 order v"
proof -
  assume *: "Uint32 order bs = Some v"
  then have "length bs \<ge> 4" using Uint32_None [of order bs] by (metis not_le option.distinct(1))
  then obtain b0 b1 b2 b3 rest where bs: "bs = b0 # b1 # b2 # b3 # rest"
    using bytes4_eqI by blast
  show ?thesis
  proof (cases order)
    case LittleEndian
    with * bs have v: "v = ucast b0 OR push_bit 8 (ucast b1) OR push_bit 16 (ucast b2)
      OR push_bit 24 (ucast b3)" by simp
    show ?thesis unfolding LittleEndian v bs PutUint32.simps ucast_drop_join by simp
  next
    case BigEndian
    with * bs have v: "v = ucast b3 OR push_bit 8 (ucast b2) OR push_bit 16 (ucast b1)
      OR push_bit 24 (ucast b0)" by simp
    show ?thesis unfolding BigEndian v bs PutUint32.simps ucast_drop_join by simp
  qed
qed

interpretation bo: byte_order "Uint32 order" "PutUint32 order" for order
  by unfold_locales (auto simp: PutUint32_Uint32 Uint32_None)

lemma u32_at_append [simp, codec]:
  "i = length xs \<Longrightarrow> u32_at order (xs @ PutUint32 order v @ ys) i = Some v"
  unfolding u32_at_def by (rule bo.get_at)

lemma u32_at_Some: "i + 4 \<le> length s \<Longrightarrow> \<exists>v. u32_at order s i = Some v"
  unfolding u32_at_def by (rule bo.get_in_range)

lemma u32_at_bound: "u32_at order s i = Some v \<Longrightarrow> i + 4 \<le> length s"
  by (auto simp: u32_at_def go_slice_def split: if_splits)

lemma u32_at_cong:
  assumes "take (i + 4) s = take (i + 4) t" and "i + 4 \<le> length s" and "i + 4 \<le> length t"
  shows "u32_at order s i = u32_at order t i"
proof -
  have "take 4 (drop i s) = take 4 (drop i t)"
    using assms(1) by (metis add.commute take_drop)
  then show ?thesis using assms(2,3) by (simp add: u32_at_def)
qed

end
