(* ===== verification/Dbus_Wire.thy ===== *)
theory Dbus_Wire
  imports Go_Binary
begin

text \<open>
  The D-Bus wire format of \<open>container/dbus/wire.go\<close>: the \<open>Message\<close> struct, the header
  parser \<open>ParseHeader\<close>, the string-array codec (\<open>ParseStringArray\<close>,
  \<open>EncodeStringArray\<close>) and \<open>ReplaceBody\<close>. Sockets and file descriptors are in
  \<open>Dbus_Conn\<close> and \<open>Dbus_Reader\<close>.

  A message pointer is never nil where these functions are called, so the model has
  messages and no nil. Every index and slice expression goes through \<open>go_index\<close>,
  \<open>go_slice\<close> or \<open>u32_at\<close>, whose \<open>None\<close> is the panic.
\<close>

section \<open>Constants and the message struct\<close>

abbreviation (input) TypeMethodCall :: byte where "TypeMethodCall \<equiv> 1"
abbreviation (input) TypeMethodReturn :: byte where "TypeMethodReturn \<equiv> 2"
abbreviation (input) TypeError :: byte where "TypeError \<equiv> 3"
abbreviation (input) TypeSignal :: byte where "TypeSignal \<equiv> 4"

abbreviation (input) HeaderPath :: byte where "HeaderPath \<equiv> 1"
abbreviation (input) HeaderInterface :: byte where "HeaderInterface \<equiv> 2"
abbreviation (input) HeaderMember :: byte where "HeaderMember \<equiv> 3"
abbreviation (input) HeaderErrorName :: byte where "HeaderErrorName \<equiv> 4"
abbreviation (input) HeaderReplySerial :: byte where "HeaderReplySerial \<equiv> 5"
abbreviation (input) HeaderDestination :: byte where "HeaderDestination \<equiv> 6"
abbreviation (input) HeaderSender :: byte where "HeaderSender \<equiv> 7"
abbreviation (input) HeaderSignature :: byte where "HeaderSignature \<equiv> 8"
abbreviation (input) HeaderUnixFDs :: byte where "HeaderUnixFDs \<equiv> 9"

abbreviation (input) MaxMessageSize :: nat where "MaxMessageSize \<equiv> 134217728"

record message =
  Endianness :: byte
  Type :: byte
  Flags :: byte
  Version :: byte
  BodyLength :: u32
  Serial :: u32
  HeaderLength :: u32
  TotalLength :: u32
  Path :: string
  Interface :: string
  Member :: string
  ErrorName :: string
  ReplySerial :: u32
  Destination :: string
  Sender :: string
  UnixFDs :: u32
  Raw :: "byte list"
  FDs :: "int list"

datatype io_error = ErrEOF | ErrEmptyRead | ErrBroken | ErrClosed | ErrNilConn

datatype wire_error =
    ErrIO io_error
  | ErrDbusEndianness byte
  | ErrSizeLimit u32
  | ErrShortHeader
  | ErrEndianness byte
  | ErrHeaderFields
  | ErrNoBody
  | ErrShortArray
  | ErrArrayLength
  | ErrShortString

section \<open>Alignment and byte order\<close>

definition align :: "nat \<Rightarrow> nat \<Rightarrow> nat" where
  "align offset n = (let rem = offset mod n in if rem \<noteq> 0 then offset + (n - rem) else offset)"

text \<open>The \<open>uint32\<close> computation of \<open>paddedHeaderLen\<close>; it wraps modulo \<open>2 ^ 32\<close>.\<close>

definition padded_header_len :: "u32 \<Rightarrow> u32" where
  "padded_header_len headerFieldsLen =
     (let p = 16 + headerFieldsLen; rem = p mod 8
      in if rem \<noteq> 0 then p + (8 - rem) else p)"

definition order_of_endian :: "byte \<Rightarrow> ByteOrder option" where
  "order_of_endian endian =
     (if endian = 108 then Some LittleEndian
      else if endian = 66 then Some BigEndian
      else None)"

definition byteOrder :: "message \<Rightarrow> ByteOrder" where
  "byteOrder m = (if Endianness m = 66 then BigEndian else LittleEndian)"

section \<open>ParseHeader\<close>

definition set_string_field :: "byte \<Rightarrow> string \<Rightarrow> message \<Rightarrow> message" where
  "set_string_field code strVal msg =
     (if code = HeaderPath then msg\<lparr>Path := strVal\<rparr>
      else if code = HeaderInterface then msg\<lparr>Interface := strVal\<rparr>
      else if code = HeaderMember then msg\<lparr>Member := strVal\<rparr>
      else if code = HeaderErrorName then msg\<lparr>ErrorName := strVal\<rparr>
      else if code = HeaderDestination then msg\<lparr>Destination := strVal\<rparr>
      else if code = HeaderSender then msg\<lparr>Sender := strVal\<rparr>
      else msg)"

definition set_u32_field :: "byte \<Rightarrow> u32 \<Rightarrow> message \<Rightarrow> message" where
  "set_u32_field code uVal msg =
     (if code = HeaderReplySerial then msg\<lparr>ReplySerial := uVal\<rparr>
      else if code = HeaderUnixFDs then msg\<lparr>UnixFDs := uVal\<rparr>
      else msg)"

text \<open>
  The \<open>switch sig\<close> of the loop body: the new position and the message. A Go \<open>break\<close>
  inside the switch leaves the switch, not the loop.
\<close>

definition parse_value ::
  "ByteOrder \<Rightarrow> byte list \<Rightarrow> nat \<Rightarrow> byte \<Rightarrow> string \<Rightarrow> nat \<Rightarrow> message \<Rightarrow> (nat \<times> message) option" where
  "parse_value order raw limit code sig pos0 msg =
     (if sig = ''s'' \<or> sig = ''o'' then
        let pos = align pos0 4 in
        if limit < pos + 4 then Some (pos, msg)
        else do {
          n \<leftarrow> u32_at order raw pos;
          let strLen = unat n;
          let pos = pos + 4;
          if length raw < pos + strLen then Some (pos, msg)
          else do {
            bs \<leftarrow> go_slice raw pos (pos + strLen);
            Some (pos + (strLen + 1), set_string_field code (string_of_bytes bs) msg)
          }
        }
      else if sig = ''u'' then
        let pos = align pos0 4 in
        if length raw < pos + 4 then Some (pos, msg)
        else do {
          uVal \<leftarrow> u32_at order raw pos;
          Some (pos + 4, set_u32_field code uVal msg)
        }
      else if sig = ''g'' then
        (if limit \<le> pos0 then Some (pos0, msg)
         else do {
           n \<leftarrow> go_index raw pos0;
           Some (pos0 + 1 + (unat n + 1), msg)
         })
      else Some (limit, msg))"

lemma align_ge: "pos \<le> align pos n"
  by (simp add: align_def Let_def)

lemma parse_value_pos:
  "parse_value order raw limit code sig pos0 msg = Some (pos, msg') \<Longrightarrow>
   pos0 \<le> limit \<Longrightarrow> pos0 \<le> pos"
  using align_ge [of pos0 4]
  by (auto simp: parse_value_def Let_def bind_eq_Some_conv split: if_splits)

text \<open>
  One iteration of the loop over the array \<open>a(yv)\<close>; \<open>limit\<close> is the source's \<open>end\<close>. The
  first component of the result is the next position, or \<open>None\<close> where the source breaks
  out of the loop.
\<close>

definition parse_field ::
  "ByteOrder \<Rightarrow> byte list \<Rightarrow> nat \<Rightarrow> nat \<Rightarrow> message \<Rightarrow> (nat option \<times> message) option" where
  "parse_field order raw limit pos0 msg =
     (let pos = align pos0 8 in
      if limit \<le> pos then Some (None, msg)
      else do {
        code \<leftarrow> go_index raw pos;
        let pos = pos + 1;
        if limit \<le> pos then Some (None, msg)
        else do {
          n \<leftarrow> go_index raw pos;
          let sigLen = unat n;
          let pos = pos + 1;
          if limit \<le> pos + sigLen then Some (None, msg)
          else do {
            sig \<leftarrow> go_slice raw pos (pos + sigLen);
            let pos = pos + (sigLen + 1);
            (pos', msg') \<leftarrow> parse_value order raw limit code (string_of_bytes sig) pos msg;
            Some (Some pos', msg')
          }
        }
      })"

lemma parse_field_pos:
  assumes "parse_field order raw limit pos0 msg = Some (Some pos, msg')"
  shows "pos0 < pos \<and> pos0 < limit"
  using assms align_ge [of pos0 8]
  by (auto simp: parse_field_def Let_def bind_eq_Some_conv split: if_splits dest!: parse_value_pos)

function parse_fields ::
  "ByteOrder \<Rightarrow> byte list \<Rightarrow> nat \<Rightarrow> nat \<Rightarrow> message \<Rightarrow> message option" where
  "parse_fields order raw limit pos msg =
     (if pos < limit then
        (case parse_field order raw limit pos msg of
           None \<Rightarrow> None
         | Some (None, msg') \<Rightarrow> Some msg'
         | Some (Some pos', msg') \<Rightarrow> parse_fields order raw limit pos' msg')
      else Some msg)"
  by pat_completeness auto
termination
  by (relation "measure (\<lambda>(order, raw, limit, pos, msg). limit - pos)")
    (auto dest!: parse_field_pos)

declare parse_fields.simps [simp del]

definition ParseHeader :: "byte list \<Rightarrow> (wire_error + message) option" where
  "ParseHeader raw =
     (if length raw < 16 then Some (Inl ErrShortHeader)
      else do {
        endian \<leftarrow> go_index raw 0;
        (case order_of_endian endian of
           None \<Rightarrow> Some (Inl (ErrEndianness endian))
         | Some order \<Rightarrow> do {
             msgType \<leftarrow> go_index raw 1;
             flags \<leftarrow> go_index raw 2;
             version \<leftarrow> go_index raw 3;
             bodyLen \<leftarrow> u32_at order raw 4;
             serial \<leftarrow> u32_at order raw 8;
             headerFieldsLen \<leftarrow> u32_at order raw 12;
             let paddedHeaderLen = padded_header_len headerFieldsLen;
             let msg = \<lparr>Endianness = endian, Type = msgType, Flags = flags, Version = version,
               BodyLength = bodyLen, Serial = serial, HeaderLength = paddedHeaderLen,
               TotalLength = paddedHeaderLen + bodyLen, Path = [], Interface = [], Member = [],
               ErrorName = [], ReplySerial = 0, Destination = [], Sender = [], UnixFDs = 0,
               Raw = raw, FDs = []\<rparr>;
             let limit = 16 + unat headerFieldsLen;
             if length raw < limit then Some (Inl ErrHeaderFields)
             else do {
               m \<leftarrow> parse_fields order raw limit 16 msg;
               Some (Inr m)
             }
           })
      })"

section \<open>The string-array codec\<close>

text \<open>The loop of \<open>ParseStringArray\<close>; \<open>limit\<close> is the source's \<open>end\<close>.\<close>

function parse_strings ::
  "ByteOrder \<Rightarrow> byte list \<Rightarrow> nat \<Rightarrow> nat \<Rightarrow> string list \<Rightarrow> (wire_error + string list) option" where
  "parse_strings order body limit pos0 out =
     (if pos0 < limit then
        let pos = align pos0 4 in
        if limit < pos + 4 then Some (Inr out)
        else do {
          n \<leftarrow> u32_at order body pos;
          let strLen = unat n;
          let pos = pos + 4;
          if length body < pos + strLen + 1 then Some (Inl ErrShortString)
          else do {
            bs \<leftarrow> go_slice body pos (pos + strLen);
            parse_strings order body limit (pos + (strLen + 1)) (out @ [string_of_bytes bs])
          }
        }
      else Some (Inr out))"
  by pat_completeness auto
termination
proof (relation "measure (\<lambda>(order, body, limit, pos, out). limit - pos)", goal_cases)
  case 1
  then show ?case by simp
next
  case (2 order body limit pos0 out)
  then show ?case using align_ge [of pos0 4] by auto
qed

declare parse_strings.simps [simp del]

definition ParseStringArray :: "message \<Rightarrow> (wire_error + string list) option" where
  "ParseStringArray msg =
     (if length (Raw msg) < unat (HeaderLength msg) then Some (Inl ErrNoBody)
      else do {
        body \<leftarrow> go_slice (Raw msg) (unat (HeaderLength msg)) (length (Raw msg));
        let order = byteOrder msg;
        if length body < 4 then Some (Inl ErrShortArray)
        else do {
          n \<leftarrow> u32_at order body 0;
          let limit = 4 + unat n;
          if length body < limit then Some (Inl ErrArrayLength)
          else parse_strings order body limit 4 []
        }
      })"

text \<open>The loop \<open>for len(inner)%4 != 0\<close>.\<close>

function pad4 :: "byte list \<Rightarrow> byte list" where
  "pad4 inner = (if length inner mod 4 \<noteq> 0 then pad4 (inner @ [0]) else inner)"
  by pat_completeness auto
termination
proof (relation "measure (\<lambda>inner. (4 - length inner mod 4) mod 4)", goal_cases)
  case 1
  then show ?case by simp
next
  case (2 inner)
  have "length inner mod 4 = 1 \<or> length inner mod 4 = 2 \<or> length inner mod 4 = 3"
    using 2 by auto
  then show ?case by (auto simp: mod_Suc)
qed

declare pad4.simps [simp del]

fun encode_names :: "ByteOrder \<Rightarrow> byte list \<Rightarrow> string list \<Rightarrow> byte list" where
  "encode_names order inner [] = inner"
| "encode_names order inner (name # names) =
     encode_names order
       (pad4 inner @ PutUint32 order (of_nat (length name)) @ bytes_of_string name @ [0]) names"

definition EncodeStringArray :: "ByteOrder \<Rightarrow> string list \<Rightarrow> byte list" where
  "EncodeStringArray order names =
     (let inner = encode_names order [] names
      in PutUint32 order (of_nat (length inner)) @ inner)"

definition ReplaceBody :: "message \<Rightarrow> byte list \<Rightarrow> message option" where
  "ReplaceBody msg body =
     (let headerLen = min (unat (HeaderLength msg)) (length (Raw msg))
      in do {
        raw \<leftarrow> put_u32_at (byteOrder msg) (take headerLen (Raw msg) @ body) 4 (of_nat (length body));
        parsed \<leftarrow> ParseHeader raw;
        (case parsed of
           Inl _ \<Rightarrow> Some (msg\<lparr>Raw := raw, BodyLength := of_nat (length body),
             TotalLength := of_nat (length raw), FDs := []\<rparr>)
         | Inr out \<Rightarrow> Some out)
      })"

section \<open>ParseHeader never panics\<close>

text \<open>What the header fields of a message do not determine.\<close>

definition same_envelope :: "message \<Rightarrow> message \<Rightarrow> bool" where
  "same_envelope m m' \<longleftrightarrow>
     Endianness m' = Endianness m \<and> Type m' = Type m \<and> Flags m' = Flags m \<and>
     Version m' = Version m \<and> BodyLength m' = BodyLength m \<and> Serial m' = Serial m \<and>
     HeaderLength m' = HeaderLength m \<and> TotalLength m' = TotalLength m \<and>
     Raw m' = Raw m \<and> FDs m' = FDs m"

lemma same_envelope_refl [simp]: "same_envelope m m"
  by (simp add: same_envelope_def)

lemma same_envelope_trans: "same_envelope a b \<Longrightarrow> same_envelope b c \<Longrightarrow> same_envelope a c"
  by (simp add: same_envelope_def)

lemma set_field_envelope [simp]:
  "same_envelope m (set_string_field code s m)" "same_envelope m (set_u32_field code v m)"
  by (simp_all add: same_envelope_def set_string_field_def set_u32_field_def)

lemma parse_value_total:
  assumes "limit \<le> length raw"
  shows "\<exists>p m. parse_value order raw limit code sig pos msg = Some (p, m) \<and> same_envelope msg m"
proof -
  define q where "q = align pos 4"
  have u: "\<exists>v. u32_at order raw q = Some v" if "q + 4 \<le> length raw"
    using that by (rule u32_at_Some)
  show ?thesis
    using assms u unfolding parse_value_def Let_def q_def [symmetric]
    by (fastforce simp: bind_eq_Some_conv)
qed

lemma parse_field_total:
  assumes "limit \<le> length raw"
  shows "\<exists>n m. parse_field order raw limit pos msg = Some (n, m) \<and> same_envelope msg m"
proof -
  define q where "q = align pos 8"
  have *: "\<exists>n m. Option.bind (parse_value order raw limit code sig p msg)
      (\<lambda>(pos', msg'). Some (Some pos', msg')) = Some (n, m) \<and> same_envelope msg m" for code sig p
    using parse_value_total [OF assms, of order code sig p msg] by auto
  show ?thesis
    using assms unfolding parse_field_def Let_def q_def [symmetric]
    by (auto simp: *)
qed

lemma parse_fields_total:
  assumes "limit \<le> length raw"
  shows "\<exists>m. parse_fields order raw limit pos msg = Some m \<and> same_envelope msg m"
  using assms
proof (induction order raw limit pos msg rule: parse_fields.induct)
  case (1 order raw limit pos msg)
  obtain n m where *: "parse_field order raw limit pos msg = Some (n, m)" "same_envelope msg m"
    using parse_field_total [OF "1.prems"] by blast
  show ?case
  proof (cases "pos < limit \<and> n \<noteq> None")
    case False
    with * show ?thesis by (subst parse_fields.simps) auto
  next
    case True
    then obtain p where n: "n = Some p" by auto
    with "1.IH" * True "1.prems"
    obtain m' where "parse_fields order raw limit p m = Some m'" "same_envelope m m'"
      by fastforce
    with * True n show ?thesis
      by (subst parse_fields.simps) (auto intro: same_envelope_trans)
  qed
qed

text \<open>
  An invariant of the field loop: what every field update keeps, with strings no longer
  than the input, holds of the result.
\<close>

lemma parse_value_invariant:
  assumes "parse_value order raw limit code sig pos msg = Some (p, m)" and "P msg"
    and "\<And>code s m. length s \<le> length raw \<Longrightarrow> P m \<Longrightarrow> P (set_string_field code s m)"
    and "\<And>code v m. P m \<Longrightarrow> P (set_u32_field code v m)"
  shows "P m"
  using assms
  by (auto simp: parse_value_def Let_def bind_eq_Some_conv go_slice_def split: if_splits)

lemma parse_fields_invariant:
  assumes "parse_fields order raw limit pos msg = Some m" and "P msg"
    and "\<And>code s m. length s \<le> length raw \<Longrightarrow> P m \<Longrightarrow> P (set_string_field code s m)"
    and "\<And>code v m. P m \<Longrightarrow> P (set_u32_field code v m)"
  shows "P m"
  using assms
proof (induction order raw limit pos msg rule: parse_fields.induct)
  case (1 order raw limit pos msg)
  have step: "P m'" if "parse_field order raw limit pos msg = Some (n, m')" for n m'
    using that "1.prems" parse_value_invariant [where P = P]
    by (auto simp: parse_field_def Let_def bind_eq_Some_conv split: if_splits)
  show ?case
  proof (cases "pos < limit")
    case False
    with "1.prems" show ?thesis by (subst (asm) parse_fields.simps) simp
  next
    case True
    with "1.prems"(1) obtain n m' where f: "parse_field order raw limit pos msg = Some (n, m')"
      by (subst (asm) parse_fields.simps) (auto split: option.splits)
    show ?thesis
    proof (cases n)
      case None
      with "1.prems"(1) True f step show ?thesis by (subst (asm) parse_fields.simps) auto
    next
      case (Some p)
      have "parse_fields order raw limit p m' = Some m"
        using "1.prems"(1) True f Some by (subst (asm) parse_fields.simps) auto
      from "1.IH" [OF True f refl Some this step [OF f] "1.prems"(3,4)] show ?thesis by blast
    qed
  qed
qed

text \<open>
  \<open>ParseHeader\<close> on any bytes: it never panics, and it fails exactly on a short header,
  an unknown byte order, or a field array longer than the input.
\<close>

lemma first_byte: "16 \<le> length raw \<Longrightarrow> go_index raw 0 = Some (raw ! 0)"
  by (rule go_index_Some) auto

lemma ParseHeader_short: "length raw < 16 \<Longrightarrow> ParseHeader raw = Some (Inl ErrShortHeader)"
  by (simp add: ParseHeader_def)

lemma ParseHeader_endian:
  "16 \<le> length raw \<Longrightarrow> order_of_endian (raw ! 0) = None \<Longrightarrow>
   ParseHeader raw = Some (Inl (ErrEndianness (raw ! 0)))"
  by (simp add: ParseHeader_def first_byte)

text \<open>The message \<open>ParseHeader\<close> starts the field loop with.\<close>

definition base_message :: "ByteOrder \<Rightarrow> byte list \<Rightarrow> u32 \<Rightarrow> u32 \<Rightarrow> u32 \<Rightarrow> message" where
  "base_message order raw bodyLen serial hfl =
     \<lparr>Endianness = raw ! 0, Type = raw ! 1, Flags = raw ! 2, Version = raw ! 3,
      BodyLength = bodyLen, Serial = serial, HeaderLength = padded_header_len hfl,
      TotalLength = padded_header_len hfl + bodyLen, Path = [], Interface = [], Member = [],
      ErrorName = [], ReplySerial = 0, Destination = [], Sender = [], UnixFDs = 0,
      Raw = raw, FDs = []\<rparr>"

lemma ParseHeader_fields:
  assumes "16 \<le> length raw" and "order_of_endian (raw ! 0) = Some order"
    and "u32_at order raw 4 = Some bodyLen" and "u32_at order raw 8 = Some serial"
    and "u32_at order raw 12 = Some hfl"
  shows "ParseHeader raw =
    (if length raw < 16 + unat hfl then Some (Inl ErrHeaderFields)
     else map_option Inr
       (parse_fields order raw (16 + unat hfl) 16 (base_message order raw bodyLen serial hfl)))"
  using assms
  by (simp add: ParseHeader_def first_byte base_message_def map_option_case Let_def
      split: option.splits)

lemma ParseHeader_total: "\<exists>r. ParseHeader raw = Some r"
proof (cases "length raw < 16 \<or> order_of_endian (raw ! 0) = None")
  case True
  then show ?thesis using ParseHeader_short ParseHeader_endian by (metis not_le)
next
  case False
  then obtain order where o: "order_of_endian (raw ! 0) = Some order" and l: "16 \<le> length raw"
    by auto
  obtain a b c where u: "u32_at order raw 4 = Some a" "u32_at order raw 8 = Some b"
    "u32_at order raw 12 = Some c"
    using l u32_at_Some [of 4 raw] u32_at_Some [of 8 raw] u32_at_Some [of 12 raw] by fastforce
  show ?thesis
    using parse_fields_total [of "16 + unat c" raw order 16 "base_message order raw a b c"]
    by (auto simp: ParseHeader_fields [OF l o u])
qed

text \<open>What a successful parse says of the message.\<close>

definition parsed :: "message \<Rightarrow> bool" where
  "parsed m \<longleftrightarrow>
     16 \<le> length (Raw m) \<and> Endianness m = Raw m ! 0 \<and> Type m = Raw m ! 1 \<and>
     order_of_endian (Endianness m) = Some (byteOrder m) \<and>
     u32_at (byteOrder m) (Raw m) 4 = Some (BodyLength m) \<and>
     u32_at (byteOrder m) (Raw m) 8 = Some (Serial m) \<and>
     (\<exists>hfl. u32_at (byteOrder m) (Raw m) 12 = Some hfl \<and>
        HeaderLength m = padded_header_len hfl \<and> 16 + unat hfl \<le> length (Raw m)) \<and>
     TotalLength m = HeaderLength m + BodyLength m \<and> length (Sender m) \<le> length (Raw m)"

lemma byteOrder_FDs [simp]: "byteOrder (m\<lparr>FDs := fds\<rparr>) = byteOrder m"
  by (simp add: byteOrder_def)

lemma parsed_FDs [simp]: "parsed (m\<lparr>FDs := fds\<rparr>) = parsed m"
  by (simp add: parsed_def)

lemma order_of_endian_byteOrder:
  "order_of_endian e = Some order \<Longrightarrow> Endianness m = e \<Longrightarrow> byteOrder m = order"
  by (auto simp: order_of_endian_def byteOrder_def split: if_splits)

lemma ParseHeader_parsed:
  assumes "ParseHeader raw = Some (Inr m)"
  shows "parsed m \<and> Raw m = raw \<and> FDs m = []"
proof -
  have l: "16 \<le> length raw" and "order_of_endian (raw ! 0) \<noteq> None"
    using assms ParseHeader_short [of raw] ParseHeader_endian [of raw] by (auto simp: not_le [symmetric])
  then obtain order where o: "order_of_endian (raw ! 0) = Some order" by auto
  obtain a b c where u: "u32_at order raw 4 = Some a" "u32_at order raw 8 = Some b"
    "u32_at order raw 12 = Some c"
    using l u32_at_Some [of 4 raw] u32_at_Some [of 8 raw] u32_at_Some [of 12 raw] by fastforce
  have lim: "16 + unat c \<le> length raw"
    and pf: "parse_fields order raw (16 + unat c) 16 (base_message order raw a b c) = Some m"
    using assms by (auto simp: ParseHeader_fields [OF l o u] split: if_splits)
  with parse_fields_total [OF lim, of order 16 "base_message order raw a b c"]
  have env: "same_envelope (base_message order raw a b c) m" by auto
  then have "byteOrder m = order"
    using o by (auto simp: same_envelope_def base_message_def intro: order_of_endian_byteOrder)
  moreover have "length (Sender m) \<le> length raw"
    by (rule parse_fields_invariant [OF pf])
      (auto simp: base_message_def set_string_field_def set_u32_field_def)
  ultimately show ?thesis
    using env l o u lim by (auto simp: parsed_def same_envelope_def base_message_def)
qed

section \<open>The grammar of header fields\<close>

text \<open>
  The D-Bus grammar of one header field, independent of the parser: a struct aligned to
  eight bytes, a code, a signature, a value. \<open>append_entry\<close> writes one after the fields
  already written; \<open>apply_entry\<close> is what it means for the message.
\<close>

datatype hfield = StrField byte string | ObjField byte string | U32Field byte u32 | SigField byte string

definition pad_to :: "nat \<Rightarrow> byte list \<Rightarrow> byte list" where
  "pad_to n bs = bs @ replicate (align (length bs) n - length bs) 0"

fun enc_entry :: "ByteOrder \<Rightarrow> hfield \<Rightarrow> byte list" where
  "enc_entry order (StrField code s) =
     [code, 1, 115, 0] @ PutUint32 order (of_nat (length s)) @ bytes_of_string s @ [0]"
| "enc_entry order (ObjField code s) =
     [code, 1, 111, 0] @ PutUint32 order (of_nat (length s)) @ bytes_of_string s @ [0]"
| "enc_entry order (U32Field code v) = [code, 1, 117, 0] @ PutUint32 order v"
| "enc_entry order (SigField code s) =
     [code, 1, 103, 0] @ [of_nat (length s)] @ bytes_of_string s @ [0]"

definition append_entry :: "ByteOrder \<Rightarrow> byte list \<Rightarrow> hfield \<Rightarrow> byte list" where
  "append_entry order buf f = pad_to 8 buf @ enc_entry order f"

fun apply_entry :: "message \<Rightarrow> hfield \<Rightarrow> message" where
  "apply_entry m (StrField code s) = set_string_field code s m"
| "apply_entry m (ObjField code s) = set_string_field code s m"
| "apply_entry m (U32Field code v) = set_u32_field code v m"
| "apply_entry m (SigField code s) = m"

fun entry_fits :: "hfield \<Rightarrow> bool" where
  "entry_fits (StrField code s) \<longleftrightarrow> length s < 2 ^ 32"
| "entry_fits (ObjField code s) \<longleftrightarrow> length s < 2 ^ 32"
| "entry_fits (U32Field code v) \<longleftrightarrow> True"
| "entry_fits (SigField code s) \<longleftrightarrow> length s < 256"

lemma align_dvd: "0 < n \<Longrightarrow> n dvd align p n"
proof (cases "p mod n = 0")
  case False
  assume n: "0 < n"
  have "p + (n - p mod n) = n * (p div n) + (p mod n + (n - p mod n))"
    by (metis add.assoc mult_div_mod_eq)
  also have "\<dots> = n * (p div n + 1)"
    using n by (simp add: less_imp_le)
  finally show ?thesis using False by (simp add: align_def Let_def)
qed (auto simp: align_def)

lemma align_id [simp]: "n dvd p \<Longrightarrow> align p n = p"
  by (simp add: align_def dvd_eq_mod_eq_0)

lemma align_less: "0 < n \<Longrightarrow> align p n < p + n"
  by (simp add: align_def Let_def) 

lemma length_pad_to [simp]: "length (pad_to n bs) = align (length bs) n"
  by (simp add: pad_to_def align_ge)

lemma align_add: "n dvd k \<Longrightarrow> align (k + p) n = k + align p n"
proof -
  assume "n dvd k"
  then have "(k + p) mod n = p mod n" by (auto elim!: dvdE)
  then show ?thesis by (simp add: align_def Let_def)
qed

lemma string_of_bytes_simps [simp]:
  "string_of_bytes [] = []" "string_of_bytes (b # bs) = char_of_byte b # string_of_bytes bs"
  by (simp_all add: string_of_bytes_def)

lemma sig_chars [simp]:
  "char_of_byte 115 = CHR ''s''" "char_of_byte 111 = CHR ''o''"
  "char_of_byte 117 = CHR ''u''" "char_of_byte 103 = CHR ''g''"
  by code_simp+

lemma u32_at_shift:
  "i = length A + j \<Longrightarrow> u32_at order (A @ B) i = u32_at order B j"
  by (auto simp: u32_at_def go_slice_def)

text \<open>One iteration of the parser over one encoded field.\<close>

lemma parse_field_prefix:
  assumes raw: "raw = A @ [code, 1, sb, 0] @ C" and al: "align pos 8 = length A"
    and lim: "length A + 3 < limit"
    and pv: "parse_value order raw limit code [char_of_byte sb] (length A + 4) msg = Some (p, m)"
  shows "parse_field order raw limit pos msg = Some (Some p, m)"
proof -
  have "go_index raw (length A) = Some code" "go_index raw (Suc (length A)) = Some 1"
    "go_slice raw (Suc (Suc (length A))) (Suc (Suc (Suc (length A)))) = Some [sb]"
    by (simp_all add: raw nth_append go_index_def go_slice_def)
  moreover have "parse_value order raw limit code [char_of_byte sb]
      (Suc (Suc (Suc (Suc (length A))))) msg = Some (p, m)"
    using pv by (simp add: numeral_eq_Suc)
  ultimately show ?thesis
    using lim by (simp add: parse_field_def al Let_def)
qed

lemma parse_value_string:
  assumes raw: "raw = A @ PutUint32 order (of_nat (length s)) @ bytes_of_string s @ [0] @ B"
    and q: "q = length A" and "4 dvd q" and "length s < 2 ^ 32" and "q + 4 \<le> limit"
    and "sig = ''s'' \<or> sig = ''o''"
  shows "parse_value order raw limit code sig q msg =
    Some (q + (4 + (length s + 1)), set_string_field code s msg)"
proof -
  have "u32_at order raw q = Some (of_nat (length s))"
    unfolding raw q by simp
  moreover have "go_slice raw (q + 4) (q + 4 + length s) = Some (bytes_of_string s)"
    using slice_middle [of "q + 4" "A @ PutUint32 order (of_nat (length s))"
        "q + 4 + length s" "bytes_of_string s" "[0] @ B"]
    by (simp add: raw q)
  moreover have "q + 4 + length s \<le> length raw" by (simp add: raw q)
  ultimately show ?thesis
    using assms(3-) by (auto simp: parse_value_def Let_def)
qed

lemma parse_value_u32:
  assumes raw: "raw = A @ PutUint32 order v @ B" and q: "q = length A" and "4 dvd q"
  shows "parse_value order raw limit code ''u'' q msg = Some (q + 4, set_u32_field code v msg)"
  using assms by (simp add: parse_value_def Let_def)

lemma parse_value_sig:
  assumes raw: "raw = A @ [of_nat (length s)] @ bytes_of_string s @ [0] @ B"
    and "q = length A" and "length s < 256" and "q < limit"
  shows "parse_value order raw limit code ''g'' q msg = Some (q + (length s + 2), msg)"
  using assms by (simp add: parse_value_def go_index_def)

lemma parse_field_entry:
  assumes raw: "raw = A @ enc_entry order f @ B" and al: "align pos 8 = length A"
    and lim: "length A + length (enc_entry order f) \<le> limit"
    and fits: "entry_fits f"
  shows "parse_field order raw limit pos msg =
    Some (Some (length A + length (enc_entry order f)), apply_entry msg f)"
proof -
  have d8: "8 dvd length A" using align_dvd [of 8 pos] al by simp
  have d4: "4 dvd length A + 4" using d8 by (auto elim!: dvdE)
  show ?thesis
  proof (cases f)
    case (StrField code s)
    have "parse_value order raw limit code ''s'' (length A + 4) msg =
        Some (length A + 4 + (4 + (length s + 1)), set_string_field code s msg)"
      by (rule parse_value_string [where A = "A @ [code, 1, 115, 0]" and B = B])
        (use d4 fits lim in \<open>auto simp: raw StrField\<close>)
    then show ?thesis
      using lim by (subst parse_field_prefix [OF _ al, of raw code 115]) (auto simp: raw StrField)
  next
    case (ObjField code s)
    have "parse_value order raw limit code ''o'' (length A + 4) msg =
        Some (length A + 4 + (4 + (length s + 1)), set_string_field code s msg)"
      by (rule parse_value_string [where A = "A @ [code, 1, 111, 0]" and B = B])
        (use d4 fits lim in \<open>auto simp: raw ObjField\<close>)
    then show ?thesis
      using lim by (subst parse_field_prefix [OF _ al, of raw code 111]) (auto simp: raw ObjField)
  next
    case (U32Field code v)
    have "parse_value order raw limit code ''u'' (length A + 4) msg =
        Some (length A + 4 + 4, set_u32_field code v msg)"
      by (rule parse_value_u32 [where A = "A @ [code, 1, 117, 0]" and B = B])
        (use d4 in \<open>auto simp: raw U32Field\<close>)
    then show ?thesis
      using lim by (subst parse_field_prefix [OF _ al, of raw code 117]) (auto simp: raw U32Field)
  next
    case (SigField code s)
    have "parse_value order raw limit code ''g'' (length A + 4) msg =
        Some (length A + 4 + (length s + 2), msg)"
      by (rule parse_value_sig [where A = "A @ [code, 1, 103, 0]" and B = B])
        (use fits lim in \<open>auto simp: raw SigField\<close>)
    then show ?thesis
      using lim by (subst parse_field_prefix [OF _ al, of raw code 103]) (auto simp: raw SigField)
  qed
qed

text \<open>The whole loop over a list of encoded fields.\<close>

definition enc_fields :: "ByteOrder \<Rightarrow> byte list \<Rightarrow> hfield list \<Rightarrow> byte list" where
  "enc_fields order buf fs = foldl (append_entry order) buf fs"

lemma enc_fields_prefix: "\<exists>R. enc_fields order buf fs = buf @ R"
proof (induction fs arbitrary: buf)
  case (Cons f fs)
  then show ?case
    by (auto simp: enc_fields_def append_entry_def pad_to_def)
       (metis append.assoc)
qed (simp add: enc_fields_def)

lemma parse_fields_enc:
  assumes "raw = H @ enc_fields order buf fs @ R" and "length H = 16"
    and "limit = 16 + length (enc_fields order buf fs)"
    and "list_all entry_fits fs"
  shows "parse_fields order raw limit (16 + length buf) msg = Some (foldl apply_entry msg fs)"
  using assms
proof (induction fs arbitrary: buf msg)
  case Nil
  then show ?case by (subst parse_fields.simps) (simp add: enc_fields_def)
next
  case (Cons f fs)
  let ?buf = "append_entry order buf f"
  obtain S where S: "enc_fields order ?buf fs = ?buf @ S"
    using enc_fields_prefix by blast
  have step: "enc_fields order buf (f # fs) = enc_fields order ?buf fs"
    by (simp add: enc_fields_def)
  have pos: "0 < length (enc_entry order f)" by (cases f) auto
  have len: "length ?buf = align (length buf) 8 + length (enc_entry order f)"
    by (simp add: append_entry_def)
  have al: "align (16 + length buf) 8 = length (H @ pad_to 8 buf)"
    using align_add [of 8 16 "length buf"] Cons.prems by simp
  have "parse_field order raw limit (16 + length buf) msg =
      Some (Some (length (H @ pad_to 8 buf) + length (enc_entry order f)), apply_entry msg f)"
    by (rule parse_field_entry [OF _ al, where B = "S @ R"])
      (use Cons.prems S step len in \<open>auto simp: append_entry_def\<close>)
  moreover have "16 + length buf < limit"
    using Cons.prems(3) S step len pos align_ge [of "length buf" 8]
    by (simp del: length_greater_0_conv)
  moreover have "parse_fields order raw limit (16 + length ?buf) (apply_entry msg f) =
      Some (foldl apply_entry (apply_entry msg f) fs)"
    by (rule Cons.IH) (use Cons.prems step in auto)
  ultimately show ?case
    using len Cons.prems by (subst parse_fields.simps) (simp add: add.assoc)
qed

section \<open>Whole messages\<close>

definition endian_byte :: "ByteOrder \<Rightarrow> byte" where
  "endian_byte order = (case order of LittleEndian \<Rightarrow> 108 | BigEndian \<Rightarrow> 66)"

text \<open>The D-Bus grammar of a whole message: fixed header, padded field array, body.\<close>

definition enc_message ::
  "ByteOrder \<Rightarrow> byte \<Rightarrow> byte \<Rightarrow> byte \<Rightarrow> u32 \<Rightarrow> hfield list \<Rightarrow> byte list \<Rightarrow> byte list" where
  "enc_message order typ flags version serial fs body =
     (let fields = enc_fields order [] fs
      in [endian_byte order, typ, flags, version] @ PutUint32 order (of_nat (length body)) @
         PutUint32 order serial @ PutUint32 order (of_nat (length fields)) @
         pad_to 8 fields @ body)"

text \<open>The message those bytes mean.\<close>

definition dec_message ::
  "ByteOrder \<Rightarrow> byte \<Rightarrow> byte \<Rightarrow> byte \<Rightarrow> u32 \<Rightarrow> hfield list \<Rightarrow> byte list \<Rightarrow> message" where
  "dec_message order typ flags version serial fs body =
     foldl apply_entry
       (base_message order (enc_message order typ flags version serial fs body)
         (of_nat (length body)) serial (of_nat (length (enc_fields order [] fs)))) fs"

definition message_fits :: "ByteOrder \<Rightarrow> hfield list \<Rightarrow> bool" where
  "message_fits order fs \<longleftrightarrow>
     list_all entry_fits fs \<and> length (enc_fields order [] fs) + 24 < 2 ^ 32"

lemma order_of_endian_byte [simp]: "order_of_endian (endian_byte order) = Some order"
  by (cases order) (simp_all add: endian_byte_def order_of_endian_def)

text \<open>Without wrap-around the padded header length is the aligned one.\<close>

lemma unat_padded_header_len:
  assumes "unat hfl + 24 < 2 ^ 32"
  shows "unat (padded_header_len hfl) = align (16 + unat hfl) 8"
proof -
  have p: "unat (16 + hfl) = 16 + unat hfl"
    using assms by (simp add: unat_word_ariths)
  have r: "unat ((16 + hfl) mod 8) = (16 + unat hfl) mod 8"
    by (simp add: unat_mod p)
  have r8: "(16 + unat hfl) mod 8 < 8" by simp
  have s: "unat (8 - (16 + hfl) mod 8) = 8 - (16 + unat hfl) mod 8"
    using r r8 by (subst unat_sub) (simp_all add: word_le_nat_alt)
  have z: "(16 + hfl) mod 8 = 0 \<longleftrightarrow> (16 + unat hfl) mod 8 = 0"
    using r by (metis unat_eq_zero unat_0)
  have "unat (16 + hfl + d) = unat (16 + hfl) + unat d" if "unat d \<le> 8" for d
    using that assms p by (subst unat_add_lem [THEN iffD1, symmetric]) (auto simp: unat_word_ariths)
  then have "unat (16 + hfl + (8 - (16 + hfl) mod 8)) = 16 + unat hfl + (8 - (16 + unat hfl) mod 8)"
    using p s by (metis diff_le_self)
  then show ?thesis
    using z p by (simp add: padded_header_len_def align_def Let_def)
qed

lemma length_enc_message:
  "length (enc_message order typ flags version serial fs body) =
     16 + align (length (enc_fields order [] fs)) 8 + length body"
  by (simp add: enc_message_def Let_def)

lemma enc_message_nth:
  "enc_message order typ flags version serial fs body ! 0 = endian_byte order"
  "enc_message order typ flags version serial fs body ! 1 = typ"
  by (simp_all add: enc_message_def Let_def)

lemma enc_message_u32:
  "u32_at order (enc_message order typ flags version serial fs body) 4 = Some (of_nat (length body))"
  "u32_at order (enc_message order typ flags version serial fs body) 8 = Some serial"
  "u32_at order (enc_message order typ flags version serial fs body) 12 =
     Some (of_nat (length (enc_fields order [] fs)))"
  using u32_at_append [of 4 "[endian_byte order, typ, flags, version]"]
    u32_at_append [of 8 "[endian_byte order, typ, flags, version] @ PutUint32 order x" for x]
    u32_at_append [of 12 "[endian_byte order, typ, flags, version] @ PutUint32 order x @
      PutUint32 order y" for x y]
  by (simp_all add: enc_message_def Let_def)

lemma ParseHeader_enc_message:
  assumes "message_fits order fs"
  shows "ParseHeader (enc_message order typ flags version serial fs body) =
    Some (Inr (dec_message order typ flags version serial fs body))"
proof -
  let ?raw = "enc_message order typ flags version serial fs body"
  let ?F = "enc_fields order [] fs"
  define H where "H = [endian_byte order, typ, flags, version] @
    PutUint32 order (of_nat (length body)) @ PutUint32 order serial @
    PutUint32 order (of_nat (length ?F))"
  have lenF: "unat (of_nat (length ?F) :: u32) = length ?F"
    using assms by (simp add: message_fits_def)
  have raw: "?raw = H @ ?F @ (replicate (align (length ?F) 8 - length ?F) 0 @ body)"
    by (simp add: enc_message_def H_def Let_def pad_to_def)
  have l: "16 + length ?F \<le> length ?raw"
    using align_ge [of "length ?F" 8] by (simp add: length_enc_message)
  have "parse_fields order ?raw (16 + length ?F) (16 + length ([] :: byte list)) (base_message order ?raw
      (of_nat (length body)) serial (of_nat (length ?F))) =
    Some (dec_message order typ flags version serial fs body)"
    unfolding dec_message_def
    by (rule parse_fields_enc [OF raw]) (use assms in \<open>auto simp: H_def message_fits_def\<close>)
  then show ?thesis
    using l by (subst ParseHeader_fields [OF _ _ enc_message_u32]) (simp_all add: enc_message_nth lenF)
qed

lemma foldl_apply_envelope: "same_envelope m (foldl apply_entry m fs)"
proof (induction fs arbitrary: m)
  case (Cons f fs)
  have "same_envelope m (apply_entry m f)" by (cases f) simp_all
  with Cons show ?case by (auto intro: same_envelope_trans)
qed simp

lemma dec_message_envelope:
  "Raw (dec_message order typ flags version serial fs body) =
     enc_message order typ flags version serial fs body"
  "Type (dec_message order typ flags version serial fs body) = typ"
  "Serial (dec_message order typ flags version serial fs body) = serial"
  "Endianness (dec_message order typ flags version serial fs body) = endian_byte order"
  "HeaderLength (dec_message order typ flags version serial fs body) =
     padded_header_len (of_nat (length (enc_fields order [] fs)))"
  "FDs (dec_message order typ flags version serial fs body) = []"
  using foldl_apply_envelope [of "base_message order
      (enc_message order typ flags version serial fs body) (of_nat (length body)) serial
      (of_nat (length (enc_fields order [] fs)))" fs]
  unfolding dec_message_def same_envelope_def
  by (simp_all add: base_message_def enc_message_nth [unfolded One_nat_def])

lemma byteOrder_dec_message [simp]:
  "byteOrder (dec_message order typ flags version serial fs body) = order"
  by (rule order_of_endian_byteOrder [OF order_of_endian_byte]) (simp add: dec_message_envelope)

section \<open>Round trip of string arrays\<close>

lemma align_Suc: "n mod 4 \<noteq> 0 \<Longrightarrow> align n 4 = align (Suc n) 4"
  by (auto simp: align_def Let_def mod_Suc)

lemma pad4_pad_to [simp]: "pad4 bs = pad_to 4 bs"
proof (induction bs rule: pad4.induct)
  case (1 bs)
  show ?case
  proof (cases "length bs mod 4 = 0")
    case True
    then show ?thesis by (subst pad4.simps) (simp add: pad_to_def align_def)
  next
    case False
    then have al: "align (length bs) 4 = align (Suc (length bs)) 4"
      by (rule align_Suc)
    then have "align (length bs) 4 - length bs = Suc (align (Suc (length bs)) 4 - Suc (length bs))"
      using align_ge [of "Suc (length bs)" 4] by linarith
    then have "pad_to 4 bs = pad_to 4 (bs @ [0])"
      by (simp add: pad_to_def)
    then show ?thesis using False 1 by (subst pad4.simps) simp
  qed
qed

lemma encode_names_prefix: "\<exists>R. encode_names order buf names = buf @ R"
proof (induction names arbitrary: buf)
  case (Cons n names)
  show ?case
    using Cons [of "pad4 buf @ PutUint32 order (of_nat (length n)) @ bytes_of_string n @ [0]"]
    by (auto simp: pad_to_def)
qed simp

lemma parse_strings_encode:
  assumes "body = L @ encode_names order buf names @ R" and "length L = 4"
    and "limit = 4 + length (encode_names order buf names)"
    and "list_all (\<lambda>s. length s < 2 ^ 32) names"
  shows "parse_strings order body limit (4 + length buf) out = Some (Inr (out @ names))"
  using assms
proof (induction names arbitrary: buf out)
  case Nil
  then show ?case by (subst parse_strings.simps) simp
next
  case (Cons n names)
  let ?P = "L @ pad_to 4 buf"
  let ?buf = "pad_to 4 buf @ PutUint32 order (of_nat (length n)) @ bytes_of_string n @ [0]"
  obtain S where S: "encode_names order ?buf names = ?buf @ S"
    using encode_names_prefix by blast
  have body: "body = ?P @ PutUint32 order (of_nat (length n)) @ bytes_of_string n @ [0] @ S @ R"
    using Cons.prems(1) S by simp
  have al: "align (4 + length buf) 4 = length ?P"
    using align_add [of 4 4 "length buf"] Cons.prems(2) by simp
  have lim: "limit = length ?P + 4 + length n + 1 + length S"
    using Cons.prems(2,3) S by simp
  have "4 + length buf \<le> length ?P"
    using align_ge [of "length buf" 4] Cons.prems(2) by simp
  then have lt: "4 + length buf < limit" using lim by linarith
  have u: "u32_at order body (length ?P) = Some (of_nat (length n))"
    unfolding body by (rule u32_at_append) simp
  have sl: "go_slice body (length ?P + 4) (length ?P + 4 + length n) = Some (bytes_of_string n)"
    using slice_middle [of "length ?P + 4" "?P @ PutUint32 order (of_nat (length n))"
        "length ?P + 4 + length n" "bytes_of_string n" "[0] @ S @ R"]
    by (simp add: body)
  have fit: "length ?P + 4 + length n + 1 \<le> length body" by (simp add: body)
  have "parse_strings order body limit (4 + length ?buf) (out @ [n]) =
      Some (Inr ((out @ [n]) @ names))"
    by (rule Cons.IH) (use Cons.prems in auto)
  moreover have "length ?P + 4 + (length n + 1) = 4 + length ?buf"
    using Cons.prems(2) by simp
  ultimately show ?case
    using Cons.prems(4) lt lim u sl fit
    by (subst parse_strings.simps) (simp only: al Let_def, simp)
qed

lemma EncodeStringArray_alt:
  "EncodeStringArray order names =
     PutUint32 order (of_nat (length (encode_names order [] names))) @ encode_names order [] names"
  by (simp add: EncodeStringArray_def Let_def)

text \<open>The bytes after the header, which both body parsers read.\<close>

definition msg_body :: "message \<Rightarrow> byte list" where
  "msg_body m = drop (unat (HeaderLength m)) (Raw m)"

definition names_fit :: "ByteOrder \<Rightarrow> string list \<Rightarrow> bool" where
  "names_fit order names \<longleftrightarrow>
     list_all (\<lambda>s. length s < 2 ^ 32) names \<and> length (encode_names order [] names) < 2 ^ 32"

lemma ParseStringArray_body:
  assumes "unat (HeaderLength m) \<le> length (Raw m)"
  shows "ParseStringArray m =
    (if length (msg_body m) < 4 then Some (Inl ErrShortArray)
     else do {
       n \<leftarrow> u32_at (byteOrder m) (msg_body m) 0;
       if length (msg_body m) < 4 + unat n then Some (Inl ErrArrayLength)
       else parse_strings (byteOrder m) (msg_body m) (4 + unat n) 4 []
     })"
proof -
  have "go_slice (Raw m) (unat (HeaderLength m)) (length (Raw m)) = Some (msg_body m)"
    using assms by (simp add: msg_body_def)
  then show ?thesis
    using assms by (simp only: ParseStringArray_def Let_def) simp
qed

lemma ParseStringArray_Encode:
  assumes "msg_body m = EncodeStringArray (byteOrder m) names @ R"
    and "unat (HeaderLength m) \<le> length (Raw m)"
    and "names_fit (byteOrder m) names"
  shows "ParseStringArray m = Some (Inr names)"
proof -
  let ?I = "encode_names (byteOrder m) [] names"
  have n: "unat (of_nat (length ?I) :: u32) = length ?I"
    using assms(3) by (simp add: names_fit_def)
  have b: "msg_body m = PutUint32 (byteOrder m) (of_nat (length ?I)) @ ?I @ R"
    using assms(1) by (simp add: EncodeStringArray_alt)
  then have u: "u32_at (byteOrder m) (msg_body m) 0 = Some (of_nat (length ?I))"
    using u32_at_append [of 0 "[]" "byteOrder m"] by simp
  have "parse_strings (byteOrder m) (msg_body m) (4 + length ?I) (4 + length ([] :: byte list)) [] =
      Some (Inr ([] @ names))"
    by (rule parse_strings_encode [OF b]) (use assms(3) in \<open>auto simp: names_fit_def\<close>)
  then show ?thesis
    using assms(2) n by (simp add: ParseStringArray_body u) (simp add: b)
qed

section \<open>ParseStringArray never panics, and what it reads is bounded\<close>

definition names_cost :: "nat \<Rightarrow> string list \<Rightarrow> nat" where
  "names_cost k names = (\<Sum>s\<leftarrow>names. length s + k)"

lemma names_cost_simps [simp]:
  "names_cost k [] = 0" "names_cost k (s # names) = length s + k + names_cost k names"
  "names_cost k (xs @ ys) = names_cost k xs + names_cost k ys"
  by (simp_all add: names_cost_def)

text \<open>Every string read took its bytes, a length word and a terminator from the body.\<close>

lemma parse_strings_total:
  assumes "limit \<le> length body" and "pos \<le> length body"
  shows "\<exists>r. parse_strings order body limit pos out = Some r \<and>
    (\<forall>names. r = Inr names \<longrightarrow>
       names_cost 5 names \<le> names_cost 5 out + (length body - pos))"
  using assms
proof (induction order body limit pos out rule: parse_strings.induct)
  case (1 order body limit pos out)
  let ?p = "align pos 4"
  show ?case
  proof (cases "pos < limit \<and> ?p + 4 \<le> limit")
    case False
    then show ?thesis by (subst parse_strings.simps) (auto simp: Let_def)
  next
    case True
    then obtain n where n: "u32_at order body ?p = Some n"
      using "1.prems"(1) u32_at_Some [of ?p body order] by auto
    show ?thesis
    proof (cases "length body < ?p + 4 + unat n + 1")
      case True
      with n \<open>pos < limit \<and> _\<close> show ?thesis
        by (subst parse_strings.simps) (auto simp: Let_def)
    next
      case False
      define bs where "bs = take (unat n) (drop (?p + 4) body)"
      have bs: "go_slice body (?p + 4) (?p + 4 + unat n) = Some bs" "length bs = unat n"
        using False by (auto simp: bs_def)
      have pp: "pos \<le> ?p" by (rule align_ge)
      have "\<exists>r. parse_strings order body limit (?p + 4 + (unat n + 1)) (out @ [string_of_bytes bs])
          = Some r \<and> (\<forall>names. r = Inr names \<longrightarrow> names_cost 5 names \<le>
            names_cost 5 (out @ [string_of_bytes bs]) + (length body - (?p + 4 + (unat n + 1))))"
        using "1.IH" [OF _ refl _ n refl refl False bs(1)] True False "1.prems" by auto
      then show ?thesis
        using True n False bs pp by (subst parse_strings.simps) (auto simp: Let_def)
    qed
  qed
qed

lemma ParseStringArray_total:
  "\<exists>r. ParseStringArray m = Some r \<and>
    (\<forall>names. r = Inr names \<longrightarrow> names_cost 5 names \<le> length (Raw m))"
proof (cases "length (Raw m) < unat (HeaderLength m) \<or> length (msg_body m) < 4")
  case True
  then show ?thesis
    by (cases "length (Raw m) < unat (HeaderLength m)")
      (auto simp: ParseStringArray_body not_less, simp add: ParseStringArray_def)
next
  case False
  then obtain n where n: "u32_at (byteOrder m) (msg_body m) 0 = Some n"
    using u32_at_Some [of 0 "msg_body m" "byteOrder m"] by auto
  have len: "length (msg_body m) \<le> length (Raw m)" by (simp add: msg_body_def)
  show ?thesis
  proof (cases "length (msg_body m) < 4 + unat n")
    case True
    with False n show ?thesis by (simp add: ParseStringArray_body)
  next
    case False': False
    then obtain r where "parse_strings (byteOrder m) (msg_body m) (4 + unat n) 4 [] = Some r"
      and r: "\<forall>names. r = Inr names \<longrightarrow> names_cost 5 names \<le> length (msg_body m) - 4"
      using parse_strings_total [of "4 + unat n" "msg_body m" 4 "byteOrder m" "[]"] False
      by auto
    with False False' n have "ParseStringArray m = Some r"
      by (simp add: ParseStringArray_body)
    with r len show ?thesis by fastforce
  qed
qed

lemma length_encode_names: "length (encode_names order buf names) \<le> length buf + names_cost 8 names"
proof (induction names arbitrary: buf)
  case (Cons n names)
  have "align (length buf) 4 \<le> length buf + 3"
    using align_less [of 4 "length buf"] by simp
  with Cons [of "pad4 buf @ PutUint32 order (of_nat (length n)) @ bytes_of_string n @ [0]"]
  show ?case by simp
qed simp

lemma names_cost_8: "names_cost 8 names \<le> 2 * names_cost 5 names"
  by (induction names) auto

lemma names_cost_mem: "s \<in> set names \<Longrightarrow> length s \<le> names_cost k names"
  by (induction names) auto

lemma names_fit_cost:
  assumes "2 * names_cost 5 names < 2 ^ 32"
  shows "names_fit order names"
proof -
  have "length (encode_names order [] names) < 2 ^ 32"
    using length_encode_names [of order "[]" names] names_cost_8 [of names] assms by simp
  moreover have "length s < 2 ^ 32" if "s \<in> set names" for s
    using names_cost_mem [OF that, of 5] assms by simp
  ultimately show ?thesis by (simp add: names_fit_def list_all_iff)
qed

section \<open>ReplaceBody\<close>

text \<open>
  A message whose header lies inside its bytes and that is within the size limit: what
  \<open>ReadMessage\<close> returns, apart from lengths that wrap modulo \<open>2 ^ 32\<close>.
\<close>

definition framed :: "message \<Rightarrow> bool" where
  "framed m \<longleftrightarrow>
     parsed m \<and> unat (HeaderLength m) \<le> length (Raw m) \<and> length (Raw m) \<le> MaxMessageSize"

lemma parsed_header_bounds:
  assumes "parsed m" and "length (Raw m) \<le> MaxMessageSize"
  obtains hfl where "u32_at (byteOrder m) (Raw m) 12 = Some hfl"
    and "HeaderLength m = padded_header_len hfl" and "16 + unat hfl \<le> length (Raw m)"
    and "16 + unat hfl \<le> unat (HeaderLength m)"
proof -
  obtain hfl where h: "u32_at (byteOrder m) (Raw m) 12 = Some hfl"
    "HeaderLength m = padded_header_len hfl" "16 + unat hfl \<le> length (Raw m)"
    using assms(1) by (auto simp: parsed_def)
  then have "unat (HeaderLength m) = align (16 + unat hfl) 8"
    using assms(2) by (simp add: unat_padded_header_len)
  with h that align_ge show ?thesis by metis
qed

lemma ReplaceBody_framed:
  assumes m: "framed m"
  shows "\<exists>out. ReplaceBody m body = Some out \<and> parsed out \<and> FDs out = [] \<and>
    byteOrder out = byteOrder m \<and> Type out = Type m \<and> Serial out = Serial m \<and>
    HeaderLength out = HeaderLength m \<and> BodyLength out = of_nat (length body) \<and>
    length (Raw out) = unat (HeaderLength m) + length body \<and>
    msg_body out = body"
proof -
  let ?o = "byteOrder m" and ?H = "unat (HeaderLength m)"
  from m have pm: "parsed m" and hl: "?H \<le> length (Raw m)"
    and mx: "length (Raw m) \<le> MaxMessageSize" by (auto simp: framed_def)
  obtain hfl where h: "u32_at ?o (Raw m) 12 = Some hfl" "HeaderLength m = padded_header_len hfl"
    "16 + unat hfl \<le> ?H"
    using parsed_header_bounds [OF pm mx] by metis
  define raw where "raw = take 4 (Raw m) @ PutUint32 ?o (of_nat (length body)) @
    drop 8 (take ?H (Raw m)) @ body"
  have len: "length raw = ?H + length body" using h hl by (simp add: raw_def)
  have put: "put_u32_at ?o (take ?H (Raw m) @ body) 4 (of_nat (length body)) = Some raw"
    using h hl by (simp add: put_u32_at_def raw_def min_def)
  have drp: "drop ?H raw = body" using h hl by (simp add: raw_def)
  have n0: "raw ! 0 = Raw m ! 0" and n1: "raw ! 1 = Raw m ! 1"
    using h hl by (simp_all add: raw_def nth_append)
  have u4: "u32_at ?o raw 4 = Some (of_nat (length body))"
    unfolding raw_def by (rule u32_at_append) (use h hl in simp)
  have hi: "u32_at ?o raw i = u32_at ?o (Raw m) i" if "8 \<le> i" "i + 4 \<le> 16" for i
  proof -
    have e: "drop i raw = drop i (take ?H (Raw m)) @ body"
      using that h hl by (simp add: raw_def)
    have "4 \<le> length (drop i (take ?H (Raw m)))" using that h hl by simp
    then have "take 4 (drop i raw) = take 4 (drop i (take ?H (Raw m)))" by (simp add: e)
    also have "\<dots> = take 4 (drop i (Raw m))"
      using that h hl by (simp add: drop_take min_def)
    finally have "take 4 (drop i raw) = take 4 (drop i (Raw m))" .
    then show ?thesis using that h hl len by (simp add: u32_at_def)
  qed
  have "order_of_endian (Raw m ! 0) = Some ?o" using pm unfolding parsed_def by metis
  then have o: "order_of_endian (raw ! 0) = Some ?o" and u8: "u32_at ?o raw 8 = Some (Serial m)"
    and l16: "16 \<le> length raw" and u12: "u32_at ?o raw 12 = Some hfl"
    using pm n0 hi [of 8] hi [of 12] h len by (simp_all add: parsed_def)
  obtain out where out: "ParseHeader raw = Some (Inr out)"
    and env: "same_envelope (base_message ?o raw (of_nat (length body)) (Serial m) hfl) out"
    using parse_fields_total [of "16 + unat hfl" raw ?o 16
        "base_message ?o raw (of_nat (length body)) (Serial m) hfl"] len h
    by (auto simp: ParseHeader_fields [OF l16 o u4 u8 u12])
  have "ReplaceBody m body = Some out"
    using put out hl by (simp add: ReplaceBody_def Let_def min_def)
  moreover have "byteOrder out = ?o"
    using env by (intro order_of_endian_byteOrder [OF o]) (simp add: same_envelope_def base_message_def)
  moreover have "Type m = raw ! 1" using pm n1 by (simp add: parsed_def)
  ultimately show ?thesis
    using ParseHeader_parsed [OF out] env len drp h
    by (simp add: same_envelope_def base_message_def msg_body_def)
qed

text \<open>On a message in the D-Bus grammar every header field is kept as well.\<close>

lemma ReplaceBody_dec_message:
  assumes "message_fits order fs"
  shows "ReplaceBody (dec_message order typ flags version serial fs old) body =
    Some (dec_message order typ flags version serial fs body)"
proof -
  let ?m = "dec_message order typ flags version serial fs old"
  let ?F = "enc_fields order [] fs"
  have H: "unat (HeaderLength ?m) = 16 + align (length ?F) 8"
    using assms align_add [of 8 16 "length ?F"]
    by (simp add: dec_message_envelope unat_padded_header_len message_fits_def)
  have tk: "take (16 + align (length ?F) 8) (enc_message order typ flags version serial fs old) =
    [endian_byte order, typ, flags, version] @ PutUint32 order (of_nat (length old)) @
    (PutUint32 order serial @ PutUint32 order (of_nat (length ?F)) @ pad_to 8 ?F)"
  proof -
    have app: "take n (xs @ ys) = xs" if "n = length xs" for n and xs ys :: "byte list"
      using that by simp
    show ?thesis
      unfolding enc_message_def Let_def append.assoc [symmetric]
      by (rule app) simp
  qed
  have "put_u32_at order (take (16 + align (length ?F) 8) (Raw ?m) @ body) 4 (of_nat (length body)) =
    Some (enc_message order typ flags version serial fs body)"
    unfolding dec_message_envelope tk
    by (simp add: put_u32_at_def enc_message_def Let_def)
  moreover have "16 + align (length ?F) 8 \<le> length (Raw ?m)"
    by (simp add: dec_message_envelope length_enc_message)
  ultimately show ?thesis
    using ParseHeader_enc_message [OF assms]
    by (simp add: ReplaceBody_def H min_def)
qed

lemma msg_body_dec_message:
  assumes "message_fits order fs"
  shows "msg_body (dec_message order type flags version serial fs body) = body"
proof -
  let ?e = "enc_message order type flags version serial fs body"
  obtain X where X: "?e = X @ body"
    unfolding enc_message_def Let_def append_assoc [symmetric] by blast
  have "unat (HeaderLength (dec_message order type flags version serial fs body)) =
    16 + align (length (enc_fields order [] fs)) 8"
    using assms align_add [of 8 16 "length (enc_fields order [] fs)"]
    by (simp add: dec_message_envelope unat_padded_header_len message_fits_def)
  also have "\<dots> = length X"
    using arg_cong [OF X, of length] by (simp add: length_enc_message)
  finally show ?thesis by (simp add: msg_body_def dec_message_envelope X)
qed

lemma msg_body_fields: "msg_body (m\<lparr>Destination := d\<rparr>) = msg_body m"
  by (simp add: msg_body_def)

lemma byteOrder_fields: "byteOrder (m\<lparr>Destination := d\<rparr>) = byteOrder m"
  by (simp add: byteOrder_def)

end
