(* ===== verification/Dbus_Conn.thy ===== *)
theory Dbus_Conn
  imports Dbus_Wire
begin

text \<open>
  File descriptors and socket writes: \<open>CloseFDs\<close>, \<open>CopyFDs\<close> and \<open>WriteMessage\<close> of
  \<open>container/dbus/wire.go\<close>.

  The kernel is explicit. \<open>closedFDs\<close> is the log of the descriptors passed to
  \<open>close\<close>; \<open>dupScript\<close> holds the results of the coming \<open>dup\<close> calls. A connection
  has the log of what the socket accepted, each entry with the descriptors attached to it,
  and a script with the outcome of its coming writes: \<open>Accept n\<close> lets one \<open>sendmsg\<close> take
  \<open>n\<close> bytes, \<open>Fail n\<close> is an error (after \<open>n\<close> bytes for \<open>Write\<close>, which loops), an empty
  script accepts everything. After \<open>Close\<close> every write fails.
\<close>

record os =
  closedFDs :: "int list"
  dupScript :: "int option list"

definition syscall_Close :: "int \<Rightarrow> os \<Rightarrow> os" where
  "syscall_Close fd w = w\<lparr>closedFDs := closedFDs w @ [fd]\<rparr>"

definition syscall_Dup :: "int \<Rightarrow> os \<Rightarrow> os \<times> int option" where
  "syscall_Dup fd w =
     (case dupScript w of [] \<Rightarrow> (w, None) | r # rs \<Rightarrow> (w\<lparr>dupScript := rs\<rparr>, r))"

section \<open>CloseFDs and CopyFDs\<close>

fun close_loop :: "int list \<Rightarrow> os \<Rightarrow> os" where
  "close_loop [] w = w"
| "close_loop (fd # fds) w = close_loop fds (if 0 \<le> fd then syscall_Close fd w else w)"

definition CloseFDs :: "message \<Rightarrow> os \<Rightarrow> message \<times> os" where
  "CloseFDs m w = (m\<lparr>FDs := []\<rparr>, close_loop (FDs m) w)"

text \<open>The clean-up loop of \<open>CopyFDs\<close>, which closes what was duplicated so far.\<close>

fun close_dups :: "int list \<Rightarrow> os \<Rightarrow> os" where
  "close_dups [] w = w"
| "close_dups (d # ds) w = close_dups ds (syscall_Close d w)"

fun copy_loop :: "int list \<Rightarrow> int list \<Rightarrow> os \<Rightarrow> os \<times> int list option" where
  "copy_loop [] dups w = (w, Some dups)"
| "copy_loop (fd # fds) dups w =
     (case syscall_Dup fd w of
        (w', None) \<Rightarrow> (close_dups dups w', None)
      | (w', Some d) \<Rightarrow> copy_loop fds (dups @ [d]) w')"

definition CopyFDs :: "int list \<Rightarrow> os \<Rightarrow> os \<times> int list option" where
  "CopyFDs fds w = (if length fds = 0 then (w, Some []) else copy_loop fds [] w)"

section \<open>Connections and WriteMessage\<close>

datatype wresult = Accept nat | Fail nat

record conn =
  outbox :: "(byte list \<times> int list) list"
  wscript :: "wresult list"
  isOpen :: bool

definition push :: "byte list \<Rightarrow> int list \<Rightarrow> conn \<Rightarrow> conn" where
  "push bs fds c = c\<lparr>outbox := outbox c @ [(bs, fds)]\<rparr>"

text \<open>\<open>conn.Write\<close>: writes everything or fails.\<close>

definition conn_Write :: "byte list \<Rightarrow> conn \<Rightarrow> conn \<times> io_error option" where
  "conn_Write bs c =
     (if \<not> isOpen c then (c, Some ErrClosed)
      else case wscript c of
        [] \<Rightarrow> (push bs [] c, None)
      | Accept _ # ws \<Rightarrow> (push bs [] (c\<lparr>wscript := ws\<rparr>), None)
      | Fail n # ws \<Rightarrow> (push (take n bs) [] (c\<lparr>wscript := ws\<rparr>), Some ErrBroken))"

text \<open>\<open>conn.WriteMsgUnix\<close>: one \<open>sendmsg\<close>, which may take fewer bytes.\<close>

definition conn_WriteMsgUnix ::
  "byte list \<Rightarrow> int list \<Rightarrow> conn \<Rightarrow> conn \<times> nat \<times> io_error option" where
  "conn_WriteMsgUnix bs fds c =
     (if \<not> isOpen c then (c, 0, Some ErrClosed)
      else case wscript c of
        [] \<Rightarrow> (push bs fds c, length bs, None)
      | Accept n # ws \<Rightarrow> (push (take n bs) fds (c\<lparr>wscript := ws\<rparr>), min n (length bs), None)
      | Fail _ # ws \<Rightarrow> (c\<lparr>wscript := ws\<rparr>, 0, Some ErrBroken))"

definition WriteMessage :: "conn \<Rightarrow> message \<Rightarrow> conn \<times> io_error option" where
  "WriteMessage conn msg =
     (if 0 < length (FDs msg) then
        (case conn_WriteMsgUnix (Raw msg) (FDs msg) conn of
           (conn, n, Some err) \<Rightarrow> (conn, Some err)
         | (conn, n, None) \<Rightarrow>
             if n < length (Raw msg) then conn_Write (drop n (Raw msg)) conn
             else (conn, None))
      else conn_Write (Raw msg) conn)"

definition conn_Close :: "conn \<Rightarrow> conn" where
  "conn_Close c = c\<lparr>isOpen := False\<rparr>"

definition conn_bytes :: "conn \<Rightarrow> byte list" where
  "conn_bytes c = concat (map fst (outbox c))"

definition conn_fds :: "conn \<Rightarrow> int list" where
  "conn_fds c = concat (map snd (outbox c))"

section \<open>Descriptors: what is closed\<close>

lemma closedFDs_Close [simp]: "closedFDs (syscall_Close fd w) = closedFDs w @ [fd]"
  by (simp add: syscall_Close_def)

lemma closedFDs_close_loop [simp, effects]:
  "closedFDs (close_loop fds w) = closedFDs w @ filter ((\<le>) 0) fds"
  by (induction fds arbitrary: w) auto

lemma dupScript_close_loop [simp, effects]: "dupScript (close_loop fds w) = dupScript w"
  by (induction fds arbitrary: w) (auto simp: syscall_Close_def)

lemma closedFDs_close_dups [simp]: "closedFDs (close_dups ds w) = closedFDs w @ ds"
  by (induction ds arbitrary: w) auto

lemma dupScript_close_dups [simp]: "dupScript (close_dups ds w) = dupScript w"
  by (induction ds arbitrary: w) (auto simp: syscall_Close_def)

lemma CloseFDs_effect [effects]:
  "CloseFDs m w = (m', w') \<Longrightarrow>
   m' = m\<lparr>FDs := []\<rparr> \<and> closedFDs w' = closedFDs w @ filter ((\<le>) 0) (FDs m) \<and> dupScript w' = dupScript w"
  by (auto simp: CloseFDs_def)

text \<open>
  \<open>CopyFDs\<close> either returns one fresh descriptor per argument and closes nothing, or fails
  after closing exactly the descriptors it had obtained.
\<close>

lemma copy_loop_effect:
  "copy_loop fds dups w = (w', r) \<Longrightarrow>
   \<exists>new. (r = Some (dups @ new) \<and> closedFDs w' = closedFDs w \<and> length new = length fds \<and>
            dupScript w = map Some new @ dupScript w') \<or>
     (r = None \<and> closedFDs w' = closedFDs w @ dups @ new \<and> length new < length fds \<and>
       (dupScript w = map Some new @ None # dupScript w' \<or>
        dupScript w = map Some new \<and> dupScript w' = []))"
proof (induction fds arbitrary: dups w)
  case Nil
  then show ?case by auto
next
  case (Cons fd fds)
  show ?case
  proof (cases "dupScript w")
    case Nil
    with Cons.prems show ?thesis
      by (auto simp: syscall_Dup_def dupScript_close_dups intro!: exI [of _ "[]"])
  next
    case dw: (Cons d ds)
    show ?thesis
    proof (cases d)
      case None
      with Cons.prems dw show ?thesis
        by (auto simp: syscall_Dup_def dupScript_close_dups intro!: exI [of _ "[]"])
    next
      case (Some x)
      have "copy_loop fds (dups @ [x]) (w\<lparr>dupScript := ds\<rparr>) = (w', r)"
        using Cons.prems dw Some by (simp add: syscall_Dup_def)
      from Cons.IH [OF this] obtain new where
        "r = Some (dups @ x # new) \<and> closedFDs w' = closedFDs w \<and> length new = length fds \<and>
           ds = map Some new @ dupScript w' \<or>
         r = None \<and> closedFDs w' = closedFDs w @ dups @ x # new \<and> length new < length fds \<and>
           (ds = map Some new @ None # dupScript w' \<or> ds = map Some new \<and> dupScript w' = [])"
        by auto
      with dw Some show ?thesis by (intro exI [of _ "x # new"]) auto
    qed
  qed
qed

lemma CopyFDs_effect:
  assumes "CopyFDs fds w = (w', r)"
  shows "\<exists>new. (r = Some new \<and> closedFDs w' = closedFDs w \<and> length new = length fds \<and>
            dupScript w = map Some new @ dupScript w') \<or>
     (r = None \<and> closedFDs w' = closedFDs w @ new \<and> length new < length fds \<and>
       (dupScript w = map Some new @ None # dupScript w' \<or>
        dupScript w = map Some new \<and> dupScript w' = []))"
proof (cases "fds = []")
  case True
  with assms show ?thesis by (auto simp: CopyFDs_def intro!: exI [of _ "[]"])
next
  case False
  then have "copy_loop fds [] w = (w', r)" using assms by (simp add: CopyFDs_def)
  from copy_loop_effect [OF this] show ?thesis by simp
qed

section \<open>The contract of a message sink\<close>

text \<open>
  What the session relies on when it writes a message to a connection: a successful send
  appends the message's bytes and descriptors, a failed one at most a prefix of the bytes,
  with the descriptors at most once.
\<close>

locale message_sink =
  fixes send :: "'c \<Rightarrow> message \<Rightarrow> 'c \<times> io_error option"
    and bytes :: "'c \<Rightarrow> byte list"
    and fds :: "'c \<Rightarrow> int list"
  assumes send_ok: "send c m = (c', None) \<Longrightarrow> bytes c' = bytes c @ Raw m \<and> fds c' = fds c @ FDs m"
    and send_fail: "send c m = (c', Some e) \<Longrightarrow>
      (\<exists>p. prefix p (Raw m) \<and> bytes c' = bytes c @ p) \<and> (fds c' = fds c \<or> fds c' = fds c @ FDs m)"

text \<open>Writing a list of messages, stopping at the first error.\<close>

fun send_all ::
  "('c \<Rightarrow> message \<Rightarrow> 'c \<times> io_error option) \<Rightarrow> 'c \<Rightarrow> message list \<Rightarrow> 'c \<times> io_error option" where
  "send_all send c [] = (c, None)"
| "send_all send c (m # ms) =
     (case send c m of (c', None) \<Rightarrow> send_all send c' ms | (c', Some e) \<Rightarrow> (c', Some e))"

context message_sink
begin

lemma send_extends: "send c m = (c', r) \<Longrightarrow> prefix (bytes c) (bytes c')"
  using send_ok send_fail by (cases r) (fastforce simp: prefix_def)+

lemma send_all_ok:
  "send_all send c ms = (c', None) \<Longrightarrow>
   bytes c' = bytes c @ concat (map Raw ms) \<and> fds c' = fds c @ concat (map FDs ms)"
proof (induction ms arbitrary: c)
  case (Cons m ms)
  then obtain c1 where "send c m = (c1, None)" "send_all send c1 ms = (c', None)"
    by (auto split: prod.splits option.splits)
  with Cons.IH [of c1] send_ok [of c m c1] show ?case by simp
qed simp

text \<open>A failing sequence still leaves a prefix of the intended stream: no interleaving.\<close>

lemma send_all_prefix:
  "send_all send c ms = (c', r) \<Longrightarrow> \<exists>p. prefix p (concat (map Raw ms)) \<and> bytes c' = bytes c @ p"
proof (induction ms arbitrary: c)
  case (Cons m ms)
  obtain c1 r1 where w: "send c m = (c1, r1)" by fastforce
  show ?case
  proof (cases r1)
    case None
    with Cons.prems w have "send_all send c1 ms = (c', r)" by simp
    with Cons.IH obtain p where "prefix p (concat (map Raw ms))" "bytes c' = bytes c1 @ p" by blast
    with w None send_ok [of c m c1] show ?thesis by (auto intro!: exI [of _ "Raw m @ p"])
  next
    case (Some e)
    with Cons.prems w have "c' = c1" by simp
    with send_fail w Some show ?thesis by (fastforce simp: prefix_def)
  qed
qed simp

end

lemma conn_bytes_push [simp]: "conn_bytes (push bs fds c) = conn_bytes c @ bs"
  by (simp add: conn_bytes_def push_def)

lemma conn_fds_push [simp]: "conn_fds (push bs fds c) = conn_fds c @ fds"
  by (simp add: conn_fds_def push_def)

lemma isOpen_push [simp]: "isOpen (push bs fds c) = isOpen c"
  by (simp add: push_def)

lemma conn_log_script [simp]:
  "conn_bytes (c\<lparr>wscript := ws\<rparr>) = conn_bytes c" "conn_fds (c\<lparr>wscript := ws\<rparr>) = conn_fds c"
  by (simp_all add: conn_bytes_def conn_fds_def)

lemma conn_Write_cases:
  "conn_Write bs c = (c', r) \<Longrightarrow>
   conn_fds c' = conn_fds c \<and>
   (case r of None \<Rightarrow> conn_bytes c' = conn_bytes c @ bs
    | Some e \<Rightarrow> \<exists>p. prefix p bs \<and> conn_bytes c' = conn_bytes c @ p)"
  by (auto simp: conn_Write_def take_is_prefix split: if_splits list.splits wresult.splits)

lemma conn_WriteMsgUnix_cases:
  "conn_WriteMsgUnix bs fds c = (c', n, r) \<Longrightarrow>
   (case r of None \<Rightarrow> conn_bytes c' = conn_bytes c @ take n bs \<and> conn_fds c' = conn_fds c @ fds
    | Some e \<Rightarrow> conn_bytes c' = conn_bytes c \<and> conn_fds c' = conn_fds c)"
  by (auto simp: conn_WriteMsgUnix_def min_def split: if_splits list.splits wresult.splits)

interpretation sock: message_sink WriteMessage conn_bytes conn_fds
proof
  fix c m c'
  assume w: "WriteMessage c m = (c', None)"
  show "conn_bytes c' = conn_bytes c @ Raw m \<and> conn_fds c' = conn_fds c @ FDs m"
  proof (cases "FDs m = []")
    case True
    with w conn_Write_cases [of "Raw m" c c' None] show ?thesis by (simp add: WriteMessage_def)
  next
    case False
    then obtain c1 n where 1: "conn_WriteMsgUnix (Raw m) (FDs m) c = (c1, n, None)"
      and 2: "if n < length (Raw m) then conn_Write (drop n (Raw m)) c1 = (c', None) else c' = c1"
      using w by (auto simp: WriteMessage_def split: prod.splits option.splits if_splits)
    show ?thesis
      using conn_WriteMsgUnix_cases [OF 1] conn_Write_cases [of "drop n (Raw m)" c1 c' None] 2
      by (auto split: if_splits)
  qed
next
  fix c m c' e
  assume w: "WriteMessage c m = (c', Some e)"
  show "(\<exists>p. prefix p (Raw m) \<and> conn_bytes c' = conn_bytes c @ p) \<and>
    (conn_fds c' = conn_fds c \<or> conn_fds c' = conn_fds c @ FDs m)"
  proof (cases "FDs m = []")
    case True
    with w conn_Write_cases [of "Raw m" c c' "Some e"] show ?thesis by (simp add: WriteMessage_def)
  next
    case False
    then obtain c1 n r where 1: "conn_WriteMsgUnix (Raw m) (FDs m) c = (c1, n, r)"
      by (metis prod_cases3)
    show ?thesis
    proof (cases r)
      case None
      with 1 w False have 2: "conn_Write (drop n (Raw m)) c1 = (c', Some e)"
        by (auto simp: WriteMessage_def split: if_splits)
      obtain p where "prefix p (drop n (Raw m))" "conn_bytes c' = conn_bytes c1 @ p"
        using conn_Write_cases [OF 2] by auto
      then have "prefix (take n (Raw m) @ p) (Raw m)"
        by (metis append_take_drop_id same_prefix_prefix)
      with \<open>conn_bytes c' = _\<close> conn_WriteMsgUnix_cases [OF 1] conn_Write_cases [OF 2] None
      show ?thesis by (auto intro!: exI [of _ "take n (Raw m) @ p"])
    next
      case (Some e')
      with 1 w False have "c' = c1" by (simp add: WriteMessage_def)
      with conn_WriteMsgUnix_cases [OF 1] Some show ?thesis by (auto intro!: exI [of _ "[]"])
    qed
  qed
qed

text \<open>A connection that is open and whose writes all succeed.\<close>

definition healthy :: "conn \<Rightarrow> bool" where
  "healthy c \<longleftrightarrow> isOpen c \<and> wscript c = []"

lemma WriteMessage_healthy:
  "healthy c \<Longrightarrow> \<exists>c'. WriteMessage c m = (c', None) \<and> healthy c' \<and>
     outbox c' = outbox c @ [(Raw m, FDs m)]"
  by (auto simp: healthy_def WriteMessage_def conn_Write_def conn_WriteMsgUnix_def push_def)

lemma WriteMessage_closed:
  "\<not> isOpen c \<Longrightarrow> WriteMessage c m = (c, Some ErrClosed)"
  by (simp add: WriteMessage_def conn_Write_def conn_WriteMsgUnix_def)

end
