(* ===== verification/Dbus_Reader.thy ===== *)
theory Dbus_Reader
  imports Dbus_Conn
begin

text \<open>
  The message reader of \<open>container/dbus/wire.go\<close>: \<open>MessageReader\<close>, \<open>ReadMessage\<close> and
  \<open>Close\<close>.

  The socket is the list of the results of the coming \<open>recvmsg\<close> calls; when the list is
  used up the peer has closed the connection and a read fails with \<open>ErrEOF\<close>. Each result
  has the payload bytes, the number of control bytes, what
  \<open>syscall.ParseSocketControlMessage\<close> makes of them (\<open>None\<close> if it fails, else one
  entry per control message, which is \<open>None\<close> where \<open>ParseUnixRights\<close> fails), and the
  error. Both loops of \<open>ReadMessage\<close> consume one result per turn, so they end.
\<close>

record recv =
  rdata :: "byte list"
  roobn :: nat
  rscms :: "int list option list option"
  rerr :: "io_error option"

record reader =
  rconn :: "recv list"
  rbuf :: "byte list"
  pendingFDs :: "int list"

definition NewMessageReader :: "recv list \<Rightarrow> reader" where
  "NewMessageReader conn = \<lparr>rconn = conn, rbuf = [], pendingFDs = []\<rparr>"

fun scm_loop :: "int list option list \<Rightarrow> int list \<Rightarrow> int list" where
  "scm_loop [] fds = fds"
| "scm_loop (scm # scms) fds =
     scm_loop scms (case scm of None \<Rightarrow> fds | Some scmFDs \<Rightarrow> fds @ scmFDs)"

definition parseFDs :: "int list option list option \<Rightarrow> int list option" where
  "parseFDs oob = (case oob of None \<Rightarrow> None | Some scms \<Rightarrow> Some (scm_loop scms []))"

definition readMore :: "reader \<Rightarrow> reader \<times> io_error option" where
  "readMore r =
     (case rconn r of
        [] \<Rightarrow> (r, Some ErrEOF)
      | ev # rest \<Rightarrow>
          let r = r\<lparr>rconn := rest\<rparr>;
              r = (if 0 < roobn ev then
                     (case parseFDs (rscms ev) of
                        None \<Rightarrow> r
                      | Some fds \<Rightarrow>
                          if 0 < length fds then r\<lparr>pendingFDs := pendingFDs r @ fds\<rparr> else r)
                   else r)
          in if 0 < length (rdata ev) then (r\<lparr>rbuf := rbuf r @ rdata ev\<rparr>, None)
             else (case rerr ev of
                 Some err \<Rightarrow> (r, Some err)
               | None \<Rightarrow> if 0 < roobn ev then (r, None) else (r, Some ErrEmptyRead)))"

lemma readMore_consumes:
  "readMore r = (r', None) \<Longrightarrow> length (rconn r') < length (rconn r)"
  by (auto simp: readMore_def Let_def split: list.splits if_splits option.splits)

text \<open>\<open>for len(r.buf) < n\<close> and \<open>for len(r.pendingFDs) < n\<close>.\<close>

function fill_buf :: "nat \<Rightarrow> reader \<Rightarrow> reader \<times> io_error option" where
  "fill_buf n r =
     (if length (rbuf r) < n then
        (case readMore r of
           (r', Some err) \<Rightarrow> (r', Some err)
         | (r', None) \<Rightarrow> fill_buf n r')
      else (r, None))"
  by pat_completeness auto
termination
  by (relation "measure (\<lambda>(n, r). length (rconn r))") (auto dest: readMore_consumes [OF sym])

function fill_fds :: "nat \<Rightarrow> reader \<Rightarrow> reader \<times> io_error option" where
  "fill_fds n r =
     (if length (pendingFDs r) < n then
        (case readMore r of
           (r', Some err) \<Rightarrow> (r', Some err)
         | (r', None) \<Rightarrow> fill_fds n r')
      else (r, None))"
  by pat_completeness auto
termination
  by (relation "measure (\<lambda>(n, r). length (rconn r))") (auto dest: readMore_consumes [OF sym])

declare fill_buf.simps [simp del] fill_fds.simps [simp del]

text \<open>The last part of \<open>ReadMessage\<close>: descriptors can arrive after the message bytes.\<close>

definition attach_fds :: "reader \<Rightarrow> message \<Rightarrow> (reader \<times> (wire_error + message)) option" where
  "attach_fds r msg =
     (if 0 < UnixFDs msg then
        (case fill_fds (unat (UnixFDs msg)) r of
           (r, Some err) \<Rightarrow> Some (r, Inl (ErrIO err))
         | (r, None) \<Rightarrow> do {
             fds \<leftarrow> go_slice (pendingFDs r) 0 (unat (UnixFDs msg));
             rest \<leftarrow> go_slice (pendingFDs r) (unat (UnixFDs msg)) (length (pendingFDs r));
             Some (r\<lparr>pendingFDs := rest\<rparr>, Inr (msg\<lparr>FDs := fds\<rparr>))
           })
      else Some (r, Inr msg))"

definition ReadMessage :: "reader \<Rightarrow> (reader \<times> (wire_error + message)) option" where
  "ReadMessage r0 =
     (case fill_buf 16 r0 of
        (r, Some err) \<Rightarrow> Some (r, Inl (ErrIO err))
      | (r, None) \<Rightarrow> do {
          endian \<leftarrow> go_index (rbuf r) 0;
          (case order_of_endian endian of
             None \<Rightarrow> Some (r, Inl (ErrDbusEndianness endian))
           | Some order \<Rightarrow> do {
               bodyLen \<leftarrow> u32_at order (rbuf r) 4;
               headerFieldsLen \<leftarrow> u32_at order (rbuf r) 12;
               let totalLen = padded_header_len headerFieldsLen + bodyLen;
               if MaxMessageSize < unat totalLen then Some (r, Inl (ErrSizeLimit totalLen))
               else
                 (case fill_buf (unat totalLen) r of
                    (r, Some err) \<Rightarrow> Some (r, Inl (ErrIO err))
                  | (r, None) \<Rightarrow> do {
                      raw \<leftarrow> go_slice (rbuf r) 0 (unat totalLen);
                      rest \<leftarrow> go_slice (rbuf r) (unat totalLen) (length (rbuf r));
                      let r = r\<lparr>rbuf := rest\<rparr>;
                      parsed \<leftarrow> ParseHeader raw;
                      (case parsed of
                         Inl err \<Rightarrow> Some (r, Inl err)
                       | Inr msg \<Rightarrow> attach_fds r msg)
                    })
             })
        })"

definition reader_Close :: "reader \<Rightarrow> os \<Rightarrow> reader \<times> os" where
  "reader_Close r w = (r\<lparr>pendingFDs := []\<rparr>, close_dups (pendingFDs r) w)"

section \<open>The stream behind a reader\<close>

text \<open>
  The abstraction: every byte, and every descriptor, that the reader holds or that will
  still arrive. No operation of the reader loses, repeats or reorders either.
\<close>

definition recv_fds :: "recv \<Rightarrow> int list" where
  "recv_fds ev = (if 0 < roobn ev then case parseFDs (rscms ev) of None \<Rightarrow> [] | Some fds \<Rightarrow> fds else [])"

definition stream_bytes :: "reader \<Rightarrow> byte list" where
  "stream_bytes r = rbuf r @ concat (map rdata (rconn r))"

definition stream_fds :: "reader \<Rightarrow> int list" where
  "stream_fds r = pendingFDs r @ concat (map recv_fds (rconn r))"

text \<open>A stream whose reads all bring payload bytes.\<close>

definition live :: "reader \<Rightarrow> bool" where
  "live r \<longleftrightarrow> list_all (\<lambda>ev. rdata ev \<noteq> []) (rconn r)"

lemma readMore_stream:
  "readMore r = (r', e) \<Longrightarrow> stream_bytes r' = stream_bytes r \<and> stream_fds r' = stream_fds r"
  by (auto simp: readMore_def stream_bytes_def stream_fds_def recv_fds_def Let_def
      split: list.splits if_splits option.splits)

lemma readMore_live:
  "readMore r = (r', e) \<Longrightarrow> live r \<Longrightarrow> live r' \<and> (rconn r \<noteq> [] \<longrightarrow> e = None)"
  by (auto simp: readMore_def live_def Let_def split: list.splits if_splits option.splits)

lemma fill_buf_stream:
  "fill_buf n r = (r', e) \<Longrightarrow>
   stream_bytes r' = stream_bytes r \<and> stream_fds r' = stream_fds r \<and>
   (e = None \<longrightarrow> n \<le> length (rbuf r')) \<and> (live r \<longrightarrow> live r')"
proof (induction n r rule: fill_buf.induct)
  case (1 n r)
  obtain r1 e1 where m: "readMore r = (r1, e1)" by fastforce
  show ?case
    using "1.prems" "1.IH" [OF _ m [symmetric]] readMore_stream [OF m] readMore_live [OF m] m
    by (subst (asm) fill_buf.simps) (auto split: if_splits option.splits)
qed

lemma fill_fds_stream:
  "fill_fds n r = (r', e) \<Longrightarrow>
   stream_bytes r' = stream_bytes r \<and> stream_fds r' = stream_fds r \<and>
   (e = None \<longrightarrow> n \<le> length (pendingFDs r')) \<and> (live r \<longrightarrow> live r')"
proof (induction n r rule: fill_fds.induct)
  case (1 n r)
  obtain r1 e1 where m: "readMore r = (r1, e1)" by fastforce
  show ?case
    using "1.prems" "1.IH" [OF _ m [symmetric]] readMore_stream [OF m] readMore_live [OF m] m
    by (subst (asm) fill_fds.simps) (auto split: if_splits option.splits)
qed

text \<open>Liveness: if enough is still to come, the loops succeed.\<close>

lemma fill_buf_live:
  "live r \<Longrightarrow> n \<le> length (stream_bytes r) \<Longrightarrow> \<exists>r'. fill_buf n r = (r', None)"
proof (induction n r rule: fill_buf.induct)
  case (1 n r)
  obtain r1 e1 where m: "readMore r = (r1, e1)" by fastforce
  show ?case
  proof (cases "length (rbuf r) < n")
    case True
    then have "rconn r \<noteq> []" using "1.prems" by (auto simp: stream_bytes_def)
    then have "e1 = None" "live r1" using readMore_live [OF m "1.prems"(1)] by auto
    with True "1.IH" [OF True m [symmetric]] "1.prems" readMore_stream [OF m] m show ?thesis
      by (subst fill_buf.simps) auto
  next
    case False
    then show ?thesis by (subst fill_buf.simps) auto
  qed
qed

lemma fill_fds_live:
  "live r \<Longrightarrow> n \<le> length (stream_fds r) \<Longrightarrow> \<exists>r'. fill_fds n r = (r', None)"
proof (induction n r rule: fill_fds.induct)
  case (1 n r)
  obtain r1 e1 where m: "readMore r = (r1, e1)" by fastforce
  show ?case
  proof (cases "length (pendingFDs r) < n")
    case True
    then have "rconn r \<noteq> []" using "1.prems" by (auto simp: stream_fds_def)
    then have "e1 = None" "live r1" using readMore_live [OF m "1.prems"(1)] by auto
    with True "1.IH" [OF True m [symmetric]] "1.prems" readMore_stream [OF m] m show ?thesis
      by (subst fill_fds.simps) auto
  next
    case False
    then show ?thesis by (subst fill_fds.simps) auto
  qed
qed

lemma attach_fds_total:
  "\<exists>r' x. attach_fds r m = Some (r', x) \<and> stream_bytes r' = stream_bytes r \<and>
    (live r \<longrightarrow> live r') \<and>
    (case x of Inl e \<Rightarrow> stream_fds r' = stream_fds r
     | Inr m' \<Rightarrow> (\<exists>fds. m' = m\<lparr>FDs := fds\<rparr> \<and> length fds = unat (UnixFDs m) \<and>
         stream_fds r = fds @ stream_fds r') \<or> UnixFDs m = 0 \<and> m' = m \<and> r' = r)"
proof (cases "UnixFDs m = 0")
  case True
  then show ?thesis by (simp add: attach_fds_def)
next
  case False
  let ?n = "unat (UnixFDs m)"
  obtain r1 e where f: "fill_fds ?n r = (r1, e)" by fastforce
  have s: "stream_bytes r1 = stream_bytes r" "stream_fds r1 = stream_fds r"
    "e = None \<longrightarrow> ?n \<le> length (pendingFDs r1)" "live r \<longrightarrow> live r1"
    using fill_fds_stream [OF f] by auto
  show ?thesis
  proof (cases e)
    case None
    then have "stream_fds r = take ?n (pendingFDs r1) @ stream_fds (r1\<lparr>pendingFDs := drop ?n (pendingFDs r1)\<rparr>)"
      using s by (simp add: stream_fds_def flip: append_assoc)
    with None s False f show ?thesis
      by (auto simp: attach_fds_def word_gt_0 stream_bytes_def live_def
          intro!: exI [of _ "take ?n (pendingFDs r1)"])
  next
    case (Some err)
    with s f False show ?thesis by (simp add: attach_fds_def word_gt_0)
  qed
qed

section \<open>Framing\<close>

text \<open>The number of bytes the first message of a stream claims, as \<open>ReadMessage\<close> computes it.\<close>

definition frame_len :: "byte list \<Rightarrow> nat option" where
  "frame_len s =
     (if length s < 16 then None
      else do {
        order \<leftarrow> order_of_endian (s ! 0);
        bodyLen \<leftarrow> u32_at order s 4;
        headerFieldsLen \<leftarrow> u32_at order s 12;
        Some (unat (padded_header_len headerFieldsLen + bodyLen))
      })"

lemma frame_len_prefix:
  assumes "16 \<le> length s"
  shows "frame_len (s @ t) = frame_len s"
proof -
  have "u32_at order (s @ t) i = u32_at order s i" if "i + 4 \<le> 16" for order i
    by (rule u32_at_cong) (use that assms in auto)
  moreover have "(s @ t) ! 0 = s ! 0" using assms by (cases s) auto
  ultimately show ?thesis using assms by (simp add: frame_len_def)
qed

text \<open>\<open>ReadMessage\<close> once the fixed header is there.\<close>

definition read_body :: "nat \<Rightarrow> reader \<Rightarrow> (reader \<times> (wire_error + message)) option" where
  "read_body n r =
     (case fill_buf n r of
        (r, Some err) \<Rightarrow> Some (r, Inl (ErrIO err))
      | (r, None) \<Rightarrow>
          (case ParseHeader (take n (rbuf r)) of
             None \<Rightarrow> None
           | Some (Inl err) \<Rightarrow> Some (r\<lparr>rbuf := drop n (rbuf r)\<rparr>, Inl err)
           | Some (Inr msg) \<Rightarrow> attach_fds (r\<lparr>rbuf := drop n (rbuf r)\<rparr>) msg))"

lemma ReadMessage_unfold:
  assumes "fill_buf 16 r0 = (r, None)"
  shows "ReadMessage r0 =
    (case order_of_endian (rbuf r ! 0) of
       None \<Rightarrow> Some (r, Inl (ErrDbusEndianness (rbuf r ! 0)))
     | Some order \<Rightarrow>
         (case frame_len (rbuf r) of
            None \<Rightarrow> None
          | Some n \<Rightarrow> if MaxMessageSize < n then Some (r, Inl (ErrSizeLimit (of_nat n)))
              else read_body n r))"
proof -
  have l: "16 \<le> length (rbuf r)" using fill_buf_stream [OF assms] by simp
  show ?thesis
  proof (cases "order_of_endian (rbuf r ! 0)")
    case None
    then show ?thesis using assms l by (simp add: ReadMessage_def first_byte)
  next
    case (Some order)
    obtain b h where u: "u32_at order (rbuf r) 4 = Some b" "u32_at order (rbuf r) 12 = Some h"
      using l u32_at_Some [of 4 "rbuf r"] u32_at_Some [of 12 "rbuf r"] by fastforce
    define n where "n = unat (padded_header_len h + b)"
    have fl: "frame_len (rbuf r) = Some n"
      using l Some u by (simp add: frame_len_def n_def)
    obtain r1 e1 where f: "fill_buf n r = (r1, e1)" by fastforce
    have "e1 = None \<longrightarrow> n \<le> length (rbuf r1)" using fill_buf_stream [OF f] by auto
    with f show ?thesis
      using assms l Some u
      by (auto simp: ReadMessage_def first_byte fl read_body_def n_def [symmetric]
          split: option.splits sum.splits)
        (simp_all add: n_def)
  qed
qed

lemma read_body_total:
  "\<exists>r' x. read_body n r = Some (r', x) \<and>
    (case x of
       Inl e \<Rightarrow> stream_fds r' = stream_fds r \<and> suffix (stream_bytes r') (stream_bytes r)
     | Inr m \<Rightarrow> length (Raw m) = n \<and> parsed m \<and> length (FDs m) = unat (UnixFDs m) \<and>
         stream_bytes r = Raw m @ stream_bytes r' \<and> stream_fds r = FDs m @ stream_fds r')"
proof -
  obtain r1 e1 where f: "fill_buf n r = (r1, e1)" by fastforce
  note s = fill_buf_stream [OF f]
  show ?thesis
  proof (cases e1)
    case (Some err)
    with s f show ?thesis by (simp add: read_body_def)
  next
    case None
    let ?r2 = "r1\<lparr>rbuf := drop n (rbuf r1)\<rparr>"
    have n: "n \<le> length (rbuf r1)" using s None by simp
    have sb: "stream_bytes r = take n (rbuf r1) @ stream_bytes ?r2" and sf: "stream_fds ?r2 = stream_fds r"
      using s n by (auto simp: stream_bytes_def stream_fds_def simp flip: append_assoc)
    obtain p where p: "ParseHeader (take n (rbuf r1)) = Some p" using ParseHeader_total by blast
    show ?thesis
    proof (cases p)
      case (Inl err)
      with f None p sb sf show ?thesis by (simp add: read_body_def suffix_def)
    next
      case (Inr m)
      have pm: "parsed m" "Raw m = take n (rbuf r1)" "FDs m = []"
        using ParseHeader_parsed p Inr by auto
      obtain r' x where a: "attach_fds ?r2 m = Some (r', x)" "stream_bytes r' = stream_bytes ?r2"
        and c: "case x of Inl e \<Rightarrow> stream_fds r' = stream_fds ?r2
          | Inr m' \<Rightarrow> (\<exists>fds. m' = m\<lparr>FDs := fds\<rparr> \<and> length fds = unat (UnixFDs m) \<and>
              stream_fds ?r2 = fds @ stream_fds r') \<or> UnixFDs m = 0 \<and> m' = m \<and> r' = ?r2"
        using attach_fds_total [of ?r2 m] by blast
      have "read_body n r = Some (r', x)" using f None p Inr a by (simp add: read_body_def)
      then show ?thesis
        using c a sb sf pm n by (fastforce simp: suffix_def split: sum.splits)
    qed
  qed
qed

lemma attach_fds_live:
  assumes "live r" and "unat (UnixFDs m) \<le> length (stream_fds r)" and "FDs m = []"
  shows "\<exists>r'. attach_fds r m = Some (r', Inr (m\<lparr>FDs := take (unat (UnixFDs m)) (stream_fds r)\<rparr>)) \<and>
    live r' \<and> stream_bytes r' = stream_bytes r \<and>
    stream_fds r' = drop (unat (UnixFDs m)) (stream_fds r)"
proof -
  obtain r' x where a: "attach_fds r m = Some (r', x)" "stream_bytes r' = stream_bytes r" "live r'"
    and c: "case x of Inl e \<Rightarrow> stream_fds r' = stream_fds r
       | Inr m' \<Rightarrow> (\<exists>fds. m' = m\<lparr>FDs := fds\<rparr> \<and> length fds = unat (UnixFDs m) \<and>
           stream_fds r = fds @ stream_fds r') \<or> UnixFDs m = 0 \<and> m' = m \<and> r' = r"
    using attach_fds_total [of r m] assms(1) by blast
  obtain r1 where "fill_fds (unat (UnixFDs m)) r = (r1, None)"
    using fill_fds_live [OF assms(1,2)] by blast
  moreover from this have "unat (UnixFDs m) \<le> length (pendingFDs r1)"
    using fill_fds_stream by blast
  ultimately have "\<exists>m'. x = Inr m'"
    using a(1) by (auto simp: attach_fds_def split: if_splits)
  then obtain m' where x: "x = Inr m'" by blast
  have "m = m\<lparr>FDs := []\<rparr>" using assms(3) by simp
  with a c x show ?thesis by auto
qed

section \<open>Reading a stream of messages\<close>

text \<open>
  A message as it travels: its bytes parse to it, the length fields in its header are the
  length of its bytes, and it carries as many descriptors as its header announces.
\<close>

definition wire_message :: "message \<Rightarrow> bool" where
  "wire_message m \<longleftrightarrow>
     ParseHeader (Raw m) = Some (Inr (m\<lparr>FDs := []\<rparr>)) \<and>
     frame_len (Raw m) = Some (length (Raw m)) \<and> length (Raw m) \<le> MaxMessageSize \<and>
     length (FDs m) = unat (UnixFDs m)"

lemma frame_len_Some:
  "frame_len s = Some n \<Longrightarrow> 16 \<le> length s \<and> order_of_endian (s ! 0) \<noteq> None"
  by (auto simp: frame_len_def split: if_splits bind_splits)

lemma ReadMessage_next:
  assumes lv: "live r" and m: "wire_message m"
    and sb: "stream_bytes r = Raw m @ S" and sf: "stream_fds r = FDs m @ F"
  shows "\<exists>r'. ReadMessage r = Some (r', Inr m) \<and> live r' \<and> stream_bytes r' = S \<and> stream_fds r' = F"
proof -
  let ?n = "length (Raw m)"
  from m have fl: "frame_len (Raw m) = Some ?n" and mx: "?n \<le> MaxMessageSize"
    and ph: "ParseHeader (Raw m) = Some (Inr (m\<lparr>FDs := []\<rparr>))"
    and k: "length (FDs m) = unat (UnixFDs m)" by (auto simp: wire_message_def)
  have l16: "16 \<le> ?n" and en: "order_of_endian (Raw m ! 0) \<noteq> None"
    using frame_len_Some [OF fl] by auto
  obtain r1 where f1: "fill_buf 16 r = (r1, None)"
    using fill_buf_live [OF lv, of 16] sb l16 by auto
  note s1 = fill_buf_stream [OF f1]
  have b1: "16 \<le> length (rbuf r1)" and lv1: "live r1" using s1 lv by auto
  have eq1: "rbuf r1 @ concat (map rdata (rconn r1)) = Raw m @ S"
    using s1 sb by (simp add: stream_bytes_def)
  have fr: "frame_len (rbuf r1) = Some ?n"
    using frame_len_prefix [OF b1] frame_len_prefix [OF l16] eq1 fl by metis
  have e1: "order_of_endian (rbuf r1 ! 0) \<noteq> None"
    using frame_len_Some [OF fr] by auto
  obtain r2 where f2: "fill_buf ?n r1 = (r2, None)"
    using fill_buf_live [OF lv1, of ?n] s1 sb by auto
  note s2 = fill_buf_stream [OF f2]
  have b2: "?n \<le> length (rbuf r2)" and lv2: "live r2" using s2 lv1 by auto
  have eq2: "rbuf r2 @ concat (map rdata (rconn r2)) = Raw m @ S"
    using s1 s2 sb by (simp add: stream_bytes_def)
  have tk: "take ?n (rbuf r2) = Raw m" using b2 arg_cong [OF eq2, of "take ?n"] by simp
  let ?r3 = "r2\<lparr>rbuf := drop ?n (rbuf r2)\<rparr>"
  have s3: "stream_bytes ?r3 = S" "stream_fds ?r3 = FDs m @ F" "live ?r3"
    using arg_cong [OF eq2, of "drop ?n"] b2 s1 s2 sf lv2
    by (simp_all add: stream_bytes_def stream_fds_def live_def)
  obtain r' where "attach_fds ?r3 (m\<lparr>FDs := []\<rparr>) = Some (r', Inr m)" "live r'"
    "stream_bytes r' = S" "stream_fds r' = F"
    using attach_fds_live [of ?r3 "m\<lparr>FDs := []\<rparr>"] s3 k by auto
  moreover have "ReadMessage r = attach_fds ?r3 (m\<lparr>FDs := []\<rparr>)"
    using ReadMessage_unfold [OF f1] e1 fr mx f2 tk ph by (auto simp: read_body_def)
  ultimately show ?thesis by auto
qed

lemma ReadMessage_total:
  "\<exists>r' x. ReadMessage r = Some (r', x) \<and>
    (case x of
       Inl e \<Rightarrow> stream_fds r' = stream_fds r \<and> suffix (stream_bytes r') (stream_bytes r)
     | Inr m \<Rightarrow> length (Raw m) \<le> MaxMessageSize \<and> parsed m \<and>
         length (FDs m) = unat (UnixFDs m) \<and> stream_bytes r = Raw m @ stream_bytes r' \<and>
         stream_fds r = FDs m @ stream_fds r')"
proof -
  obtain r1 e where f: "fill_buf 16 r = (r1, e)" by fastforce
  note s = fill_buf_stream [OF f]
  show ?thesis
  proof (cases e)
    case (Some err)
    with f s show ?thesis by (simp add: ReadMessage_def)
  next
    case None
    show ?thesis
    proof (cases "order_of_endian (rbuf r1 ! 0)")
      case None': None
      with ReadMessage_unfold f None s show ?thesis by simp
    next
      case (Some order)
      have l: "16 \<le> length (rbuf r1)" using s None by simp
      obtain b h where "u32_at order (rbuf r1) 4 = Some b" "u32_at order (rbuf r1) 12 = Some h"
        using l u32_at_Some [of 4 "rbuf r1"] u32_at_Some [of 12 "rbuf r1"] by fastforce
      with l Some obtain n where n: "frame_len (rbuf r1) = Some n" by (simp add: frame_len_def)
      show ?thesis
      proof (cases "MaxMessageSize < n")
        case True
        with ReadMessage_unfold f None Some n s show ?thesis by simp
      next
        case False
        with ReadMessage_unfold [of r r1] f None Some n
        have "ReadMessage r = read_body n r1" by simp
        with read_body_total [of n r1] s False show ?thesis
          by (fastforce split: sum.splits)
      qed
    qed
  qed
qed

section \<open>The contract of a message source, and of a channel\<close>

text \<open>The reading loop of a session, for \<open>n\<close> messages: it stops at the first error.\<close>

fun recv_n ::
  "('r \<Rightarrow> ('r \<times> (wire_error + message)) option) \<Rightarrow> nat \<Rightarrow> 'r \<Rightarrow> 'r \<times> message list" where
  "recv_n recv 0 r = (r, [])"
| "recv_n recv (Suc n) r =
     (case recv r of
        None \<Rightarrow> (r, [])
      | Some (r', Inl _) \<Rightarrow> (r', [])
      | Some (r', Inr m) \<Rightarrow> (case recv_n recv n r' of (r'', ms) \<Rightarrow> (r'', m # ms)))"

locale message_source =
  fixes recv :: "'r \<Rightarrow> ('r \<times> (wire_error + message)) option"
    and src_bytes :: "'r \<Rightarrow> byte list"
    and src_fds :: "'r \<Rightarrow> int list"
    and ready :: "'r \<Rightarrow> bool"
    and wf :: "message \<Rightarrow> bool"
  assumes recv_defined: "recv r \<noteq> None"
    and recv_ok: "recv r = Some (r', Inr m) \<Longrightarrow>
      src_bytes r = Raw m @ src_bytes r' \<and> src_fds r = FDs m @ src_fds r'"
    and recv_err: "recv r = Some (r', Inl e) \<Longrightarrow>
      suffix (src_bytes r') (src_bytes r) \<and> src_fds r' = src_fds r"
    and recv_next: "ready r \<Longrightarrow> wf m \<Longrightarrow> src_bytes r = Raw m @ S \<Longrightarrow> src_fds r = FDs m @ F \<Longrightarrow>
      \<exists>r'. recv r = Some (r', Inr m) \<and> ready r' \<and> src_bytes r' = S \<and> src_fds r' = F"

context message_source
begin

text \<open>Whatever arrives, the messages returned are cut from the stream in order.\<close>

lemma recv_n_stream:
  "recv_n recv n r = (r', ms) \<Longrightarrow>
   (\<exists>rest. src_bytes r = concat (map Raw ms) @ rest \<and> suffix (src_bytes r') rest) \<and>
   src_fds r = concat (map FDs ms) @ src_fds r'"
proof (induction n arbitrary: r ms)
  case (Suc n)
  obtain r1 x where rx: "recv r = Some (r1, x)" using recv_defined by fastforce
  show ?case
  proof (cases x)
    case (Inl e)
    with Suc.prems rx recv_err [of r r1 e] show ?thesis by auto
  next
    case (Inr m)
    with Suc.prems rx obtain ms' where "recv_n recv n r1 = (r', ms')" "ms = m # ms'"
      by (auto split: prod.splits)
    with Suc.IH [of r1 ms'] recv_ok [of r r1 m] rx Inr show ?thesis by fastforce
  qed
qed simp

lemma recv_n_next:
  "ready r \<Longrightarrow> list_all wf ms \<Longrightarrow> src_bytes r = concat (map Raw ms) @ S \<Longrightarrow>
   src_fds r = concat (map FDs ms) @ F \<Longrightarrow>
   \<exists>r'. recv_n recv (length ms) r = (r', ms) \<and> ready r' \<and> src_bytes r' = S \<and> src_fds r' = F"
proof (induction ms arbitrary: r)
  case (Cons m ms)
  then obtain r1 where "recv r = Some (r1, Inr m)" "ready r1"
    "src_bytes r1 = concat (map Raw ms) @ S" "src_fds r1 = concat (map FDs ms) @ F"
    using recv_next [of r m "concat (map Raw ms) @ S" "concat (map FDs ms) @ F"] by auto
  with Cons.IH [of r1] Cons.prems show ?case by auto
qed auto

end

text \<open>A channel is a sink and a source over the same bytes.\<close>

locale message_channel =
  message_sink send snd_bytes snd_fds + message_source recv src_bytes src_fds ready wf
  for send :: "'c \<Rightarrow> message \<Rightarrow> 'c \<times> io_error option"
    and snd_bytes :: "'c \<Rightarrow> byte list" and snd_fds :: "'c \<Rightarrow> int list"
    and recv :: "'r \<Rightarrow> ('r \<times> (wire_error + message)) option"
    and src_bytes :: "'r \<Rightarrow> byte list" and src_fds :: "'r \<Rightarrow> int list"
    and ready :: "'r \<Rightarrow> bool" and wf :: "message \<Rightarrow> bool"

context message_channel
begin

lemma channel_delivers:
  assumes "send_all send c ms = (c', None)" and "snd_bytes c = []" and "snd_fds c = []"
    and "list_all wf ms" and "ready r" and "src_bytes r = snd_bytes c'" and "src_fds r = snd_fds c'"
  shows "\<exists>r'. recv_n recv (length ms) r = (r', ms) \<and> src_bytes r' = [] \<and> src_fds r' = []"
  using recv_n_next [of r ms "[]" "[]"] send_all_ok [OF assms(1)] assms by auto

end

interpretation msgreader: message_source ReadMessage stream_bytes stream_fds live wire_message
proof
  show "ReadMessage r \<noteq> None" for r using ReadMessage_total [of r] by auto
next
  show "ReadMessage r = Some (r', Inr m) \<Longrightarrow>
    stream_bytes r = Raw m @ stream_bytes r' \<and> stream_fds r = FDs m @ stream_fds r'" for r r' m
    using ReadMessage_total [of r] by auto
next
  show "ReadMessage r = Some (r', Inl e) \<Longrightarrow>
    suffix (stream_bytes r') (stream_bytes r) \<and> stream_fds r' = stream_fds r" for r r' e
    using ReadMessage_total [of r] by auto
qed (rule ReadMessage_next)

interpretation wire: message_channel WriteMessage conn_bytes conn_fds
  ReadMessage stream_bytes stream_fds live wire_message
  by unfold_locales

text \<open>Messages in the D-Bus grammar travel.\<close>

lemma frame_len_enc_message:
  assumes "message_fits order fs"
    and "length (enc_message order typ flags version serial fs body) < 2 ^ 32"
  shows "frame_len (enc_message order typ flags version serial fs body) =
    Some (length (enc_message order typ flags version serial fs body))"
proof -
  let ?F = "enc_fields order [] fs"
  have H: "unat (padded_header_len (of_nat (length ?F))) = 16 + align (length ?F) 8"
    using assms(1) align_add [of 8 16 "length ?F"]
    by (simp add: unat_padded_header_len message_fits_def)
  have "unat (padded_header_len (of_nat (length ?F)) + of_nat (length body)) =
    16 + align (length ?F) 8 + length body"
    using assms(2) H by (simp add: length_enc_message unat_word_ariths)
  then show ?thesis
    by (simp add: frame_len_def enc_message_nth enc_message_u32 length_enc_message)
qed

lemma wire_dec_message:
  assumes "message_fits order fs"
    and "length (enc_message order typ flags version serial fs body) \<le> MaxMessageSize"
    and "length fds = unat (UnixFDs (dec_message order typ flags version serial fs body))"
  shows "wire_message (dec_message order typ flags version serial fs body\<lparr>FDs := fds\<rparr>)"
  using assms ParseHeader_enc_message [OF assms(1)] frame_len_enc_message [OF assms(1)]
  by (simp add: wire_message_def dec_message_envelope)


end
