(* ===== verification/Dbus_Rules.thy ===== *)
theory Dbus_Rules
  imports Lxg_Prelude
begin

text \<open>
  The routing rules of \<open>container/dbus/rules.go\<close>: which bus a well-known name belongs to.
  The locale \<open>rule_table\<close> is what the router relies on when it asks a table of patterns
  about a name; both tables of the source interpret it.
\<close>

datatype Target = TargetContainer | TargetHost

text \<open>The values are numbered by \<open>iota\<close>; the order of the constants is that of their numbers.\<close>

fun target_iota :: "Target \<Rightarrow> nat" where
  "target_iota TargetContainer = 0"
| "target_iota TargetHost = 1"

instantiation Target :: linorder
begin

definition less_eq_Target :: "Target \<Rightarrow> Target \<Rightarrow> bool" where
  "less_eq_Target t u \<longleftrightarrow> target_iota t \<le> target_iota u"

definition less_Target :: "Target \<Rightarrow> Target \<Rightarrow> bool" where
  "less_Target t u \<longleftrightarrow> target_iota t < target_iota u"

instance
proof
  show "t \<le> u \<Longrightarrow> u \<le> t \<Longrightarrow> t = u" for t u :: Target
    by (cases t; cases u) (simp_all add: less_eq_Target_def)
qed (auto simp: less_eq_Target_def less_Target_def)

end

lemma max_TargetHost: "max t u = TargetHost \<longleftrightarrow> t = TargetHost \<or> u = TargetHost"
  by (cases t; cases u) (simp_all add: max_def less_eq_Target_def)

lemma Target_eqI: "(t = TargetHost \<longleftrightarrow> u = TargetHost) \<Longrightarrow> t = u"
  by (cases t; cases u) auto

definition DefaultHostTalkRules :: "string list" where
  "DefaultHostTalkRules =
    [''org.freedesktop.portal.*'',
     ''org.freedesktop.Notifications'',
     ''org.freedesktop.secrets'',
     ''org.freedesktop.ScreenSaver'',
     ''org.kde.StatusNotifierWatcher'']"

definition DefaultHostOwnRules :: "string list" where
  "DefaultHostOwnRules = [''org.mpris.MediaPlayer2.*'']"

definition MatchRule :: "string \<Rightarrow> string \<Rightarrow> bool" where
  "MatchRule pattern name =
     (if pattern = name then True
      else if HasSuffix pattern ''.*'' then
        let prefix = TrimSuffix pattern ''.*''
        in if name = prefix \<or> HasPrefix name (prefix @ ''.'') then True else False
      else False)"

text \<open>The loop \<open>for _, rule := range rules\<close> of both routing functions.\<close>

fun route_loop :: "string list \<Rightarrow> string \<Rightarrow> Target" where
  "route_loop [] name = TargetContainer"
| "route_loop (rule # rules) name =
     (if MatchRule rule name then TargetHost else route_loop rules name)"

definition RouteDestination :: "string \<Rightarrow> Target" where
  "RouteDestination destination =
     (if destination = [] then TargetContainer else route_loop DefaultHostTalkRules destination)"

definition RouteOwnership :: "string \<Rightarrow> Target" where
  "RouteOwnership name =
     (if name = [] then TargetContainer else route_loop DefaultHostOwnRules name)"

fun signal_loop :: "string list \<Rightarrow> string \<Rightarrow> bool" where
  "signal_loop [] rule = False"
| "signal_loop (talk # talks) rule =
     (if Contains rule (TrimSuffix talk ''.*'') then True else signal_loop talks rule)"

definition MatchSignalRuleHost :: "string \<Rightarrow> bool" where
  "MatchSignalRuleHost rule = signal_loop DefaultHostTalkRules rule"

section \<open>Names as sequences of elements\<close>

text \<open>
  A bus name is a sequence of elements separated by dots. The specification of a pattern
  \<open>p.*\<close> is stated on these elements: the elements of \<open>p\<close> come first in those of the name.
\<close>

fun elements :: "string \<Rightarrow> string list" where
  "elements [] = [[]]"
| "elements (c # s) =
     (if c = CHR ''.'' then [] # elements s
      else (c # hd (elements s)) # tl (elements s))"

lemma elements_nonempty [simp]: "elements s \<noteq> []" "[] \<noteq> elements s"
  by (cases s; simp)+

lemma elements_append_dot: "elements (p @ CHR ''.'' # s) = elements p @ elements s"
  by (induction p) auto

lemma elements_inj: "elements s = elements t \<Longrightarrow> s = t"
proof (induction s arbitrary: t)
  case Nil
  then show ?case
    by (cases t) (auto split: if_splits)
next
  case (Cons c s)
  show ?case
  proof (cases t)
    case Nil
    with Cons.prems show ?thesis by (auto split: if_splits)
  next
    case (Cons d u)
    have "hd (elements s) = hd (elements u) \<and> tl (elements s) = tl (elements u) \<Longrightarrow> s = u"
      using Cons.IH elements_nonempty(1) by (metis list.expand)
    with Cons.IH Cons.prems Cons show ?thesis
      by (auto split: if_splits)
  qed
qed

lemma prefix_elements:
  "prefix (elements p) (elements name) \<longleftrightarrow> name = p \<or> HasPrefix name (p @ ''.'')"
proof
  assume "prefix (elements p) (elements name)"
  then obtain r where r: "elements name = elements p @ r" by (auto simp: prefix_def)
  show "name = p \<or> HasPrefix name (p @ ''.'')"
  proof (cases r)
    case Nil
    with r show ?thesis using elements_inj by auto
  next
    case (Cons e es)
    show ?thesis
      using r Cons
    proof (induction p arbitrary: name)
      case Nil
      then show ?case
        by (cases name) (auto simp: HasPrefix_def split: if_splits)
    next
      case (Cons c p)
      then obtain d u where name: "name = d # u"
        by (cases name) (auto split: if_splits)
      have "elements u = elements p @ e # es \<and> c = d"
        using Cons.prems name elements_nonempty [of u] elements_nonempty [of p]
        by (auto split: if_splits intro: list.expand simp: neq_Nil_conv)
      then have "u = p \<or> HasPrefix u (p @ ''.'')" and "c = d"
        using Cons.IH Cons.prems by blast+
      then show ?case by (auto simp: name HasPrefix_def)
    qed
  qed
next
  assume "name = p \<or> HasPrefix name (p @ ''.'')"
  then show "prefix (elements p) (elements name)"
    by (auto simp: HasPrefix_iff prefix_def elements_append_dot)
qed

lemma MatchRule_wildcard:
  "MatchRule (p @ ''.*'') name \<longleftrightarrow> prefix (elements p) (elements name)"
  unfolding prefix_elements
  by (auto simp: MatchRule_def HasSuffix_iff suffix_def Let_def HasPrefix_def)

lemma MatchRule_exact:
  "\<not> HasSuffix pattern ''.*'' \<Longrightarrow> MatchRule pattern name \<longleftrightarrow> name = pattern"
  by (auto simp: MatchRule_def)

lemma elements_word: "CHR ''.'' \<notin> set s \<Longrightarrow> elements s = [s]"
  by (induction s) auto

lemma MatchRule_below:
  "pattern = p @ CHR ''.'' # q @ CHR ''.'' # r @ ''.*'' \<Longrightarrow> CHR ''.'' \<notin> set p \<union> set q \<union> set r \<Longrightarrow>
   MatchRule pattern n \<longleftrightarrow> prefix [p, q, r] (elements n)"
  using MatchRule_wildcard [of "p @ CHR ''.'' # q @ CHR ''.'' # r" n]
  by (simp add: elements_append_dot elements_word)

section \<open>The contract of a table of patterns\<close>

locale rule_table =
  fixes rules :: "string list" and route :: "string \<Rightarrow> Target"
  assumes route_empty: "route [] = TargetContainer"
    and route_iff: "name \<noteq> [] \<Longrightarrow> route name = TargetHost \<longleftrightarrow> (\<exists>r \<in> set rules. MatchRule r name)"

context rule_table
begin

lemma route_container_iff:
  "name \<noteq> [] \<Longrightarrow> route name = TargetContainer \<longleftrightarrow> (\<forall>r \<in> set rules. \<not> MatchRule r name)"
  using route_iff Target.exhaust by (metis Target.distinct(1))

lemma route_host_nonempty: "route name = TargetHost \<Longrightarrow> name \<noteq> []"
  using route_empty by auto

text \<open>A wildcard pattern routes every name below it.\<close>

lemma route_below:
  assumes "p @ ''.*'' \<in> set rules"
  shows "route (p @ ''.'' @ s) = TargetHost"
  using assms route_iff [of "p @ ''.'' @ s"]
  by (auto simp: MatchRule_wildcard elements_append_dot intro!: bexI [of _ "p @ ''.*''"])

text \<open>A unique name (\<open>:1.42\<close>) is never routed by a table without patterns for them.\<close>

lemma route_unique_name:
  assumes "\<forall>r \<in> set rules. r \<noteq> [] \<and> hd r \<noteq> CHR '':'' \<and> hd r \<noteq> CHR ''.''"
  shows "route (CHR '':'' # n) = TargetContainer"
proof -
  have "\<not> MatchRule r (CHR '':'' # n)" if "r \<in> set rules" for r
  proof -
    have "r \<noteq> []" "hd r \<noteq> CHR '':''" "hd r \<noteq> CHR ''.''" using assms that by auto
    then show ?thesis
      by (auto simp: MatchRule_def Let_def HasPrefix_iff HasSuffix_iff prefix_def suffix_def Cons_eq_append_conv)
  qed
  then show ?thesis using route_container_iff by auto
qed

end

lemma route_loop_iff: "route_loop rules name = TargetHost \<longleftrightarrow> (\<exists>r \<in> set rules. MatchRule r name)"
  by (induction rules) auto

interpretation talk: rule_table DefaultHostTalkRules RouteDestination
  by unfold_locales (auto simp: RouteDestination_def route_loop_iff)

interpretation own: rule_table DefaultHostOwnRules RouteOwnership
  by unfold_locales (auto simp: RouteOwnership_def route_loop_iff)

lemma signal_loop_iff:
  "signal_loop talks rule \<longleftrightarrow> (\<exists>t \<in> set talks. sublist (TrimSuffix t ''.*'') rule)"
  by (induction talks) (auto simp: Contains_iff)

text \<open>A pattern occurs, without its wildcard, in every name it matches.\<close>

lemma MatchRule_prefix: "MatchRule pattern name \<Longrightarrow> prefix (TrimSuffix pattern ''.*'') name"
  by (auto simp: MatchRule_def TrimSuffix_def HasPrefix_iff prefix_def Let_def split: if_splits)
    (metis append_take_drop_id)

end
