(* ===== verification/Dbus_Messages.thy ===== *)
theory Dbus_Messages
  imports Dbus_Wire
begin

text \<open>
  The functions of \<open>container/dbus/router.go\<close> that work on messages alone: the
  string arguments of a body (\<open>extractBodyStrings\<close>, \<open>extractFirstStringArg\<close>), the merge
  of two name lists (\<open>uniqueStrings\<close>, \<open>mergeNameListReplies\<close>) and the error reply
  (\<open>NewErrorMessage\<close> with its three \<open>appendField\<close> helpers).
\<close>

section \<open>The string arguments of a body\<close>

function extract_loop ::
  "ByteOrder \<Rightarrow> byte list \<Rightarrow> nat \<Rightarrow> string list \<Rightarrow> string list option" where
  "extract_loop order body pos0 out =
     (if pos0 + 4 \<le> length body then
        let pos = align pos0 4 in
        if length body < pos + 4 then Some out
        else do {
          n \<leftarrow> u32_at order body pos;
          let strLen = unat n;
          let pos = pos + 4;
          if length body < pos + strLen + 1 then Some out
          else do {
            bs \<leftarrow> go_slice body pos (pos + strLen);
            extract_loop order body (pos + (strLen + 1)) (out @ [string_of_bytes bs])
          }
        }
      else Some out)"
  by pat_completeness auto
termination
proof (relation "measure (\<lambda>(order, body, pos, out). length body - pos)", goal_cases)
  case 1
  then show ?case by simp
next
  case (2 order body pos0 out)
  then show ?case using align_ge [of pos0 4] by auto
qed

declare extract_loop.simps [simp del]

definition extractBodyStrings :: "message \<Rightarrow> string list option" where
  "extractBodyStrings msg =
     (if length (Raw msg) < unat (HeaderLength msg) + 4 then Some []
      else do {
        body \<leftarrow> go_slice (Raw msg) (unat (HeaderLength msg)) (length (Raw msg));
        extract_loop (byteOrder msg) body 0 []
      })"

definition extractFirstStringArg :: "message \<Rightarrow> string option" where
  "extractFirstStringArg msg =
     do {
       stringsInBody \<leftarrow> extractBodyStrings msg;
       Some (case stringsInBody of [] \<Rightarrow> [] | s # _ \<Rightarrow> s)
     }"

section \<open>Merging name lists\<close>

fun unique_loop :: "string set \<Rightarrow> string list \<Rightarrow> string list \<Rightarrow> string list" where
  "unique_loop seen out [] = out"
| "unique_loop seen out (s # ss) =
     (if s \<in> seen then unique_loop seen out ss
      else unique_loop (insert s seen) (out @ [s]) ss)"

definition uniqueStrings :: "string list \<Rightarrow> string list" where
  "uniqueStrings ss = unique_loop {} [] ss"

text \<open>The names of a reply, none if it is an error or does not parse.\<close>

definition reply_names :: "message \<Rightarrow> string list option" where
  "reply_names msg =
     (if Type msg = TypeMethodReturn then do {
        parsed \<leftarrow> ParseStringArray msg;
        Some (case parsed of Inl _ \<Rightarrow> [] | Inr names \<Rightarrow> names)
      }
      else Some [])"

definition mergeNameListReplies :: "message \<Rightarrow> message \<Rightarrow> message option" where
  "mergeNameListReplies containerMsg hostMsg =
     (if Type containerMsg \<noteq> TypeMethodReturn \<and> Type hostMsg \<noteq> TypeMethodReturn
      then Some containerMsg
      else
        let base = (if Type containerMsg \<noteq> TypeMethodReturn then hostMsg else containerMsg)
        in do {
          names1 \<leftarrow> reply_names containerMsg;
          names2 \<leftarrow> reply_names hostMsg;
          ReplaceBody base (EncodeStringArray (byteOrder base) (uniqueStrings (names1 @ names2)))
        })"

section \<open>The error reply\<close>

definition pad_field :: "nat \<Rightarrow> byte list \<Rightarrow> byte list" where
  "pad_field n buf =
     (let rem = (16 + length buf) mod n
      in if rem \<noteq> 0 then buf @ replicate (n - rem) 0 else buf)"

definition appendFieldString :: "byte list \<Rightarrow> byte \<Rightarrow> string \<Rightarrow> byte list" where
  "appendFieldString buf code val =
     (let buf = pad_field 8 buf;
          buf = buf @ [code];
          buf = buf @ [1, 115, 0];
          buf = pad_field 4 buf
      in buf @ PutUint32 LittleEndian (of_nat (length val)) @ bytes_of_string val @ [0])"

definition appendFieldUint32 :: "byte list \<Rightarrow> byte \<Rightarrow> u32 \<Rightarrow> byte list" where
  "appendFieldUint32 buf code val =
     (let buf = pad_field 8 buf;
          buf = buf @ [code];
          buf = buf @ [1, 117, 0];
          buf = pad_field 4 buf
      in buf @ PutUint32 LittleEndian val)"

definition appendFieldSignature :: "byte list \<Rightarrow> string \<Rightarrow> byte list" where
  "appendFieldSignature buf sig =
     (let buf = pad_field 8 buf;
          buf = buf @ [HeaderSignature];
          buf = buf @ [1, 103, 0];
          buf = buf @ [of_nat (length sig)];
          buf = buf @ bytes_of_string sig
      in buf @ [0])"

text \<open>Go's \<open>copy(dst, src)\<close>.\<close>

definition copy_into :: "byte list \<Rightarrow> byte list \<Rightarrow> byte list" where
  "copy_into dst src = take (length dst) src @ drop (length src) dst"

text \<open>
  \<open>NewErrorMessage\<close>; the result is \<open>None\<close> (a panic of \<open>header[12:16]\<close>) only where
  \<open>paddedHeaderLen\<close> wraps to less than the fixed header.
\<close>

definition NewErrorMessage :: "message \<Rightarrow> string \<Rightarrow> string \<Rightarrow> u32 \<Rightarrow> message option" where
  "NewErrorMessage replyTo errorName errorText serial =
     (let bodyBytes = PutUint32 LittleEndian (of_nat (length errorText)) @
            bytes_of_string errorText @ [0];
          bodyLen = of_nat (length bodyBytes);
          fields = appendFieldString [] HeaderErrorName errorName;
          fields = appendFieldUint32 fields HeaderReplySerial (Serial replyTo);
          fields = (if Sender replyTo \<noteq> [] then appendFieldString fields HeaderDestination (Sender replyTo)
            else fields);
          fields = appendFieldSignature fields ''s'';
          headerFieldsLen = of_nat (length fields);
          paddedHeaderLen = padded_header_len headerFieldsLen
      in if unat paddedHeaderLen < 16 then None
         else
           let header = [108, TypeError, 1, 1] @ PutUint32 LittleEndian bodyLen @
                 PutUint32 LittleEndian serial @ PutUint32 LittleEndian headerFieldsLen @
                 copy_into (replicate (unat paddedHeaderLen - 16) 0) fields;
               raw = header @ bodyBytes
           in Some \<lparr>Endianness = 108, Type = TypeError, Flags = 1, Version = 1,
                BodyLength = bodyLen, Serial = serial, HeaderLength = paddedHeaderLen,
                TotalLength = of_nat (length raw), Path = [], Interface = [], Member = [],
                ErrorName = errorName, ReplySerial = Serial replyTo, Destination = [],
                Sender = [], UnixFDs = 0, Raw = raw, FDs = []\<rparr>)"

section \<open>Lemmas: string arguments\<close>

lemma extract_loop_total: "\<exists>r. extract_loop order body pos out = Some (out @ r)"
proof (induction order body pos out rule: extract_loop.induct)
  case (1 order body pos out)
  let ?p = "align pos 4"
  show ?case
  proof (cases "pos + 4 \<le> length body \<and> ?p + 4 \<le> length body")
    case False
    then show ?thesis by (subst extract_loop.simps) (auto simp: Let_def)
  next
    case True
    then obtain n where n: "u32_at order body ?p = Some n"
      using u32_at_Some [of ?p body order] by auto
    show ?thesis
    proof (cases "length body < ?p + 4 + unat n + 1")
      case True
      with n \<open>_ \<and> _\<close> show ?thesis by (subst extract_loop.simps) (auto simp: Let_def)
    next
      case False
      define bs where "bs = take (unat n) (drop (?p + 4) body)"
      have bs: "go_slice body (?p + 4) (?p + 4 + unat n) = Some bs"
        using False by (auto simp: bs_def)
      have "\<exists>r. extract_loop order body (?p + 4 + (unat n + 1)) (out @ [string_of_bytes bs]) =
          Some ((out @ [string_of_bytes bs]) @ r)"
        using "1.IH" [OF _ refl _ n refl refl False bs] True by auto
      then show ?thesis
        using True n False bs by (subst extract_loop.simps) (auto simp: Let_def)
    qed
  qed
qed

lemma extractBodyStrings_total: "\<exists>ss. extractBodyStrings msg = Some ss"
  using extract_loop_total [of "byteOrder msg" "drop (unat (HeaderLength msg)) (Raw msg)" 0 "[]"]
  by (auto simp: extractBodyStrings_def)

text \<open>The arguments as values, for the handlers, which never see a panic here.\<close>

definition body_strings :: "message \<Rightarrow> string list" where
  "body_strings msg = the (extractBodyStrings msg)"

definition first_string :: "message \<Rightarrow> string" where
  "first_string msg = (case body_strings msg of [] \<Rightarrow> [] | s # _ \<Rightarrow> s)"

lemma extractBodyStrings_eq [simp]: "extractBodyStrings msg = Some (body_strings msg)"
  using extractBodyStrings_total [of msg] by (auto simp: body_strings_def)

lemma extractFirstStringArg_eq [simp]: "extractFirstStringArg msg = Some (first_string msg)"
  by (simp add: extractFirstStringArg_def first_string_def)

lemma extract_loop_encode:
  assumes "body = encode_names order buf names @ R" and "list_all (\<lambda>s. length s < 2 ^ 32) names"
  shows "extract_loop order body (length buf) out =
    extract_loop order body (length (encode_names order buf names)) (out @ names)"
  using assms
proof (induction names arbitrary: buf out)
  case (Cons n names)
  let ?P = "pad_to 4 buf"
  let ?buf = "?P @ PutUint32 order (of_nat (length n)) @ bytes_of_string n @ [0]"
  obtain S where S: "encode_names order ?buf names = ?buf @ S"
    using encode_names_prefix by blast
  have body: "body = ?P @ PutUint32 order (of_nat (length n)) @ bytes_of_string n @ [0] @ S @ R"
    using Cons.prems(1) S by simp
  have al: "align (length buf) 4 = length ?P" by simp
  have ge: "length buf \<le> length ?P" using align_ge [of "length buf" 4] by simp
  have u: "u32_at order body (length ?P) = Some (of_nat (length n))"
    unfolding body by (rule u32_at_append) simp
  have sl: "go_slice body (length ?P + 4) (length ?P + 4 + length n) = Some (bytes_of_string n)"
    using slice_middle [of "length ?P + 4" "?P @ PutUint32 order (of_nat (length n))"
        "length ?P + 4 + length n" "bytes_of_string n" "[0] @ S @ R"]
    by (simp add: body)
  have fit: "length ?P + 4 + length n + 1 \<le> length body" by (simp add: body)
  have "extract_loop order body (length buf) out =
      extract_loop order body (length ?P + 4 + (length n + 1)) (out @ [n])"
    using Cons.prems(2) ge u sl fit
    by (subst extract_loop.simps) (simp only: al Let_def, simp)
  also have "length ?P + 4 + (length n + 1) = length ?buf" by simp
  finally show ?case
    using Cons.IH [of ?buf "out @ [n]"] Cons.prems by simp
qed simp

lemma body_strings_alt:
  "body_strings m =
    (if length (msg_body m) < 4 then []
     else the (extract_loop (byteOrder m) (msg_body m) 0 []))"
proof -
  have "go_slice (Raw m) (unat (HeaderLength m)) (length (Raw m)) = Some (msg_body m)"
    if "unat (HeaderLength m) \<le> length (Raw m)"
    using that by (simp add: msg_body_def)
  then show ?thesis
    by (auto simp: body_strings_def extractBodyStrings_def msg_body_def simp del: extractBodyStrings_eq)
qed

lemma body_strings_encode [codec]:
  assumes "msg_body m = encode_names (byteOrder m) [] names"
    and "list_all (\<lambda>s. length s < 2 ^ 32) names"
  shows "body_strings m = names"
proof (cases names)
  case Nil
  with assms show ?thesis by (simp add: body_strings_alt)
next
  case (Cons n ns)
  let ?E = "encode_names (byteOrder m) [] names"
  have "4 \<le> length ?E"
    using Cons encode_names_prefix [of "byteOrder m" "PutUint32 (byteOrder m) (of_nat (length n)) @
      bytes_of_string n @ [0]" ns] by (auto simp: pad_to_def)
  moreover have "extract_loop (byteOrder m) ?E (length ([] :: byte list)) [] = Some ([] @ names)"
    by (subst extract_loop_encode [of _ _ _ _ "[]"])
      (use assms in \<open>auto simp: extract_loop.simps [of _ _ "length _"]\<close>)
  ultimately show ?thesis using assms(1) by (simp add: body_strings_alt)
qed

lemma first_string_encode [codec]:
  assumes "msg_body m = encode_names (byteOrder m) [] [s] @ R" and "length s < 2 ^ 32"
  shows "first_string m = s"
proof -
  let ?E = "encode_names (byteOrder m) [] [s]"
  obtain r where "extract_loop (byteOrder m) (?E @ R) (length ?E) [s] = Some ([s] @ r)"
    using extract_loop_total by blast
  then have "extract_loop (byteOrder m) (?E @ R) (length ([] :: byte list)) [] = Some ([s] @ r)"
    using extract_loop_encode [of "?E @ R" "byteOrder m" "[]" "[s]" R "[]"] assms(2) by simp
  then show ?thesis
    using assms(1) by (simp add: first_string_def body_strings_alt pad_to_def)
qed

section \<open>Lemmas: merging\<close>

lemma unique_loop_snoc:
  "unique_loop seen out (ss @ [s]) =
     (let r = unique_loop seen out ss in if s \<in> seen \<union> set ss then r else r @ [s])"
  by (induction ss arbitrary: seen out) (auto simp: Let_def)

lemma uniqueStrings_snoc:
  "uniqueStrings (ss @ [s]) = (if s \<in> set ss then uniqueStrings ss else uniqueStrings ss @ [s])"
  by (simp add: uniqueStrings_def unique_loop_snoc Let_def)

text \<open>The reference: keep the first occurrence of each name.\<close>

lemma uniqueStrings_remdups: "uniqueStrings ss = rev (remdups (rev ss))"
  by (induction ss rule: rev_induct) (simp_all add: uniqueStrings_snoc, simp add: uniqueStrings_def)

lemma set_uniqueStrings [simp]: "set (uniqueStrings ss) = set ss"
  by (simp add: uniqueStrings_remdups)

lemma distinct_uniqueStrings [simp]: "distinct (uniqueStrings ss)"
  by (simp add: uniqueStrings_remdups)

lemma names_cost_rev: "names_cost k (rev ss) = names_cost k ss"
  by (induction ss) auto

lemma names_cost_remdups: "names_cost k (remdups ss) \<le> names_cost k ss"
  by (induction ss) auto

lemma names_cost_unique: "names_cost k (uniqueStrings ss) \<le> names_cost k ss"
  using names_cost_remdups [of k "rev ss"] by (simp add: uniqueStrings_remdups names_cost_rev)

lemma reply_names_total:
  "\<exists>names. reply_names m = Some names \<and> names_cost 5 names \<le> length (Raw m)"
  using ParseStringArray_total [of m]
  by (auto simp: reply_names_def split: sum.splits)

lemma ReplaceBody_total:
  assumes "parsed m" and "length (Raw m) \<le> MaxMessageSize"
  shows "\<exists>out. ReplaceBody m body = Some out"
proof -
  let ?h = "min (unat (HeaderLength m)) (length (Raw m))"
  obtain hfl :: u32 where "16 + unat hfl \<le> length (Raw m)" "16 + unat hfl \<le> unat (HeaderLength m)"
    by (rule parsed_header_bounds [OF assms])
  then have "8 \<le> length (take ?h (Raw m) @ body)" by simp
  then obtain raw where "put_u32_at (byteOrder m) (take ?h (Raw m) @ body) 4 (of_nat (length body)) = Some raw"
    by (simp add: put_u32_at_def)
  moreover obtain p where "ParseHeader raw = Some p" using ParseHeader_total by blast
  ultimately show ?thesis by (cases p) (auto simp: ReplaceBody_def Let_def)
qed

lemma merge_total:
  assumes "parsed c" "length (Raw c) \<le> MaxMessageSize"
    and "parsed h" "length (Raw h) \<le> MaxMessageSize"
  shows "\<exists>m. mergeNameListReplies c h = Some m"
  using reply_names_total [of c] reply_names_total [of h] ReplaceBody_total assms
  by (fastforce simp: mergeNameListReplies_def Let_def)

text \<open>What the merged reply says: the names of both replies, each once, the container's first.\<close>

lemma merge_names:
  assumes c: "framed c" and h: "framed h"
    and t: "Type c = TypeMethodReturn \<or> Type h = TypeMethodReturn"
  shows "\<exists>m nc nh. mergeNameListReplies c h = Some m \<and> reply_names c = Some nc \<and>
    reply_names h = Some nh \<and> ParseStringArray m = Some (Inr (uniqueStrings (nc @ nh))) \<and>
    Type m = TypeMethodReturn \<and> FDs m = [] \<and> parsed m \<and>
    Serial m = Serial (if Type c = TypeMethodReturn then c else h)"
proof -
  obtain nc nh where n: "reply_names c = Some nc" "reply_names h = Some nh"
    and cost: "names_cost 5 nc \<le> length (Raw c)" "names_cost 5 nh \<le> length (Raw h)"
    using reply_names_total by metis
  define base where "base = (if Type c = TypeMethodReturn then c else h)"
  define names where "names = uniqueStrings (nc @ nh)"
  have b: "framed base" "Type base = TypeMethodReturn" using c h t by (auto simp: base_def)
  have "2 * names_cost 5 names < 2 ^ 32"
    using names_cost_unique [of 5 "nc @ nh"] cost c h by (simp add: names_def framed_def)
  then have fit: "names_fit (byteOrder base) names" by (rule names_fit_cost)
  obtain m where m: "ReplaceBody base (EncodeStringArray (byteOrder base) names) = Some m"
    "parsed m" "FDs m = []" "byteOrder m = byteOrder base" "Type m = Type base"
    "Serial m = Serial base" "HeaderLength m = HeaderLength base"
    "length (Raw m) = unat (HeaderLength base) + length (EncodeStringArray (byteOrder base) names)"
    "msg_body m = EncodeStringArray (byteOrder base) names"
    using ReplaceBody_framed [OF b(1)] by metis
  have "ParseStringArray m = Some (Inr names)"
    by (rule ParseStringArray_Encode [where R = "[]"]) (use m fit in auto)
  moreover have "mergeNameListReplies c h = Some m"
    using m(1) n t by (auto simp: mergeNameListReplies_def base_def names_def Let_def split: if_splits)
  ultimately show ?thesis
    using n m b by (auto simp: names_def base_def)
qed

section \<open>Lemmas: the error reply\<close>

lemma pad_field_pad_to: "n dvd 16 \<Longrightarrow> pad_field n buf = pad_to n buf"
proof -
  assume d: "n dvd 16"
  have "(16 + length buf) mod n = (16 mod n + length buf) mod n" by (simp add: mod_add_left_eq)
  with d have m: "(16 + length buf) mod n = length buf mod n" by (simp add: dvd_eq_mod_eq_0)
  show ?thesis by (simp add: pad_field_def pad_to_def align_def m Let_def)
qed

lemma pad_to_noop: "n dvd length buf \<Longrightarrow> pad_to n buf = buf"
  by (simp add: pad_to_def)

lemma pad_after_code: "pad_field 4 (pad_to 8 buf @ [a] @ [b, c, d]) = pad_to 8 buf @ [a, b, c, d]"
proof -
  have "(4 :: nat) dvd align (length buf) 8"
    using dvd_trans [of "4 :: nat" 8] align_dvd [of 8 "length buf"] by simp
  then have "4 dvd align (length buf) 8 + 4" by simp
  moreover have "length (pad_to 8 buf @ [a] @ [b, c, d]) = align (length buf) 8 + 4" by simp
  ultimately have "4 dvd length (pad_to 8 buf @ [a] @ [b, c, d])" by (simp only:)
  from pad_to_noop [OF this] show ?thesis
    using pad_field_pad_to [of 4 "pad_to 8 buf @ [a] @ [b, c, d]"] by simp
qed

lemma appendFieldString_entry:
  "appendFieldString buf code val = append_entry LittleEndian buf (StrField code val)"
  using pad_after_code [of buf code 1 115 0]
  by (simp add: appendFieldString_def append_entry_def pad_field_pad_to Let_def)

lemma appendFieldUint32_entry:
  "appendFieldUint32 buf code val = append_entry LittleEndian buf (U32Field code val)"
  using pad_after_code [of buf code 1 117 0]
  by (simp add: appendFieldUint32_def append_entry_def pad_field_pad_to Let_def)

lemma appendFieldSignature_entry:
  "appendFieldSignature buf sig = append_entry LittleEndian buf (SigField HeaderSignature sig)"
  by (simp add: appendFieldSignature_def append_entry_def pad_field_pad_to Let_def)

definition error_fields :: "message \<Rightarrow> string \<Rightarrow> hfield list" where
  "error_fields replyTo errorName =
     [StrField HeaderErrorName errorName, U32Field HeaderReplySerial (Serial replyTo)] @
     (if Sender replyTo \<noteq> [] then [StrField HeaderDestination (Sender replyTo)] else []) @
     [SigField HeaderSignature ''s'']"

definition error_body :: "string \<Rightarrow> byte list" where
  "error_body errorText = encode_names LittleEndian [] [errorText]"

lemma error_body_alt:
  "error_body t = PutUint32 LittleEndian (of_nat (length t)) @ bytes_of_string t @ [0]"
  by (simp add: error_body_def pad_to_noop)

lemma foldl_error_fields:
  "foldl apply_entry m (error_fields replyTo errorName)\<lparr>Destination := []\<rparr> =
     m\<lparr>ErrorName := errorName, ReplySerial := Serial replyTo, Destination := []\<rparr>"
  by (simp add: error_fields_def set_string_field_def set_u32_field_def)

text \<open>
  The error reply is the message its own bytes parse to, except that the Go value leaves
  \<open>Destination\<close> empty while the bytes name the caller.
\<close>

lemma NewErrorMessage_dec:
  assumes fit: "message_fits LittleEndian (error_fields replyTo errorName)"
  shows "NewErrorMessage replyTo errorName errorText serial =
    Some (dec_message LittleEndian TypeError 1 1 serial (error_fields replyTo errorName)
      (error_body errorText)\<lparr>Destination := []\<rparr>)"
proof -
  let ?fs = "error_fields replyTo errorName"
  let ?F = "enc_fields LittleEndian [] ?fs"
  let ?P = "padded_header_len (of_nat (length ?F))"
  have F: "appendFieldSignature
      (if Sender replyTo \<noteq> []
       then appendFieldString (appendFieldUint32 (appendFieldString [] HeaderErrorName errorName)
         HeaderReplySerial (Serial replyTo)) HeaderDestination (Sender replyTo)
       else appendFieldUint32 (appendFieldString [] HeaderErrorName errorName)
         HeaderReplySerial (Serial replyTo)) ''s'' = ?F"
    by (simp add: appendFieldString_entry appendFieldUint32_entry appendFieldSignature_entry
        enc_fields_def error_fields_def)
  have H: "unat ?P = 16 + align (length ?F) 8"
    using fit align_add [of 8 16 "length ?F"]
    by (simp add: unat_padded_header_len message_fits_def)
  have cp: "copy_into (replicate (unat ?P - 16) 0) ?F = pad_to 8 ?F"
    using align_ge [of "length ?F" 8] by (simp add: copy_into_def H pad_to_def)
  define raw where "raw = enc_message LittleEndian TypeError 1 1 serial ?fs (error_body errorText)"
  have tot: "of_nat (length raw) = ?P + of_nat (length (error_body errorText))"
  proof -
    have "(of_nat (unat ?P) :: u32) = of_nat (16 + align (length ?F) 8)" by (simp only: H)
    then have "?P = of_nat (16 + align (length ?F) 8)" by simp
    then show ?thesis by (simp add: raw_def length_enc_message)
  qed
  have raw: "([108, TypeError, 1, 1] @ PutUint32 LittleEndian (of_nat (length (error_body errorText))) @
      PutUint32 LittleEndian serial @ PutUint32 LittleEndian (of_nat (length ?F)) @
      copy_into (replicate (unat ?P - 16) 0) ?F) @ error_body errorText = raw"
    by (simp add: raw_def enc_message_def cp endian_byte_def Let_def)
  have ne: "raw ! 0 = 108" "raw ! 1 = TypeError" "raw ! 2 = 1" "raw ! 3 = 1"
    by (simp_all add: raw_def enc_message_def endian_byte_def Let_def)
  have "dec_message LittleEndian TypeError 1 1 serial ?fs (error_body errorText)\<lparr>Destination := []\<rparr> =
    \<lparr>Endianness = 108, Type = TypeError, Flags = 1, Version = 1,
      BodyLength = of_nat (length (error_body errorText)), Serial = serial, HeaderLength = ?P,
      TotalLength = of_nat (length raw), Path = [], Interface = [], Member = [],
      ErrorName = errorName, ReplySerial = Serial replyTo, Destination = [], Sender = [],
      UnixFDs = 0, Raw = raw, FDs = []\<rparr>"
    unfolding dec_message_def raw_def [symmetric] foldl_error_fields
    using ne tot by (simp add: base_message_def)
  then show ?thesis
    unfolding NewErrorMessage_def Let_def error_body_alt [symmetric] F raw
    using H by simp
qed

end
