(* ===== verification/Command_Context.thy ===== *)
theory Command_Context
  imports Lxg_Prelude
begin

text \<open>
  The invocation context of \<open>command/context.go\<close>: the \<open>Context\<close> struct, \<open>NewContext\<close> and
  \<open>WithContainer\<close>. The process environment (user id, \<open>USER\<close>, \<open>HOME\<close>) is a record the
  constructors read. \<open>append(args[:i], args[i+1:]...)\<close> overwrites the caller's array in
  place; no caller reads that array again, so the model returns the shortened slice only.
\<close>

record Context =
  Container :: string
  Profile :: string
  UID :: string
  User :: string
  Home :: string
  Args :: "string list"

record env =
  env_uid :: string
  env_user :: string
  env_home :: string

text \<open>\<open>strings.HasPrefix(arg, "--")\<close>\<close>

definition is_flag :: "string \<Rightarrow> bool" where
  "is_flag arg \<longleftrightarrow> HasPrefix arg ''--''"

definition profileFlags :: "string list" where
  "profileFlags = [''--privileged'', ''--isolated'', ''--integrated'']"

text \<open>The loop over the profile flags: the profile so far, the remaining arguments.\<close>

fun profile_loop :: "string list \<Rightarrow> string \<Rightarrow> string list \<Rightarrow> string \<times> string list" where
  "profile_loop [] profile args = (profile, args)"
| "profile_loop (flag # flags) profile args =
     (case slices_Index args flag of
        None \<Rightarrow> profile_loop flags profile args
      | Some index \<Rightarrow> profile_loop flags (TrimPrefix flag ''--'') (remove_at args index))"

definition NewContext :: "env \<Rightarrow> string list \<Rightarrow> Context" where
  "NewContext e args =
     (let (profile, args) = profile_loop profileFlags ''integrated'' args
      in \<lparr>Container = [], Profile = profile, UID = env_uid e, User = env_user e,
          Home = env_home e, Args = args\<rparr>)"

text \<open>
  The loop of \<open>WithContainer\<close>: the first argument that is not a flag names the container
  and is removed.
\<close>

fun container_loop :: "string list \<Rightarrow> string list \<Rightarrow> string \<times> string list" where
  "container_loop [] args = (''ubuntu'', args)"
| "container_loop (arg # rest) args =
     (if is_flag arg then container_loop rest args
      else case slices_Index args arg of
        None \<Rightarrow> (arg, args)
      | Some index \<Rightarrow> (arg, remove_at args index))"

definition WithContainer :: "Context \<Rightarrow> Context" where
  "WithContainer ctx =
     (let (container, args) = container_loop (Args ctx) (Args ctx)
      in ctx\<lparr>Container := container, Args := args\<rparr>)"

section \<open>What the two constructors do to the arguments\<close>

lemma profile_loop_cons:
  "profile_loop (flag # flags) profile args =
     profile_loop flags (if flag \<in> set args then TrimPrefix flag ''--'' else profile)
       (remove1 flag args)"
proof (cases "flag \<in> set args")
  case True
  then obtain i where "slices_Index args flag = Some i"
    using slices_Index_None [of args flag] by fastforce
  with True show ?thesis by (simp add: slices_Index_remove1)
next
  case False
  then show ?thesis by (simp add: remove1_idem)
qed

lemma container_loop_all_flags:
  "list_all is_flag xs \<Longrightarrow> container_loop xs args = (''ubuntu'', args)"
  by (induction xs) auto

lemma container_loop_find:
  "container_loop (fs @ c # rest) (fs @ c # rest) = (c, fs @ rest)"
  if "list_all is_flag fs" and "\<not> is_flag c"
proof -
  have "c \<notin> set fs" using that by (auto simp: list_all_iff)
  then have r: "remove1 c (fs @ c # rest) = fs @ rest" by (simp add: remove1_append)
  obtain i where i: "slices_Index (fs @ c # rest) c = Some i"
    using slices_Index_None [of "fs @ c # rest" c] by fastforce
  have "container_loop (xs @ c # rest) args =
      (case slices_Index args c of None \<Rightarrow> (c, args) | Some i \<Rightarrow> (c, remove_at args i))"
    if "list_all is_flag xs" for xs args
    using that \<open>\<not> is_flag c\<close> by (induction xs) auto
  with that(1) i slices_Index_remove1 [OF i] r show ?thesis by simp
qed

end
