(* ===== verification/Dbus_Session.thy ===== *)
theory Dbus_Session
  imports Dbus_Reader Dbus_Rules Dbus_Messages Command_Context
begin

text \<open>
  The router of \<open>container/dbus/router.go\<close>: its state, the client session and every
  handler that changes it. A handler takes the session and a message and returns the new
  session and the error, under an \<open>option\<close> whose \<open>None\<close> is a panic (a nil host
  connection, an index out of range). The three connections and the kernel are part of the
  session record, so each write and each close is visible in the result.

  Go runs the client loop and the two upstream loops of a session in three goroutines; the
  maps are guarded by a mutex. One step of the model is one handler call.
\<close>

section \<open>State\<close>

record router =
  rUID :: string
  RouterSocket :: string
  HostSocket :: string
  ContainerSocket :: string
  serialCounter :: u32

definition NewRouter :: "Context \<Rightarrow> router" where
  "NewRouter ctx =
     \<lparr>rUID = UID ctx,
      RouterSocket = ''/run/user/'' @ UID ctx @ ''/lxg/router'',
      HostSocket = ''/run/user/'' @ UID ctx @ ''/lxg/bus'',
      ContainerSocket = ''/run/user/'' @ UID ctx @ ''/bus'',
      serialCounter = 0\<rparr>"

definition PidFile :: "router \<Rightarrow> string" where
  "PidFile r = RouterSocket r @ ''.pid''"

definition NextSerial :: "router \<Rightarrow> router \<times> u32" where
  "NextSerial r = (let n = serialCounter r + 1 in (r\<lparr>serialCounter := n\<rparr>, n))"

datatype pkind = hostSwallow | hostForward

record pending_call =
  pkind :: pkind
  pmember :: string

record mergeState =
  mmember :: string
  hostMsg :: "message option"
  contMsg :: "message option"

record session =
  srouter :: router
  clientConn :: conn
  hostConn :: "conn option"
  containerConn :: conn
  sessionClosed :: bool
  hostPending :: "u32 \<Rightarrow> pending_call option"
  merges :: "u32 \<Rightarrow> mergeState option"
  hostUniqueNames :: "string set"
  hostUniqueName :: string
  kernel :: os

text \<open>The session of \<open>handleClient\<close> once the upstream connections are made.\<close>

definition new_session :: "router \<Rightarrow> conn \<Rightarrow> conn option \<Rightarrow> conn \<Rightarrow> os \<Rightarrow> session" where
  "new_session r client host container w =
     \<lparr>srouter = r, clientConn = client, hostConn = host, containerConn = container,
      sessionClosed = False, hostPending = Map.empty, merges = Map.empty,
      hostUniqueNames = {}, hostUniqueName = [], kernel = w\<rparr>"

section \<open>Writes\<close>

definition SendToClient :: "session \<Rightarrow> message \<Rightarrow> session \<times> io_error option" where
  "SendToClient s msg =
     (let (c, err) = WriteMessage (clientConn s) msg in (s\<lparr>clientConn := c\<rparr>, err))"

definition SendToContainer :: "session \<Rightarrow> message \<Rightarrow> session \<times> io_error option" where
  "SendToContainer s msg =
     (let (c, err) = WriteMessage (containerConn s) msg in (s\<lparr>containerConn := c\<rparr>, err))"

definition SendToHostConn :: "session \<Rightarrow> message \<Rightarrow> (session \<times> io_error option) option" where
  "SendToHostConn s msg =
     (case hostConn s of
        None \<Rightarrow> None
      | Some c \<Rightarrow> let (c, err) = WriteMessage c msg in Some (s\<lparr>hostConn := Some c\<rparr>, err))"

definition session_CloseFDs :: "session \<Rightarrow> message \<Rightarrow> session \<times> message" where
  "session_CloseFDs s msg =
     (let (m, w) = CloseFDs msg (kernel s) in (s\<lparr>kernel := w\<rparr>, m))"

definition noteHostPending :: "session \<Rightarrow> u32 \<Rightarrow> pkind \<Rightarrow> string \<Rightarrow> session" where
  "noteHostPending s serial k m =
     s\<lparr>hostPending := (hostPending s)(serial \<mapsto> \<lparr>pkind = k, pmember = m\<rparr>)\<rparr>"

definition dropHostPending :: "session \<Rightarrow> u32 \<Rightarrow> session" where
  "dropHostPending s serial = s\<lparr>hostPending := (hostPending s)(serial := None)\<rparr>"

definition rememberHostUnique :: "session \<Rightarrow> string \<Rightarrow> session" where
  "rememberHostUnique s name =
     (if name = [] \<or> \<not> HasPrefix name '':'' then s
      else s\<lparr>hostUniqueNames := insert name (hostUniqueNames s)\<rparr>)"

definition routeDestination :: "session \<Rightarrow> string \<Rightarrow> Target" where
  "routeDestination s destination =
     (if destination = [] then TargetContainer
      else if RouteDestination destination = TargetHost then TargetHost
      else if RouteOwnership destination = TargetHost then TargetHost
      else if destination \<in> hostUniqueNames s then TargetHost
      else TargetContainer)"

definition zero_message :: message where
  "zero_message =
     \<lparr>Endianness = 0, Type = 0, Flags = 0, Version = 0, BodyLength = 0, Serial = 0,
      HeaderLength = 0, TotalLength = 0, Path = [], Interface = [], Member = [], ErrorName = [],
      ReplySerial = 0, Destination = [], Sender = [], UnixFDs = 0, Raw = [], FDs = []\<rparr>"

definition writeHostCopy :: "session \<Rightarrow> message \<Rightarrow> (session \<times> io_error option) option" where
  "writeHostCopy s msg =
     (let (w, dups) = CopyFDs (FDs msg) (kernel s);
          hostMsg = zero_message\<lparr>Raw := Raw msg,
            FDs := (case dups of None \<Rightarrow> [] | Some ds \<Rightarrow> ds)\<rparr>
      in do {
        (s, err) \<leftarrow> SendToHostConn (s\<lparr>kernel := w\<rparr>) hostMsg;
        let (s, _) = session_CloseFDs s hostMsg;
        Some (s, err)
      })"

definition sendToHost :: "session \<Rightarrow> message \<Rightarrow> pkind \<Rightarrow> (session \<times> io_error option) option" where
  "sendToHost s msg k =
     (let s = (if Type msg = TypeMethodCall then noteHostPending s (Serial msg) k (Member msg) else s)
      in do {
        (s, err) \<leftarrow> SendToHostConn s msg;
        Some (if err \<noteq> None \<and> Type msg = TypeMethodCall then dropHostPending s (Serial msg) else s, err)
      })"

section \<open>Messages from the client\<close>

definition dispatchSignal :: "session \<Rightarrow> message \<Rightarrow> (session \<times> io_error option) option" where
  "dispatchSignal s msg =
     (if Destination msg \<noteq> [] then
        (if Destination msg = ''org.freedesktop.DBus'' then Some (SendToContainer s msg)
         else if routeDestination s (Destination msg) = TargetHost \<and> hostConn s \<noteq> None
         then sendToHost s msg hostForward
         else Some (SendToContainer s msg))
      else do {
        s \<leftarrow> (if hostConn s \<noteq> None \<and> Interface msg \<noteq> ''org.freedesktop.DBus''
              then do { (s, _) \<leftarrow> writeHostCopy s msg; Some s }
              else Some s);
        Some (SendToContainer s msg)
      })"

text \<open>
  The three-line pattern of \<open>Hello\<close>, \<open>AddMatch\<close> and \<open>RemoveMatch\<close>: note the call as
  swallowed, copy it to the host, forget it if the copy fails.
\<close>

definition copy_swallowed :: "session \<Rightarrow> message \<Rightarrow> session option" where
  "copy_swallowed s msg =
     do {
       (s, err) \<leftarrow> writeHostCopy (noteHostPending s (Serial msg) hostSwallow (Member msg)) msg;
       Some (if err \<noteq> None then dropHostPending s (Serial msg) else s)
     }"

definition handleDBusManagement :: "session \<Rightarrow> message \<Rightarrow> (session \<times> io_error option) option" where
  "handleDBusManagement s msg =
     (if Member msg = ''Hello'' then do {
        s \<leftarrow> (if hostConn s \<noteq> None then copy_swallowed s msg else Some s);
        Some (SendToContainer s msg)
      }
      else if Member msg \<in> {''AddMatch'', ''RemoveMatch''} then do {
        rule \<leftarrow> extractFirstStringArg msg;
        s \<leftarrow> (if MatchSignalRuleHost rule \<and> hostConn s \<noteq> None then copy_swallowed s msg else Some s);
        Some (SendToContainer s msg)
      }
      else if Member msg \<in> {''RequestName'', ''ReleaseName''} then do {
        name \<leftarrow> extractFirstStringArg msg;
        if RouteOwnership name = TargetHost \<and> hostConn s \<noteq> None
        then sendToHost s msg hostForward
        else Some (SendToContainer s msg)
      }
      else if Member msg \<in> {''GetNameOwner'', ''NameHasOwner'', ''StartServiceByName''} then do {
        name \<leftarrow> extractFirstStringArg msg;
        if routeDestination s name = TargetHost \<and> hostConn s \<noteq> None
        then sendToHost s msg hostForward
        else Some (SendToContainer s msg)
      }
      else if Member msg \<in> {''ListNames'', ''ListActivatableNames''} then
        (if hostConn s \<noteq> None then do {
           let s = s\<lparr>merges := (merges s)(Serial msg \<mapsto>
             \<lparr>mmember = Member msg, hostMsg = None, contMsg = None\<rparr>)\<rparr>;
           (s, err) \<leftarrow> writeHostCopy s msg;
           if err \<noteq> None
           then Some (SendToContainer (s\<lparr>merges := (merges s)(Serial msg := None)\<rparr>) msg)
           else Some (SendToContainer s msg)
         }
         else Some (SendToContainer s msg))
      else if Member msg \<in> {''GetConnectionUnixProcessID'', ''GetConnectionUnixUser'',
          ''GetConnectionCredentials'', ''GetAdtAuditSessionData'',
          ''GetConnectionSELinuxSecurityContext''} then do {
        name \<leftarrow> extractFirstStringArg msg;
        if routeDestination s name = TargetHost \<and> hostConn s \<noteq> None
        then sendToHost s msg hostForward
        else Some (SendToContainer s msg)
      }
      else Some (SendToContainer s msg))"

definition DispatchClientMessage :: "session \<Rightarrow> message \<Rightarrow> (session \<times> io_error option) option" where
  "DispatchClientMessage s msg =
     (if Type msg = TypeSignal then dispatchSignal s msg
      else if Destination msg = ''org.freedesktop.DBus'' then handleDBusManagement s msg
      else if routeDestination s (Destination msg) = TargetHost then
        (if hostConn s \<noteq> None then sendToHost s msg hostForward
         else do {
           let (r, serial) = NextSerial (srouter s);
           errMsg \<leftarrow> NewErrorMessage msg ''org.freedesktop.DBus.Error.ServiceUnknown''
             (''The name '' @ Destination msg @
              '' is a host service but host proxy is unavailable'') serial;
           Some (SendToClient (s\<lparr>srouter := r\<rparr>) errMsg)
         })
      else Some (SendToContainer s msg))"

section \<open>Messages from the two upstream buses\<close>

text \<open>
  The two stored replies are pointers; \<open>merged\<close> is the container's own reply when neither
  is a method return, and closing that reply's descriptors empties its list before it is
  sent. Every other merged reply has no descriptors, so the model empties the list always.
\<close>

definition takeMerge :: "session \<Rightarrow> Target \<Rightarrow> message \<Rightarrow> (session \<times> bool) option" where
  "takeMerge s from msg =
     (case merges s (ReplySerial msg) of
        None \<Rightarrow> Some (s, False)
      | Some st \<Rightarrow>
          let st = (if from = TargetHost then st\<lparr>hostMsg := Some msg\<rparr> else st\<lparr>contMsg := Some msg\<rparr>)
          in (case (hostMsg st, contMsg st) of
                (Some h, Some c) \<Rightarrow> do {
                  let s = s\<lparr>merges := (merges s)(ReplySerial msg := None)\<rparr>;
                  merged \<leftarrow> mergeNameListReplies c h;
                  let (s, _) = session_CloseFDs s h;
                  let (s, _) = session_CloseFDs s c;
                  let (s, _) = SendToClient s (merged\<lparr>FDs := []\<rparr>);
                  Some (s, True)
                }
              | _ \<Rightarrow> Some (s\<lparr>merges := (merges s)(ReplySerial msg \<mapsto> st)\<rparr>, True)))"

definition shouldForwardHostSignal :: "session \<Rightarrow> message \<Rightarrow> (session \<times> bool) option" where
  "shouldForwardHostSignal s msg =
     (if Type msg \<noteq> TypeSignal then Some (s, False)
      else if Sender msg = ''org.freedesktop.DBus'' \<or> Interface msg = ''org.freedesktop.DBus'' then do {
        name \<leftarrow> extractFirstStringArg msg;
        if Member msg \<noteq> ''NameOwnerChanged'' \<and> Member msg \<noteq> ''NameAcquired'' \<and>
           Member msg \<noteq> ''NameLost'' then Some (s, False)
        else if RouteDestination name \<noteq> TargetHost \<and> RouteOwnership name \<noteq> TargetHost
        then Some (s, False)
        else if Member msg = ''NameOwnerChanged'' then do {
          stringsInBody \<leftarrow> extractBodyStrings msg;
          Some (if 3 \<le> length stringsInBody then rememberHostUnique s (stringsInBody ! 2) else s, True)
        }
        else Some (s, True)
      }
      else Some (s, True))"

definition sendAndClose :: "session \<Rightarrow> message \<Rightarrow> session \<times> message \<times> io_error option" where
  "sendAndClose s msg =
     (let (s, err) = SendToClient s msg; (s, m) = session_CloseFDs s msg in (s, m, err))"

definition handleUpstream ::
  "session \<Rightarrow> Target \<Rightarrow> message \<Rightarrow> (session \<times> message \<times> io_error option) option" where
  "handleUpstream s from msg =
     (if Type msg = TypeMethodReturn \<or> Type msg = TypeError then do {
        (s, taken) \<leftarrow> takeMerge s from msg;
        if taken then Some (s, msg, None)
        else if from = TargetContainer then Some (sendAndClose s msg)
        else
          (case hostPending s (ReplySerial msg) of
             None \<Rightarrow> let (s, m) = session_CloseFDs s msg in Some (s, m, None)
           | Some pending \<Rightarrow> do {
               let s = dropHostPending s (ReplySerial msg);
               if pkind pending = hostSwallow then do {
                 s \<leftarrow> (if pmember pending = ''Hello'' \<and> Type msg = TypeMethodReturn then do {
                          name \<leftarrow> extractFirstStringArg msg;
                          Some (rememberHostUnique (s\<lparr>hostUniqueName := name\<rparr>) name)
                        }
                        else Some s);
                 let (s, m) = session_CloseFDs s msg;
                 Some (s, m, None)
               }
               else do {
                 s \<leftarrow> (if pmember pending = ''GetNameOwner'' \<and> Type msg = TypeMethodReturn then do {
                          name \<leftarrow> extractFirstStringArg msg;
                          Some (rememberHostUnique s name)
                        }
                        else Some s);
                 Some (sendAndClose s msg)
               }
             })
      }
      else if from = TargetHost then do {
        (s, forward) \<leftarrow> shouldForwardHostSignal s msg;
        if \<not> forward then let (s, m) = session_CloseFDs s msg in Some (s, m, None)
        else Some (sendAndClose s msg)
      }
      else Some (sendAndClose s msg))"

section \<open>The loops of handleClient\<close>

definition session_Close :: "session \<Rightarrow> session" where
  "session_Close s =
     (if sessionClosed s then s
      else s\<lparr>sessionClosed := True, clientConn := conn_Close (clientConn s),
             hostConn := map_option conn_Close (hostConn s),
             containerConn := conn_Close (containerConn s)\<rparr>)"

text \<open>
  What can happen to a session: one of its three loops reads a message, or a read fails.
  An error ends the loop, and its deferred \<open>session.Close\<close> ends the session.
\<close>

datatype event = FromClient message | FromContainer message | FromHost message | ReadFails

definition upstream_turn :: "session \<Rightarrow> Target \<Rightarrow> message \<Rightarrow> session option" where
  "upstream_turn s from msg =
     do {
       (s, m, err) \<leftarrow> handleUpstream s from msg;
       Some (case err of
           None \<Rightarrow> s
         | Some _ \<Rightarrow> let (s, _) = session_CloseFDs s m in session_Close s)
     }"

definition client_turn :: "session \<Rightarrow> message \<Rightarrow> session option" where
  "client_turn s msg =
     do {
       (s, err) \<leftarrow> DispatchClientMessage s msg;
       let (s, _) = session_CloseFDs s msg;
       Some (case err of None \<Rightarrow> s | Some _ \<Rightarrow> session_Close s)
     }"

fun session_turn :: "session \<Rightarrow> event \<Rightarrow> session option" where
  "session_turn s (FromClient m) = client_turn s m"
| "session_turn s (FromContainer m) = upstream_turn s TargetContainer m"
| "session_turn s (FromHost m) = upstream_turn s TargetHost m"
| "session_turn s ReadFails = Some (session_Close s)"

end
