(* ===== verification/Dbus_Routing.thy ===== *)
theory Dbus_Routing
  imports Dbus_Session
begin

text \<open>
  The client side of a session: where a message from the client goes. \<open>plan\<close> is the
  routing policy as a table, stated without the code's control flow; the lemmas show that
  the handlers deliver exactly what it says, that they never panic, and which parts of the
  session each route leaves alone.
\<close>

section \<open>Messages a reader returns\<close>

definition msg_ok :: "message \<Rightarrow> bool" where
  "msg_ok m \<longleftrightarrow> parsed m \<and> length (Raw m) \<le> MaxMessageSize"

lemma ReadMessage_msg_ok:
  "ReadMessage r = Some (r', Inr m) \<Longrightarrow> msg_ok m \<and> length (FDs m) = unat (UnixFDs m)"
  using ReadMessage_total [of r] by (auto simp: msg_ok_def)

section \<open>The routing policy\<close>

datatype action = DeliverContainer | DeliverHost | DeliverBoth | Refuse

definition host_bound :: "session \<Rightarrow> string \<Rightarrow> bool" where
  "host_bound s dest \<longleftrightarrow>
     dest \<noteq> [] \<and> (RouteDestination dest = TargetHost \<or> RouteOwnership dest = TargetHost \<or>
       dest \<in> hostUniqueNames s)"

text \<open>The calls on the bus itself that involve the host, and when they do.\<close>

definition management_table :: "(string \<times> (session \<Rightarrow> string \<Rightarrow> bool) \<times> action) list" where
  "management_table =
     [(''Hello'', \<lambda>s a. True, DeliverBoth),
      (''AddMatch'', \<lambda>s a. MatchSignalRuleHost a, DeliverBoth),
      (''RemoveMatch'', \<lambda>s a. MatchSignalRuleHost a, DeliverBoth),
      (''RequestName'', \<lambda>s a. RouteOwnership a = TargetHost, DeliverHost),
      (''ReleaseName'', \<lambda>s a. RouteOwnership a = TargetHost, DeliverHost),
      (''GetNameOwner'', host_bound, DeliverHost),
      (''NameHasOwner'', host_bound, DeliverHost),
      (''StartServiceByName'', host_bound, DeliverHost),
      (''ListNames'', \<lambda>s a. True, DeliverBoth),
      (''ListActivatableNames'', \<lambda>s a. True, DeliverBoth),
      (''GetConnectionUnixProcessID'', host_bound, DeliverHost),
      (''GetConnectionUnixUser'', host_bound, DeliverHost),
      (''GetConnectionCredentials'', host_bound, DeliverHost),
      (''GetAdtAuditSessionData'', host_bound, DeliverHost),
      (''GetConnectionSELinuxSecurityContext'', host_bound, DeliverHost)]"

definition management_plan :: "session \<Rightarrow> message \<Rightarrow> action" where
  "management_plan s m =
     (case map_of management_table (Member m) of
        None \<Rightarrow> DeliverContainer
      | Some (cond, act) \<Rightarrow> if cond s (first_string m) then act else DeliverContainer)"

definition plan :: "session \<Rightarrow> message \<Rightarrow> action" where
  "plan s m =
     (let bus = Destination m = ''org.freedesktop.DBus''; host = host_bound s (Destination m)
      in if hostConn s = None
         then (if Type m \<noteq> TypeSignal \<and> \<not> bus \<and> host then Refuse else DeliverContainer)
         else if Type m = TypeSignal then
           (if Destination m = [] then
              (if Interface m = ''org.freedesktop.DBus'' then DeliverContainer else DeliverBoth)
            else if \<not> bus \<and> host then DeliverHost else DeliverContainer)
         else if bus then management_plan s m
         else if host then DeliverHost else DeliverContainer)"

lemma routeDestination_iff [routing]:
  "routeDestination s dest = TargetHost \<longleftrightarrow> host_bound s dest"
  by (simp add: routeDestination_def host_bound_def)

text \<open>Any one of the three reasons is enough: the decision is the maximum of three.\<close>

lemma routeDestination_max [routing]:
  "routeDestination s dest =
     max (RouteDestination dest) (max (RouteOwnership dest)
       (if dest \<noteq> [] \<and> dest \<in> hostUniqueNames s then TargetHost else TargetContainer))"
  by (rule Target_eqI)
    (auto simp: routeDestination_iff host_bound_def max_TargetHost talk.route_empty own.route_empty)

section \<open>The writes\<close>

lemma SendToHostConn_Some:
  "hostConn s = Some c \<Longrightarrow>
   \<exists>c' e. WriteMessage c m = (c', e) \<and> SendToHostConn s m = Some (s\<lparr>hostConn := Some c'\<rparr>, e)"
  by (cases "WriteMessage c m") (simp add: SendToHostConn_def)

text \<open>
  The host copy changes the host connection and the kernel only, and every descriptor it
  duplicates it closes again.
\<close>

lemma writeHostCopy_effect:
  assumes "hostConn s = Some c"
  shows "\<exists>c' w' e ds new tail. writeHostCopy s m = Some (s\<lparr>hostConn := Some c', kernel := w'\<rparr>, e) \<and>
    WriteMessage c (zero_message\<lparr>Raw := Raw m, FDs := ds\<rparr>) = (c', e) \<and>
    (ds = [] \<or> length ds = length (FDs m)) \<and>
    dupScript (kernel s) = map Some new @ tail \<and> (tail = dupScript w' \<or> tail = None # dupScript w') \<and>
    (set ds \<subseteq> set new) \<and>
    ((\<forall>d \<in> set new. 0 \<le> d) \<longrightarrow> closedFDs w' = closedFDs (kernel s) @ new)"
proof -
  obtain w1 r where cp: "CopyFDs (FDs m) (kernel s) = (w1, r)" by fastforce
  define ds where "ds = (case r of None \<Rightarrow> [] | Some ds \<Rightarrow> ds)"
  let ?hm = "zero_message\<lparr>Raw := Raw m, FDs := ds\<rparr>"
  obtain c' e where wm: "WriteMessage c ?hm = (c', e)" by fastforce
  have res: "writeHostCopy s m =
      Some (s\<lparr>hostConn := Some c', kernel := close_loop ds w1\<rparr>, e)"
    using assms wm
    by (simp add: writeHostCopy_def cp ds_def [symmetric] SendToHostConn_def session_CloseFDs_def
        CloseFDs_def zero_message_def)
  obtain new where n: "(r = Some new \<and> closedFDs w1 = closedFDs (kernel s) \<and>
        length new = length (FDs m) \<and> dupScript (kernel s) = map Some new @ dupScript w1) \<or>
     (r = None \<and> closedFDs w1 = closedFDs (kernel s) @ new \<and>
       (dupScript (kernel s) = map Some new @ None # dupScript w1 \<or>
        dupScript (kernel s) = map Some new \<and> dupScript w1 = []))"
    using CopyFDs_effect [OF cp] by blast
  have f: "filter ((\<le>) 0) new = new" if "\<forall>d \<in> set new. 0 \<le> d"
    using that by (simp add: filter_id_conv)
  show ?thesis
    using n f wm res
    by (intro exI [of _ c'] exI [of _ "close_loop ds w1"] exI [of _ e] exI [of _ ds] exI [of _ new]
        exI [of _ "if r = None \<and> dupScript (kernel s) \<noteq> map Some new
          then None # dupScript w1 else dupScript w1"])
      (auto simp: ds_def)
qed

lemma copy_swallowed_effect:
  assumes "hostConn s = Some c"
  shows "\<exists>c' w' hp. copy_swallowed s m = Some (s\<lparr>hostPending := hp, hostConn := Some c', kernel := w'\<rparr>) \<and>
    hp \<in> {(hostPending s)(Serial m \<mapsto> \<lparr>pkind = hostSwallow, pmember = Member m\<rparr>),
          (hostPending s)(Serial m := None)}"
proof -
  let ?s = "noteHostPending s (Serial m) hostSwallow (Member m)"
  have "hostConn ?s = Some c" using assms by (simp add: noteHostPending_def)
  from writeHostCopy_effect [OF this, of m]
  obtain c' w' e where "writeHostCopy ?s m = Some (?s\<lparr>hostConn := Some c', kernel := w'\<rparr>, e)"
    by blast
  then have "copy_swallowed s m = Some (s\<lparr>hostPending :=
      (if e = None then (hostPending s)(Serial m \<mapsto> \<lparr>pkind = hostSwallow, pmember = Member m\<rparr>)
       else (hostPending s)(Serial m := None)), hostConn := Some c', kernel := w'\<rparr>)"
    by (cases e) (simp_all add: copy_swallowed_def noteHostPending_def dropHostPending_def)
  then show ?thesis by auto
qed

section \<open>Every connection healthy\<close>

definition healthy_session :: "session \<Rightarrow> bool" where
  "healthy_session s \<longleftrightarrow> healthy (clientConn s) \<and> healthy (containerConn s) \<and>
     (\<forall>c. hostConn s = Some c \<longrightarrow> healthy c)"

definition host_out :: "session \<Rightarrow> (byte list \<times> int list) list" where
  "host_out s = (case hostConn s of None \<Rightarrow> [] | Some c \<Rightarrow> outbox c)"

text \<open>From \<open>s\<close> to \<open>t\<close> exactly these entries were written to the three connections.\<close>

definition delivered ::
  "session \<Rightarrow> session \<Rightarrow> (byte list \<times> int list) list \<Rightarrow> (byte list \<times> int list) list \<Rightarrow>
   (byte list \<times> int list) list \<Rightarrow> bool" where
  "delivered s t cl ho co \<longleftrightarrow>
     outbox (clientConn t) = outbox (clientConn s) @ cl \<and>
     host_out t = host_out s @ ho \<and>
     outbox (containerConn t) = outbox (containerConn s) @ co \<and>
     (hostConn t = None \<longleftrightarrow> hostConn s = None) \<and> healthy_session t"

lemma delivered_container:
  assumes "healthy_session s"
  shows "\<exists>t. SendToContainer s m = (t, None) \<and> delivered s t [] [] [(Raw m, FDs m)]"
  using assms WriteMessage_healthy [of "containerConn s" m]
  by (auto simp: SendToContainer_def delivered_def healthy_session_def host_out_def)

lemma delivered_client:
  assumes "healthy_session s"
  shows "\<exists>t. SendToClient s m = (t, None) \<and> delivered s t [(Raw m, FDs m)] [] []"
  using assms WriteMessage_healthy [of "clientConn s" m]
  by (auto simp: SendToClient_def delivered_def healthy_session_def host_out_def)

lemma delivered_sendToHost:
  assumes "healthy_session s" and "hostConn s \<noteq> None"
  shows "\<exists>t. sendToHost s m k = Some (t, None) \<and> delivered s t [] [(Raw m, FDs m)] []"
proof -
  obtain c where c: "hostConn s = Some c" "healthy c"
    using assms by (auto simp: healthy_session_def)
  obtain c' where "WriteMessage c m = (c', None)" "healthy c'" "outbox c' = outbox c @ [(Raw m, FDs m)]"
    using WriteMessage_healthy [OF c(2)] by blast
  with c assms(1) show ?thesis
    by (auto simp: sendToHost_def SendToHostConn_def noteHostPending_def delivered_def
        healthy_session_def host_out_def Let_def)
qed

lemma delivered_copy:
  assumes "healthy_session s" and "hostConn s \<noteq> None"
  shows "\<exists>t ds. writeHostCopy s m = Some (t, None) \<and> delivered s t [] [(Raw m, ds)] [] \<and>
    (ds = [] \<or> length ds = length (FDs m))"
proof -
  obtain c where c: "hostConn s = Some c" "healthy c"
    using assms by (auto simp: healthy_session_def)
  obtain c' w' e ds where *: "writeHostCopy s m = Some (s\<lparr>hostConn := Some c', kernel := w'\<rparr>, e)"
    "WriteMessage c (zero_message\<lparr>Raw := Raw m, FDs := ds\<rparr>) = (c', e)"
    "ds = [] \<or> length ds = length (FDs m)"
    using writeHostCopy_effect [OF c(1), of m] by blast
  obtain "e = None" "healthy c'" "outbox c' = outbox c @ [(Raw m, ds)]"
    using WriteMessage_healthy [OF c(2), of "zero_message\<lparr>Raw := Raw m, FDs := ds\<rparr>"] *(2) by auto
  with * c assms show ?thesis
    by (auto simp: delivered_def healthy_session_def host_out_def)
qed

lemma delivered_then_container:
  assumes "delivered s t [] ho []"
  shows "\<exists>u. SendToContainer t m = (u, None) \<and> delivered s u [] ho [(Raw m, FDs m)]"
  using delivered_container [of t m] assms by (auto simp: delivered_def)

lemma healthy_fields [simp]:
  "healthy_session (s\<lparr>hostPending := hp\<rparr>) = healthy_session s"
  "healthy_session (s\<lparr>merges := mg\<rparr>) = healthy_session s"
  "healthy_session (s\<lparr>srouter := r\<rparr>) = healthy_session s"
  "delivered (s\<lparr>hostPending := hp\<rparr>) t cl ho co = delivered s t cl ho co"
  "delivered (s\<lparr>merges := mg\<rparr>) t cl ho co = delivered s t cl ho co"
  "delivered (s\<lparr>srouter := r\<rparr>) t cl ho co = delivered s t cl ho co"
  by (simp_all add: healthy_session_def delivered_def host_out_def)

lemma delivered_copy_swallowed:
  assumes "healthy_session s" and "hostConn s \<noteq> None"
  shows "\<exists>t ds. copy_swallowed s m = Some t \<and> delivered s t [] [(Raw m, ds)] [] \<and>
    (ds = [] \<or> length ds = length (FDs m))"
  using delivered_copy [of "noteHostPending s (Serial m) hostSwallow (Member m)" m] assms
  by (auto simp: copy_swallowed_def noteHostPending_def)

section \<open>The handlers implement the policy\<close>

text \<open>What each action of the policy delivers.\<close>

definition carries_out :: "action \<Rightarrow> session \<Rightarrow> message \<Rightarrow> session \<Rightarrow> bool" where
  "carries_out act s m t \<longleftrightarrow>
     (case act of
        DeliverContainer \<Rightarrow> delivered s t [] [] [(Raw m, FDs m)]
      | DeliverHost \<Rightarrow> delivered s t [] [(Raw m, FDs m)] []
      | DeliverBoth \<Rightarrow> \<exists>ds. delivered s t [] [(Raw m, ds)] [(Raw m, FDs m)] \<and>
          (ds = [] \<or> length ds = length (FDs m))
      | Refuse \<Rightarrow> \<exists>e. NewErrorMessage m ''org.freedesktop.DBus.Error.ServiceUnknown''
            (''The name '' @ Destination m @ '' is a host service but host proxy is unavailable'')
            (serialCounter (srouter s) + 1) = Some e \<and> delivered s t [(Raw e, FDs e)] [] [])"

lemma container_carries_out:
  "healthy_session s \<Longrightarrow>
   \<exists>t. SendToContainer s m = (t, None) \<and> carries_out DeliverContainer s m t"
  using delivered_container by (simp add: carries_out_def)

lemma host_carries_out:
  "healthy_session s \<Longrightarrow> hostConn s \<noteq> None \<Longrightarrow>
   \<exists>t. sendToHost s m hostForward = Some (t, None) \<and> carries_out DeliverHost s m t"
  using delivered_sendToHost by (simp add: carries_out_def)

lemma signal_carries_out:
  assumes h: "healthy_session s" and t: "Type m = TypeSignal"
  shows "\<exists>t. dispatchSignal s m = Some (t, None) \<and> carries_out (plan s m) s m t"
proof (cases "Destination m = [] \<and> hostConn s \<noteq> None \<and> Interface m \<noteq> ''org.freedesktop.DBus''")
  case True
  then obtain t ds where "writeHostCopy s m = Some (t, None)" "delivered s t [] [(Raw m, ds)] []"
    "ds = [] \<or> length ds = length (FDs m)"
    using delivered_copy [OF h] by blast
  moreover from this delivered_then_container obtain u where
    "SendToContainer t m = (u, None)" "delivered s u [] [(Raw m, ds)] [(Raw m, FDs m)]" by blast
  ultimately show ?thesis
    using True t by (auto simp: dispatchSignal_def plan_def carries_out_def Let_def)
next
  case False
  then show ?thesis
    using container_carries_out [OF h, of m] host_carries_out [OF h, of m] t
    by (auto simp: dispatchSignal_def plan_def Let_def routeDestination_iff host_bound_def)
qed

lemma copy_container_carries_out:
  assumes "healthy_session s" and "hostConn s \<noteq> None"
  shows "\<exists>t. (do { s \<leftarrow> copy_swallowed s m; Some (SendToContainer s m) }) = Some (t, None) \<and>
    carries_out DeliverBoth s m t"
proof -
  obtain t ds where "copy_swallowed s m = Some t" "delivered s t [] [(Raw m, ds)] []"
    "ds = [] \<or> length ds = length (FDs m)"
    using delivered_copy_swallowed [OF assms] by blast
  moreover from this delivered_then_container obtain u where
    "SendToContainer t m = (u, None)" "delivered s u [] [(Raw m, ds)] [(Raw m, FDs m)]" by blast
  ultimately show ?thesis by (auto simp: carries_out_def)
qed

lemma list_carries_out:
  assumes "healthy_session s" and "hostConn s \<noteq> None"
  shows "\<exists>t u. writeHostCopy (s\<lparr>merges := mg\<rparr>) m = Some (t, None) \<and>
    SendToContainer t m = (u, None) \<and> carries_out DeliverBoth s m u"
proof -
  obtain t ds where "writeHostCopy (s\<lparr>merges := mg\<rparr>) m = Some (t, None)"
    "delivered s t [] [(Raw m, ds)] []" "ds = [] \<or> length ds = length (FDs m)"
    using delivered_copy [of "s\<lparr>merges := mg\<rparr>" m] assms by auto
  moreover from this delivered_then_container obtain u where
    "SendToContainer t m = (u, None)" "delivered s u [] [(Raw m, ds)] [(Raw m, FDs m)]" by blast
  ultimately show ?thesis by (auto simp: carries_out_def)
qed

lemma management_carries_out:
  assumes h: "healthy_session s"
  shows "\<exists>t. handleDBusManagement s m = Some (t, None) \<and>
    carries_out (if hostConn s = None then DeliverContainer else management_plan s m) s m t"
proof (cases "hostConn s")
  case None
  then show ?thesis
    using container_carries_out [OF h, of m]
    by (auto simp: handleDBusManagement_def)
next
  case (Some c)
  then show ?thesis
    using container_carries_out [OF h, of m] host_carries_out [OF h, of m]
      copy_container_carries_out [OF h, of m]
      list_carries_out [OF h, of "(merges s)(Serial m \<mapsto> \<lparr>mmember = Member m, hostMsg = None, contMsg = None\<rparr>)" m]
    by (auto simp: handleDBusManagement_def management_plan_def management_table_def
        routeDestination_iff)
qed

section \<open>DispatchClientMessage\<close>

text \<open>The error reply exists for every message a reader returns.\<close>

lemma length_enc_entry_fields:
  "length (enc_fields LittleEndian [] (error_fields m n)) \<le> 100 + length n + length (Sender m)"
proof -
  have a: "align k 8 \<le> k + 7" for k using align_less [of 8 k] by simp
  have e: "length (append_entry LittleEndian buf f) \<le> length buf + 7 + length (enc_entry LittleEndian f)"
    for buf f using a [of "length buf"] by (simp add: append_entry_def)
  show ?thesis
    using e [of "[]" "StrField HeaderErrorName n"]
      e [of "append_entry LittleEndian [] (StrField HeaderErrorName n)"
          "U32Field HeaderReplySerial (Serial m)"]
      e [of "append_entry LittleEndian (append_entry LittleEndian [] (StrField HeaderErrorName n))
          (U32Field HeaderReplySerial (Serial m))" "StrField HeaderDestination (Sender m)"]
      e [of "append_entry LittleEndian (append_entry LittleEndian (append_entry LittleEndian []
          (StrField HeaderErrorName n)) (U32Field HeaderReplySerial (Serial m)))
          (StrField HeaderDestination (Sender m))" "SigField HeaderSignature ''s''"]
      e [of "append_entry LittleEndian (append_entry LittleEndian [] (StrField HeaderErrorName n))
          (U32Field HeaderReplySerial (Serial m))" "SigField HeaderSignature ''s''"]
    by (auto simp: enc_fields_def error_fields_def)
qed

lemma error_fields_fit:
  assumes "msg_ok m" and "length n < 1000"
  shows "message_fits LittleEndian (error_fields m n)"
proof -
  have "length (Sender m) \<le> MaxMessageSize"
    using assms(1) by (simp add: msg_ok_def parsed_def)
  then show ?thesis
    using assms(2) length_enc_entry_fields [of m n]
    by (auto simp: message_fits_def error_fields_def)
qed

lemma refusal_exists:
  assumes "msg_ok m"
  shows "\<exists>e. NewErrorMessage m ''org.freedesktop.DBus.Error.ServiceUnknown'' text serial = Some e"
  using NewErrorMessage_dec [OF error_fields_fit [OF assms, of "''org.freedesktop.DBus.Error.ServiceUnknown''"]]
  by simp

lemma dispatch_carries_out:
  assumes h: "healthy_session s" and m: "msg_ok m"
  shows "\<exists>t. DispatchClientMessage s m = Some (t, None) \<and> carries_out (plan s m) s m t"
proof -
  consider "Type m = TypeSignal" | "Type m \<noteq> TypeSignal" "Destination m = ''org.freedesktop.DBus''"
    | "Type m \<noteq> TypeSignal" "Destination m \<noteq> ''org.freedesktop.DBus''" by blast
  then show ?thesis
  proof cases
    case 1
    with signal_carries_out [OF h 1] show ?thesis by (simp add: DispatchClientMessage_def)
  next
    case 2
    then have "plan s m = (if hostConn s = None then DeliverContainer else management_plan s m)"
      by (simp add: plan_def Let_def)
    with 2 management_carries_out [OF h, of m] show ?thesis
      by (simp add: DispatchClientMessage_def)
  next
    case 3
    show ?thesis
    proof (cases "host_bound s (Destination m) \<and> hostConn s = None")
      case True
      let ?n = "serialCounter (srouter s) + 1"
      let ?s = "s\<lparr>srouter := (srouter s)\<lparr>serialCounter := ?n\<rparr>\<rparr>"
      obtain e where e: "NewErrorMessage m ''org.freedesktop.DBus.Error.ServiceUnknown''
          (''The name '' @ Destination m @ '' is a host service but host proxy is unavailable'') ?n = Some e"
        using refusal_exists [OF m] by blast
      obtain t where "SendToClient ?s e = (t, None)" "delivered ?s t [(Raw e, FDs e)] [] []"
        using delivered_client [of ?s e] h by auto
      with True 3 e show ?thesis
        by (simp add: DispatchClientMessage_def plan_def carries_out_def routeDestination_iff
            NextSerial_def Let_def)
    next
      case False
      then show ?thesis
        using 3 container_carries_out [OF h, of m] host_carries_out [OF h, of m]
        by (auto simp: DispatchClientMessage_def plan_def routeDestination_iff Let_def)
    qed
  qed
qed

section \<open>The handler each action calls\<close>

text \<open>
  Whatever the writes do, a message the policy keeps in the container is one write to the
  container connection, and one it sends to the host is one \<open>sendToHost\<close>.
\<close>

lemma management_handler:
  assumes "hostConn s \<noteq> None"
  shows "management_plan s m = DeliverContainer \<Longrightarrow>
      handleDBusManagement s m = Some (SendToContainer s m)"
    and "management_plan s m = DeliverHost \<Longrightarrow>
      handleDBusManagement s m = sendToHost s m hostForward"
  using assms
  by (simp_all add: handleDBusManagement_def management_plan_def management_table_def
      routeDestination_iff split: if_split_asm)

lemma management_no_host:
  "hostConn s = None \<Longrightarrow> handleDBusManagement s m = Some (SendToContainer s m)"
  by (simp add: handleDBusManagement_def)

lemma plan_handler:
  shows "plan s m = DeliverContainer \<Longrightarrow> DispatchClientMessage s m = Some (SendToContainer s m)"
    and "plan s m = DeliverHost \<Longrightarrow> DispatchClientMessage s m = sendToHost s m hostForward"
  using management_handler [of s m] management_no_host [of s m]
  by (auto simp: DispatchClientMessage_def dispatchSignal_def plan_def routeDestination_iff Let_def
      host_bound_def split: if_split_asm)

lemma SendToContainer_frame:
  "SendToContainer s m = (t, e) \<Longrightarrow> \<exists>c. t = s\<lparr>containerConn := c\<rparr>"
  by (auto simp: SendToContainer_def split: prod.splits)

lemma SendToClient_frame:
  "SendToClient s m = (t, e) \<Longrightarrow> \<exists>c. t = s\<lparr>clientConn := c\<rparr>"
  by (auto simp: SendToClient_def split: prod.splits)

text \<open>What a call that goes to the host alone changes, whatever the write does.\<close>

lemma sendToHost_call:
  assumes "hostConn s = Some c" and "Type m = TypeMethodCall" and "WriteMessage c m = (c', e)"
  shows "sendToHost s m k = Some (s\<lparr>hostConn := Some c', hostPending := (hostPending s)(Serial m :=
    if e = None then Some \<lparr>pkind = k, pmember = Member m\<rparr> else None)\<rparr>, e)"
  using assms by (simp add: sendToHost_def SendToHostConn_def noteHostPending_def dropHostPending_def Let_def)

text \<open>
  A call that adds or removes a match rule: copied to the host, where its answer will be swallowed,
  if the rule mentions a host service, and delivered to the container in any case.
\<close>

lemma match_call_delivered:
  assumes "healthy_session s" and "hostConn s \<noteq> None" and "Type m = TypeMethodCall"
    and "Destination m = ''org.freedesktop.DBus''" and "Member m \<in> {''AddMatch'', ''RemoveMatch''}"
  shows "\<exists>t. DispatchClientMessage s m = Some (t, None) \<and>
    (if MatchSignalRuleHost (first_string m)
     then hostPending t = (hostPending s)(Serial m \<mapsto> \<lparr>pkind = hostSwallow, pmember = Member m\<rparr>) \<and>
       (\<exists>ds. delivered s t [] [(Raw m, ds)] [(Raw m, FDs m)] \<and> (ds = [] \<or> length ds = length (FDs m)))
     else hostPending t = hostPending s \<and> delivered s t [] [] [(Raw m, FDs m)])"
proof (cases "MatchSignalRuleHost (first_string m)")
  case False
  have "DispatchClientMessage s m = Some (SendToContainer s m)"
    using assms False by (auto simp: DispatchClientMessage_def handleDBusManagement_def)
  moreover obtain t where t: "SendToContainer s m = (t, None)" "delivered s t [] [] [(Raw m, FDs m)]"
    using delivered_container [OF assms(1)] by blast
  moreover have "hostPending t = hostPending s" using SendToContainer_frame [OF t(1)] by auto
  ultimately show ?thesis using False by simp
next
  case True
  obtain c where c: "hostConn s = Some c" using assms(2) by blast
  let ?n = "noteHostPending s (Serial m) hostSwallow (Member m)"
  have n: "healthy_session ?n" "hostConn ?n = Some c" using assms(1) c by (simp_all add: noteHostPending_def)
  then obtain u ds where w: "writeHostCopy ?n m = Some (u, None)" "delivered ?n u [] [(Raw m, ds)] []"
    "ds = [] \<or> length ds = length (FDs m)" using delivered_copy [of ?n m] by auto
  have u: "hostPending u = (hostPending s)(Serial m \<mapsto> \<lparr>pkind = hostSwallow, pmember = Member m\<rparr>)"
    using writeHostCopy_effect [OF n(2), of m] w(1) by (auto simp: noteHostPending_def)
  have "delivered s u [] [(Raw m, ds)] []" using w(2) by (simp add: noteHostPending_def)
  from delivered_then_container [OF this] obtain t where
    t: "SendToContainer u m = (t, None)" "delivered s t [] [(Raw m, ds)] [(Raw m, FDs m)]" by blast
  have "DispatchClientMessage s m = Some (t, None)"
    using assms c True w(1) t(1) by (auto simp: DispatchClientMessage_def handleDBusManagement_def copy_swallowed_def)
  moreover have "hostPending t = hostPending u" using SendToContainer_frame [OF t(1)] by auto
  ultimately show ?thesis using True t(2) u w(3) by auto
qed

end
