(* ===== verification/Dbus_Session_Laws.thy ===== *)
theory Dbus_Session_Laws
  imports Dbus_Routing
begin

text \<open>
  Properties that every step of a session keeps. A property that relates the session before
  and after a step is a relation; the locale \<open>client_relation\<close> lists the primitive state
  changes a handler makes, and a relation closed under them holds across
  \<open>DispatchClientMessage\<close>. \<open>session_relation\<close> adds the changes of the upstream side and gives
  \<open>session_turn\<close>. Each property of the session is then an interpretation, which checks the
  primitive changes only. \<open>P\<close> restricts the serials: a handler only touches the map entries
  of the call or reply it handles, so a relation may speak of the entries of all other calls.
\<close>

section \<open>Relations kept by the client side\<close>

locale client_relation =
  fixes R :: "session \<Rightarrow> session \<Rightarrow> bool"
    and P :: "u32 \<Rightarrow> bool"
  assumes R_refl: "R s s"
    and R_trans: "R s t \<Longrightarrow> R t u \<Longrightarrow> R s u"
    and R_client: "SendToClient s m = (t, e) \<Longrightarrow> R s t"
    and R_container: "SendToContainer s m = (t, e) \<Longrightarrow> R s t"
    and R_host: "SendToHostConn s m = Some (t, e) \<Longrightarrow> R s t"
    and R_copy: "writeHostCopy s m = Some (t, e) \<Longrightarrow> R s t"
    and R_router: "R s (s\<lparr>srouter := r\<rparr>)"
    and R_note: "P n \<Longrightarrow> hostConn s \<noteq> None \<Longrightarrow> R s (noteHostPending s n k mem)"
    and R_drop: "P n \<Longrightarrow> R s (dropHostPending s n)"
    and R_merge_new: "P n \<Longrightarrow> hostConn s \<noteq> None \<Longrightarrow>
      R s (s\<lparr>merges := (merges s)(n \<mapsto> \<lparr>mmember = mem, hostMsg = None, contMsg = None\<rparr>)\<rparr>)"
    and R_merge_drop: "P n \<Longrightarrow> R s (s\<lparr>merges := (merges s)(n := None)\<rparr>)"

context client_relation
begin

lemma R_container': "Some (SendToContainer s m) = Some (t, e) \<Longrightarrow> R s t"
  using R_container [of s m t e] by simp

lemma R_sendToHost:
  assumes h: "hostConn s \<noteq> None" and st: "sendToHost s m k = Some (t, e)" and P: "P (Serial m)"
  shows "R s t"
proof -
  let ?s = "if Type m = TypeMethodCall then noteHostPending s (Serial m) k (Member m) else s"
  from st obtain u where u: "SendToHostConn ?s m = Some (u, e)"
    and t: "t = (if e \<noteq> None \<and> Type m = TypeMethodCall then dropHostPending u (Serial m) else u)"
    by (auto simp: sendToHost_def Let_def split: bind_splits if_splits)
  have "R s ?s" using h P R_note R_refl by simp
  with R_host [OF u] have "R s u" using R_trans by blast
  then show ?thesis using t R_drop [OF P, of u] R_trans by auto
qed

lemma R_copy_swallowed:
  assumes h: "hostConn s \<noteq> None" and st: "copy_swallowed s m = Some t" and P: "P (Serial m)"
  shows "R s t"
proof -
  let ?s = "noteHostPending s (Serial m) hostSwallow (Member m)"
  from st obtain u e where u: "writeHostCopy ?s m = Some (u, e)"
    and t: "t = (if e \<noteq> None then dropHostPending u (Serial m) else u)"
    by (auto simp: copy_swallowed_def split: bind_splits)
  have "R s u" using R_note [OF P h] R_copy [OF u] R_trans by blast
  then show ?thesis using t R_drop [OF P, of u] R_trans by auto
qed

lemma R_dispatchSignal:
  assumes "dispatchSignal s m = Some (t, e)" and "P (Serial m)"
  shows "R s t"
proof (cases "Destination m = [] \<and> hostConn s \<noteq> None \<and> Interface m \<noteq> ''org.freedesktop.DBus''")
  case True
  with assms obtain u e' where "writeHostCopy s m = Some (u, e')" "SendToContainer u m = (t, e)"
    by (auto simp: dispatchSignal_def split: bind_splits)
  with R_copy R_container R_trans show ?thesis by blast
next
  case False
  then show ?thesis
    using assms R_sendToHost [of s m hostForward t e] R_container [of s m t e]
    by (auto simp: dispatchSignal_def split: if_splits)
qed

lemma R_swallow_then_container:
  assumes "(do { s \<leftarrow> (if c \<and> hostConn s \<noteq> None then copy_swallowed s m else Some s);
    Some (SendToContainer s m) }) = Some (t, e)" and P: "P (Serial m)"
  shows "R s t"
proof -
  from assms(1) obtain u where u: "(if c \<and> hostConn s \<noteq> None then copy_swallowed s m else Some s) = Some u"
    and t: "SendToContainer u m = (t, e)"
    by (auto split: bind_splits)
  have "R s u" using u P R_refl R_copy_swallowed by (auto split: if_splits)
  with R_container [OF t] R_trans show ?thesis by blast
qed

lemma R_list:
  assumes h: "hostConn s \<noteq> None" and P: "P n"
    and w: "writeHostCopy (s\<lparr>merges := (merges s)(n \<mapsto>
       \<lparr>mmember = mem, hostMsg = None, contMsg = None\<rparr>)\<rparr>) m = Some (u, e')"
    and t: "SendToContainer (if e' \<noteq> None then u\<lparr>merges := (merges u)(n := None)\<rparr> else u) m = (t, e)"
  shows "R s t"
proof -
  have "R s u" using R_merge_new [OF P h] R_copy [OF w] R_trans by blast
  moreover have "R u (if e' \<noteq> None then u\<lparr>merges := (merges u)(n := None)\<rparr> else u)"
    using P R_merge_drop R_refl by simp
  ultimately show ?thesis using R_container [OF t] R_trans by blast
qed

text \<open>The two answers of a call that names a bus name.\<close>

lemma R_host_or_container:
  assumes "(if c \<and> hostConn s \<noteq> None then sendToHost s m hostForward
    else Some (SendToContainer s m)) = Some (t, e)" and "P (Serial m)"
  shows "R s t"
  using assms R_sendToHost [of s m hostForward t e] R_container [of s m t e] by (auto split: if_splits)

lemma R_if:
  "(if c then x else y) = Some (t, e) \<Longrightarrow> (c \<Longrightarrow> x = Some (t, e) \<Longrightarrow> R s t) \<Longrightarrow>
   (\<not> c \<Longrightarrow> y = Some (t, e) \<Longrightarrow> R s t) \<Longrightarrow> R s t"
  by (cases c) auto

lemma R_list_call:
  assumes P: "P n" and h: "hostConn s \<noteq> None" and d: "(do {
           let s = s\<lparr>merges := (merges s)(n \<mapsto> \<lparr>mmember = mem, hostMsg = None, contMsg = None\<rparr>)\<rparr>;
           (s, err) \<leftarrow> writeHostCopy s m;
           if err \<noteq> None
           then Some (SendToContainer (s\<lparr>merges := (merges s)(n := None)\<rparr>) m)
           else Some (SendToContainer s m)
         }) = Some (t, e)"
  shows "R s t"
proof -
  let ?s = "s\<lparr>merges := (merges s)(n \<mapsto> \<lparr>mmember = mem, hostMsg = None, contMsg = None\<rparr>)\<rparr>"
  obtain u e' where w: "writeHostCopy ?s m = Some (u, e')"
    and t: "SendToContainer (if e' \<noteq> None then u\<lparr>merges := (merges u)(n := None)\<rparr> else u) m = (t, e)"
    using d by (auto split: bind_splits if_splits)
  show ?thesis by (rule R_list [OF h P w t])
qed

lemma R_management:
  assumes d: "handleDBusManagement s m = Some (t, e)" and P: "P (Serial m)"
  shows "R s t"
  using d unfolding handleDBusManagement_def extractFirstStringArg_eq Option.bind.bind_lunit
proof (elim R_if [of _ _ _ t e], goal_cases)
  case 1
  then show ?case using R_swallow_then_container [of True s m t e] P by simp
next
  case 2
  from this(3) P show ?case by (rule R_swallow_then_container)
qed (erule (1) R_list_call [OF P] | erule R_container' | (rule R_sendToHost [OF _ _ P], blast, assumption))+

lemma R_dispatch:
  assumes d: "DispatchClientMessage s m = Some (t, e)" and P: "P (Serial m)"
  shows "R s t"
proof -
  consider "dispatchSignal s m = Some (t, e)" | "handleDBusManagement s m = Some (t, e)"
    | "hostConn s \<noteq> None" "sendToHost s m hostForward = Some (t, e)"
    | "SendToContainer s m = (t, e)"
    | r em where "SendToClient (s\<lparr>srouter := r\<rparr>) em = (t, e)"
    using d
    by (auto simp: DispatchClientMessage_def NextSerial_def Let_def split: if_splits bind_splits)
  then show ?thesis
    using P R_dispatchSignal R_management R_sendToHost R_container
    by cases (blast intro: R_trans [OF R_router R_client])+
qed

end

section \<open>Relations kept by every step of a session\<close>

text \<open>
  An event the loops can produce: messages come from a reader, and from the host only on a
  session that has a host connection.
\<close>

fun admissible :: "session \<Rightarrow> event \<Rightarrow> bool" where
  "admissible s (FromClient m) \<longleftrightarrow> msg_ok m"
| "admissible s (FromContainer m) \<longleftrightarrow> msg_ok m"
| "admissible s (FromHost m) \<longleftrightarrow> msg_ok m \<and> hostConn s \<noteq> None"
| "admissible s ReadFails \<longleftrightarrow> True"

text \<open>The call an event is about: a call's own serial, a reply's reply serial.\<close>

fun touches :: "u32 \<Rightarrow> event \<Rightarrow> bool" where
  "touches n (FromClient m) \<longleftrightarrow> Serial m = n"
| "touches n (FromContainer m) \<longleftrightarrow> (Type m = TypeMethodReturn \<or> Type m = TypeError) \<and> ReplySerial m = n"
| "touches n (FromHost m) \<longleftrightarrow> (Type m = TypeMethodReturn \<or> Type m = TypeError) \<and> ReplySerial m = n"
| "touches n ReadFails \<longleftrightarrow> False"

locale session_relation = client_relation +
  assumes R_close: "R s (fst (session_CloseFDs s m))"
    and R_remember: "hostConn s \<noteq> None \<Longrightarrow> R s (rememberHostUnique s n)"
    and R_uname: "R s (s\<lparr>hostUniqueName := n\<rparr>)"
    and R_store_host: "P k \<Longrightarrow> merges s k = Some st \<Longrightarrow> contMsg st = None \<Longrightarrow> msg_ok m \<Longrightarrow> hostConn s \<noteq> None \<Longrightarrow>
      R s (s\<lparr>merges := (merges s)(k \<mapsto> st\<lparr>hostMsg := Some m\<rparr>)\<rparr>)"
    and R_store_container: "P k \<Longrightarrow> merges s k = Some st \<Longrightarrow> hostMsg st = None \<Longrightarrow> msg_ok m \<Longrightarrow>
      R s (s\<lparr>merges := (merges s)(k \<mapsto> st\<lparr>contMsg := Some m\<rparr>)\<rparr>)"
    and R_session_close: "R s (session_Close s)"

context session_relation
begin

lemma R_close': "session_CloseFDs s m = (t, m') \<Longrightarrow> R s t"
  using R_close [of s m] by simp

lemma R_sendAndClose:
  assumes "sendAndClose s m = (t, m', e)"
  shows "R s t"
proof -
  obtain u e' where u: "SendToClient s m = (u, e')" by fastforce
  with assms have "t = fst (session_CloseFDs u m)"
    by (auto simp: sendAndClose_def split: prod.splits)
  with R_client [OF u] R_close [of u m] R_trans show ?thesis by blast
qed

lemma R_takeMerge_ready:
  assumes "P k" and "(do {
            let s = s\<lparr>merges := (merges s)(k := None)\<rparr>;
            merged \<leftarrow> mergeNameListReplies c h;
            let (s, _) = session_CloseFDs s h;
            let (s, _) = session_CloseFDs s c;
            let (s, _) = SendToClient s (merged\<lparr>FDs := []\<rparr>);
            Some (s, True)
          }) = Some (t, b)"
  shows "R s t"
proof -
  let ?s = "s\<lparr>merges := (merges s)(k := None)\<rparr>"
  let ?u = "fst (session_CloseFDs (fst (session_CloseFDs ?s h)) c)"
  obtain merged where m: "mergeNameListReplies c h = Some merged"
    using assms(2) by (auto simp: Let_def split: bind_splits)
  obtain u e where u: "SendToClient ?u (merged\<lparr>FDs := []\<rparr>) = (u, e)" by fastforce
  have "t = u" using assms(2) m u by (auto simp: Let_def case_prod_beta)
  have "R s ?u" using R_merge_drop [OF assms(1)] R_close R_trans by blast
  with R_client [OF u] R_trans \<open>t = u\<close> show ?thesis by blast
qed

lemma R_takeMerge:
  assumes "takeMerge s from m = Some (t, b)" and "msg_ok m"
    and "from = TargetHost \<Longrightarrow> hostConn s \<noteq> None" and P: "P (ReplySerial m)"
  shows "R s t"
proof (cases "merges s (ReplySerial m)")
  case None
  with assms(1) R_refl show ?thesis by (simp add: takeMerge_def)
next
  case (Some st)
  let ?st = "if from = TargetHost then st\<lparr>hostMsg := Some m\<rparr> else st\<lparr>contMsg := Some m\<rparr>"
  show ?thesis
  proof (cases "hostMsg ?st \<noteq> None \<and> contMsg ?st \<noteq> None")
    case True
    then obtain h c where hc: "hostMsg ?st = Some h" "contMsg ?st = Some c" by blast
    show ?thesis
      by (rule R_takeMerge_ready [OF P, of s c h])
        (use assms(1) Some hc in \<open>auto simp: takeMerge_def Let_def split: if_splits\<close>)
  next
    case False
    then have "t = s\<lparr>merges := (merges s)(ReplySerial m \<mapsto> ?st)\<rparr>"
      using assms(1) Some by (auto simp: takeMerge_def Let_def split: option.splits if_splits)
    with False Some P assms(2,3) R_store_host R_store_container show ?thesis
      by (cases "from = TargetHost") auto
  qed
qed

lemma R_shouldForward:
  assumes "shouldForwardHostSignal s m = Some (t, b)" and "hostConn s \<noteq> None"
  shows "R s t"
  using assms R_refl R_remember
  by (auto simp: shouldForwardHostSignal_def split: if_splits)

text \<open>A reply the host was asked for.\<close>

lemma R_remembered:
  assumes "hostConn s \<noteq> None" and "c \<Longrightarrow> R s u"
  shows "R s (if c then u else s)"
  using assms R_refl by simp

lemma takeMerge_False: "takeMerge s from m = Some (t, False) \<Longrightarrow> t = s"
  by (auto simp: takeMerge_def Let_def split: option.splits bind_splits prod.splits)

lemma R_upstream:
  assumes "handleUpstream s from m = Some (t, m', e)" and ok: "msg_ok m"
    and host: "from = TargetHost \<Longrightarrow> hostConn s \<noteq> None"
    and P: "Type m = TypeMethodReturn \<or> Type m = TypeError \<Longrightarrow> P (ReplySerial m)"
  shows "R s t"
proof -
  let ?reply = "Type m = TypeMethodReturn \<or> Type m = TypeError"
  let ?p = "hostPending s (ReplySerial m)" and ?d = "dropHostPending s (ReplySerial m)"
  consider (signal) u b where "from = TargetHost" "shouldForwardHostSignal s m = Some (u, b)"
      "(if b then sendAndClose u m else (case session_CloseFDs u m of (v, m') \<Rightarrow> (v, m', None))) = (t, m', e)"
    | (plain) "sendAndClose s m = (t, m', e)"
    | (taken) "?reply" "takeMerge s from m = Some (t, True)"
    | (unasked) "session_CloseFDs s m = (t, m')"
    | (swallowed) u where "?reply" "from = TargetHost" "session_CloseFDs u m = (t, m')"
        "u = ?d \<or> u = rememberHostUnique (?d\<lparr>hostUniqueName := first_string m\<rparr>) (first_string m)"
    | (forwarded) u where "?reply" "from = TargetHost" "sendAndClose u m = (t, m', e)"
        "u = ?d \<or> u = rememberHostUnique ?d (first_string m)"
  proof (cases ?reply)
    case False
    then show ?thesis
      using assms(1) that(1,2)
      by (auto simp: handleUpstream_def split: bind_splits prod.splits if_splits)
  next
    case True
    then obtain u b where tm: "takeMerge s from m = Some (u, b)"
      using assms(1) by (auto simp: handleUpstream_def split: bind_splits)
    show ?thesis
    proof (cases b)
      case True
      with assms(1) tm \<open>?reply\<close> that(3) show ?thesis by (auto simp: handleUpstream_def)
    next
      case False
      with tm have u: "u = s" using takeMerge_False by auto
      show ?thesis
      proof (cases "from = TargetContainer")
        case True
        with assms(1) tm \<open>?reply\<close> False u that(2) show ?thesis by (auto simp: handleUpstream_def)
      next
        case c: False
        then have f: "from = TargetHost" by (cases "from") auto
        show ?thesis
        proof (cases ?p)
          case None
          with assms(1) tm \<open>?reply\<close> False u f that(4) show ?thesis
            by (auto simp: handleUpstream_def split: prod.splits)
        next
          case (Some p)
          with assms(1) tm \<open>?reply\<close> False u f that(5,6) show ?thesis
            by (cases "pkind p = hostSwallow")
              (auto simp: handleUpstream_def Let_def split: prod.splits if_splits)
        qed
      qed
    qed
  qed
  then show ?thesis
  proof cases
    case signal
    have "R s u" using R_shouldForward [OF signal(2)] host signal(1) by simp
    moreover have "R u t"
      using signal(3) R_sendAndClose [of u m t m' e] R_close [of u m]
      by (auto split: if_splits prod.splits)
    ultimately show ?thesis using R_trans by blast
  next
    case plain
    then show ?thesis by (rule R_sendAndClose)
  next
    case taken
    from taken(2) show ?thesis by (rule R_takeMerge) (use ok host P taken(1) in auto)
  next
    case unasked
    then show ?thesis by (rule R_close')
  next
    case swallowed
    have d: "R s ?d" by (rule R_drop [OF P [OF swallowed(1)]])
    have "R ?d (rememberHostUnique (?d\<lparr>hostUniqueName := first_string m\<rparr>) (first_string m))"
      using R_uname [of ?d] R_remember [of "?d\<lparr>hostUniqueName := first_string m\<rparr>"] host swallowed(2) R_trans
      by (simp add: dropHostPending_def) blast
    with d swallowed(4) R_trans have "R s u" by blast
    with R_close' [OF swallowed(3)] R_trans show ?thesis by blast
  next
    case forwarded
    have d: "R s ?d" by (rule R_drop [OF P [OF forwarded(1)]])
    have "R ?d (rememberHostUnique ?d (first_string m))"
      using R_remember [of ?d] host forwarded(2) by (simp add: dropHostPending_def)
    with d forwarded(4) R_trans have "R s u" by blast
    with R_sendAndClose [OF forwarded(3)] R_trans show ?thesis by blast
  qed
qed

lemma R_client_turn:
  assumes "client_turn s m = Some t" and P: "P (Serial m)"
  shows "R s t"
proof -
  obtain u e v m' where d: "DispatchClientMessage s m = Some (u, e)" "session_CloseFDs u m = (v, m')"
    and t: "t = (case e of None \<Rightarrow> v | Some _ \<Rightarrow> session_Close v)"
    using assms(1) by (cases "DispatchClientMessage s m") (auto simp: client_turn_def split: prod.splits)
  have "R s v" using R_dispatch [OF d(1) P] R_close' [OF d(2)] R_trans by blast
  then show ?thesis using t R_session_close R_trans by (cases e) auto
qed

lemma R_upstream_turn:
  assumes "upstream_turn s from m = Some t" and "msg_ok m" and "from = TargetHost \<Longrightarrow> hostConn s \<noteq> None"
    and "Type m = TypeMethodReturn \<or> Type m = TypeError \<Longrightarrow> P (ReplySerial m)"
  shows "R s t"
proof -
  obtain u m' e where d: "handleUpstream s from m = Some (u, m', e)"
    and t: "t = (case e of None \<Rightarrow> u | Some _ \<Rightarrow> session_Close (fst (session_CloseFDs u m')))"
    using assms(1) by (cases "handleUpstream s from m") (auto simp: upstream_turn_def split: prod.splits option.splits)
  have "R s u" by (rule R_upstream [OF d]) (use assms in auto)
  moreover have "R u (session_Close (fst (session_CloseFDs u m')))"
    using R_session_close R_close R_trans by blast
  ultimately show ?thesis using t R_trans by (cases e) auto
qed

lemma R_turn:
  assumes "session_turn s ev = Some t" and "admissible s ev" and "\<And>n. touches n ev \<Longrightarrow> P n"
  shows "R s t"
  using assms R_session_close
  by (cases ev) (auto intro: R_client_turn R_upstream_turn)

end

end
