(* ===== verification/Dbus_Lifecycle.thy ===== *)
theory Dbus_Lifecycle
  imports Dbus_Session_Laws
begin

text \<open>
  The life of a session: which states \<open>handleClient\<close> can reach. The relations of
  \<open>Dbus_Session_Laws\<close> are interpreted on the descriptors duplicated for the host copies
  (\<open>copies\<close>), on what only grows (\<open>evolves\<close>) and on the invariant of the session maps
  (\<open>session_inv\<close>); with the invariant no handler can panic.
\<close>

section \<open>Descriptors duplicated for a host copy\<close>

text \<open>The descriptors the kernel handed out between two states are all closed again.\<close>

definition copies :: "session \<Rightarrow> session \<Rightarrow> bool" where
  "copies s t \<longleftrightarrow>
     (\<exists>used. dupScript (kernel s) = used @ dupScript (kernel t) \<and>
        ((\<forall>d. Some d \<in> set used \<longrightarrow> 0 \<le> d) \<longrightarrow>
          closedFDs (kernel t) = closedFDs (kernel s) @ List.map_filter id used))"

lemma map_filter_Some [simp]: "List.map_filter id (map Some xs) = xs"
  by (induction xs) (simp_all add: List.map_filter_simps)

lemma map_filter_append [simp]: "List.map_filter f (xs @ ys) = List.map_filter f xs @ List.map_filter f ys"
  by (simp add: List.map_filter_def)

lemma copies_same: "kernel t = kernel s \<Longrightarrow> copies s t"
  by (auto simp: copies_def List.map_filter_simps intro!: exI [of _ "[]"])

lemma copies_trans:
  assumes "copies s t" and "copies t u"
  shows "copies s u"
proof -
  obtain x where x: "dupScript (kernel s) = x @ dupScript (kernel t)"
    "(\<forall>d. Some d \<in> set x \<longrightarrow> 0 \<le> d) \<longrightarrow> closedFDs (kernel t) = closedFDs (kernel s) @ List.map_filter id x"
    using assms(1) by (auto simp: copies_def)
  obtain y where y: "dupScript (kernel t) = y @ dupScript (kernel u)"
    "(\<forall>d. Some d \<in> set y \<longrightarrow> 0 \<le> d) \<longrightarrow> closedFDs (kernel u) = closedFDs (kernel t) @ List.map_filter id y"
    using assms(2) by (auto simp: copies_def)
  show ?thesis
    unfolding copies_def by (rule exI [of _ "x @ y"]) (use x y in auto)
qed

lemma writeHostCopy_host: "writeHostCopy s m = Some (t, e) \<Longrightarrow> \<exists>c. hostConn s = Some c"
  by (cases "hostConn s") (auto simp: writeHostCopy_def SendToHostConn_def Let_def split: prod.splits)

lemma copies_writeHostCopy:
  assumes "writeHostCopy s m = Some (t, e)"
  shows "copies s t"
proof -
  obtain c where c: "hostConn s = Some c"
    using writeHostCopy_host [OF assms] by blast
  obtain c' w' e' ds new tail where *:
    "writeHostCopy s m = Some (s\<lparr>hostConn := Some c', kernel := w'\<rparr>, e')"
    "dupScript (kernel s) = map Some new @ tail" "tail = dupScript w' \<or> tail = None # dupScript w'"
    "(\<forall>d \<in> set new. 0 \<le> d) \<longrightarrow> closedFDs w' = closedFDs (kernel s) @ new"
    using writeHostCopy_effect [OF c, of m] by blast
  have t: "kernel t = w'" using assms *(1) by auto
  show ?thesis
    unfolding copies_def
    by (rule exI [of _ "if tail = dupScript w' then map Some new else map Some new @ [None]"])
      (use * t in \<open>auto simp: List.map_filter_simps\<close>)
qed

lemma SendToHostConn_frame:
  "SendToHostConn s m = Some (t, e) \<Longrightarrow> \<exists>c. t = s\<lparr>hostConn := Some c\<rparr> \<and> hostConn s \<noteq> None"
  by (auto simp: SendToHostConn_def split: option.splits prod.splits)

lemma send_kernel:
  "SendToClient s m = (t, e) \<Longrightarrow> kernel t = kernel s"
  "SendToContainer s m = (t, e) \<Longrightarrow> kernel t = kernel s"
  "SendToHostConn s m = Some (t, e) \<Longrightarrow> kernel t = kernel s"
  by (auto dest: SendToClient_frame SendToContainer_frame SendToHostConn_frame)

interpretation copy_rel: client_relation copies "\<lambda>_. True"
  by unfold_locales
    (auto intro: copies_same copies_trans copies_writeHostCopy dest: send_kernel
      simp: noteHostPending_def dropHostPending_def)

text \<open>
  One turn of the client loop closes each descriptor it duplicated, then each descriptor of
  the message, and nothing else: the client's descriptors are closed exactly once whatever
  the route and whether or not the writes succeed.
\<close>

lemma client_turn_descriptors:
  assumes t: "client_turn s m = Some t" and d: "\<forall>d. Some d \<in> set (dupScript (kernel s)) \<longrightarrow> 0 \<le> d"
  shows "\<exists>used. dupScript (kernel s) = used @ dupScript (kernel t) \<and>
    closedFDs (kernel t) = closedFDs (kernel s) @ List.map_filter id used @ filter ((\<le>) 0) (FDs m)"
proof -
  obtain u e v m' where u: "DispatchClientMessage s m = Some (u, e)" and v: "session_CloseFDs u m = (v, m')"
    and tt: "t = (case e of None \<Rightarrow> v | Some _ \<Rightarrow> session_Close v)"
    using t by (cases "DispatchClientMessage s m") (auto simp: client_turn_def split: prod.splits)
  have k: "kernel t = kernel v" using tt by (auto simp: session_Close_def split: option.splits)
  have "closedFDs (kernel v) = closedFDs (kernel u) @ filter ((\<le>) 0) (FDs m)"
    "dupScript (kernel v) = dupScript (kernel u)"
    using v by (auto simp: session_CloseFDs_def CloseFDs_def)
  moreover obtain used where "dupScript (kernel s) = used @ dupScript (kernel u)"
    "(\<forall>d. Some d \<in> set used \<longrightarrow> 0 \<le> d) \<longrightarrow>
       closedFDs (kernel u) = closedFDs (kernel s) @ List.map_filter id used"
    using copy_rel.R_dispatch [OF u] by (auto simp: copies_def)
  ultimately show ?thesis using d k by (intro exI [of _ used]) auto
qed

section \<open>What only grows\<close>

definition conn_evolves :: "conn \<Rightarrow> conn \<Rightarrow> bool" where
  "conn_evolves c c' \<longleftrightarrow> prefix (outbox c) (outbox c') \<and> isOpen c' \<le> isOpen c"

definition evolves :: "session \<Rightarrow> session \<Rightarrow> bool" where
  "evolves s t \<longleftrightarrow>
     conn_evolves (clientConn s) (clientConn t) \<and> conn_evolves (containerConn s) (containerConn t) \<and>
     rel_option conn_evolves (hostConn s) (hostConn t) \<and>
     hostUniqueNames s \<subseteq> hostUniqueNames t \<and>
     prefix (closedFDs (kernel s)) (closedFDs (kernel t)) \<and> sessionClosed s \<le> sessionClosed t"

lemma conn_evolves_refl [simp]: "conn_evolves c c"
  by (simp add: conn_evolves_def)

lemma conn_evolves_trans: "conn_evolves a b \<Longrightarrow> conn_evolves b c \<Longrightarrow> conn_evolves a c"
  by (auto simp: conn_evolves_def intro: prefix_order.trans)

lemma rel_evolves_refl [simp]: "rel_option conn_evolves x x"
  by (cases x) simp_all

lemma rel_evolves_trans:
  "rel_option conn_evolves x y \<Longrightarrow> rel_option conn_evolves y z \<Longrightarrow> rel_option conn_evolves x z"
  by (auto simp: option_rel_Some1 option_rel_Some2 elim!: option.rel_cases intro: conn_evolves_trans)

lemma WriteMessage_evolves: "WriteMessage c m = (c', e) \<Longrightarrow> conn_evolves c c'"
  by (auto simp: WriteMessage_def conn_Write_def conn_WriteMsgUnix_def conn_evolves_def push_def
      split: if_splits list.splits wresult.splits)

lemma close_dups_prefix: "prefix (closedFDs w) (closedFDs (close_dups ds w))"
  by simp

lemma CopyFDs_prefix: "CopyFDs fds w = (w', r) \<Longrightarrow> prefix (closedFDs w) (closedFDs w')"
  using CopyFDs_effect [of fds w w' r] by auto

lemma writeHostCopy_frame:
  assumes "writeHostCopy s m = Some (t, e)"
  shows "\<exists>c c' w. hostConn s = Some c \<and> t = s\<lparr>hostConn := Some c', kernel := w\<rparr> \<and>
    conn_evolves c c' \<and> prefix (closedFDs (kernel s)) (closedFDs w)"
proof -
  obtain w dups where cp: "CopyFDs (FDs m) (kernel s) = (w, dups)" by fastforce
  obtain c where c: "hostConn s = Some c"
    using writeHostCopy_host [OF assms] by blast
  let ?hm = "zero_message\<lparr>Raw := Raw m, FDs := (case dups of None \<Rightarrow> [] | Some ds \<Rightarrow> ds)\<rparr>"
  obtain c' e' where wm: "WriteMessage c ?hm = (c', e')" by fastforce
  have "t = s\<lparr>hostConn := Some c', kernel := close_loop (FDs ?hm) w\<rparr>"
    using assms c cp wm
    by (simp add: writeHostCopy_def SendToHostConn_def session_CloseFDs_def CloseFDs_def)
  moreover have "prefix (closedFDs w) (closedFDs (close_loop (FDs ?hm) w))" by simp
  ultimately show ?thesis
    using c WriteMessage_evolves [OF wm] CopyFDs_prefix [OF cp]
    by (blast intro: prefix_order.trans)
qed

lemma evolves_trans: "evolves s t \<Longrightarrow> evolves t u \<Longrightarrow> evolves s u"
  unfolding evolves_def
  by (intro conjI; elim conjE)
    (blast intro: conn_evolves_trans rel_evolves_trans prefix_order.trans order_trans)+

lemma evolves_send:
  "SendToClient s m = (t, e) \<Longrightarrow> evolves s t"
  "SendToContainer s m = (t, e) \<Longrightarrow> evolves s t"
  "SendToHostConn s m = Some (t, e) \<Longrightarrow> evolves s t"
  by (auto simp: SendToClient_def SendToContainer_def SendToHostConn_def evolves_def
      split: prod.splits option.splits dest: WriteMessage_evolves)

lemma conn_evolves_Close [simp]: "conn_evolves c (conn_Close c)"
  by (simp add: conn_evolves_def conn_Close_def)

lemma evolves_fields:
  "evolves s s" "evolves s (s\<lparr>srouter := r\<rparr>)" "evolves s (s\<lparr>merges := mg\<rparr>)"
  "evolves s (s\<lparr>hostUniqueName := n\<rparr>)" "evolves s (noteHostPending s serial k mem)"
  "evolves s (dropHostPending s serial)" "evolves s (rememberHostUnique s n)"
  "evolves s (fst (session_CloseFDs s m))" "evolves s (session_Close s)"
  by (auto simp: evolves_def noteHostPending_def dropHostPending_def rememberHostUnique_def
      session_CloseFDs_def CloseFDs_def)
    (cases "hostConn s"; simp add: session_Close_def)+

lemma evolves_writeHostCopy: "writeHostCopy s m = Some (t, e) \<Longrightarrow> evolves s t"
  by (drule writeHostCopy_frame) (auto simp: evolves_def)

interpretation growth: session_relation evolves "\<lambda>_. True"
  by unfold_locales
    (rule evolves_fields | erule evolves_writeHostCopy | erule (1) evolves_trans | erule evolves_send)+

section \<open>The invariant of a session\<close>

text \<open>
  A reply kept for a merge: one side at most, and it came from a reader.
\<close>

definition stored_ok :: "mergeState \<Rightarrow> bool" where
  "stored_ok st \<longleftrightarrow>
     (hostMsg st = None \<or> contMsg st = None) \<and>
     (\<forall>m. hostMsg st = Some m \<or> contMsg st = Some m \<longrightarrow> msg_ok m)"

definition session_inv :: "session \<Rightarrow> bool" where
  "session_inv s \<longleftrightarrow>
     (hostConn s = None \<longrightarrow> hostPending s = Map.empty \<and> merges s = Map.empty \<and> hostUniqueNames s = {}) \<and>
     (\<forall>n \<in> hostUniqueNames s. HasPrefix n '':'') \<and>
     (\<forall>st \<in> ran (merges s). stored_ok st) \<and>
     (sessionClosed s \<longrightarrow> \<not> isOpen (clientConn s) \<and> \<not> isOpen (containerConn s) \<and>
        (\<forall>c. hostConn s = Some c \<longrightarrow> \<not> isOpen c))"

definition keeps_inv :: "session \<Rightarrow> session \<Rightarrow> bool" where
  "keeps_inv s t \<longleftrightarrow> (session_inv s \<longrightarrow> session_inv t)"

lemma new_session_inv: "session_inv (new_session r client host container w)"
  by (simp add: session_inv_def new_session_def)

lemma WriteMessage_open: "WriteMessage c m = (c', e) \<Longrightarrow> isOpen c' = isOpen c"
  by (auto simp: WriteMessage_def conn_Write_def conn_WriteMsgUnix_def push_def
      split: if_splits list.splits wresult.splits)

lemma keeps_inv_send:
  "SendToClient s m = (t, e) \<Longrightarrow> keeps_inv s t"
  "SendToContainer s m = (t, e) \<Longrightarrow> keeps_inv s t"
  "SendToHostConn s m = Some (t, e) \<Longrightarrow> keeps_inv s t"
  by (auto simp: SendToClient_def SendToContainer_def SendToHostConn_def keeps_inv_def session_inv_def
      split: prod.splits option.splits dest: WriteMessage_open)

lemma keeps_inv_writeHostCopy: "writeHostCopy s m = Some (t, e) \<Longrightarrow> keeps_inv s t"
  by (drule writeHostCopy_frame) (auto simp: keeps_inv_def session_inv_def conn_evolves_def)

lemma keeps_inv_fields:
  "keeps_inv s s" "keeps_inv s (s\<lparr>srouter := r\<rparr>)" "keeps_inv s (s\<lparr>hostUniqueName := n\<rparr>)"
  "keeps_inv s (fst (session_CloseFDs s m))"
  by (simp_all add: keeps_inv_def session_inv_def session_CloseFDs_def CloseFDs_def)

lemma keeps_inv_drop: "keeps_inv s (dropHostPending s serial)"
  by (auto simp: keeps_inv_def session_inv_def dropHostPending_def)

lemma keeps_inv_note: "hostConn s \<noteq> None \<Longrightarrow> keeps_inv s (noteHostPending s serial k mem)"
  by (auto simp: keeps_inv_def session_inv_def noteHostPending_def)

lemma keeps_inv_remember: "hostConn s \<noteq> None \<Longrightarrow> keeps_inv s (rememberHostUnique s n)"
  by (auto simp: keeps_inv_def session_inv_def rememberHostUnique_def)

lemma keeps_inv_session_Close: "keeps_inv s (session_Close s)"
  by (auto simp: keeps_inv_def session_inv_def session_Close_def conn_Close_def)

lemma keeps_inv_merges:
  assumes "ran mg \<subseteq> ran (merges s) \<union> {st. stored_ok st}" and "hostConn s = None \<Longrightarrow> merges s = Map.empty \<Longrightarrow> mg = Map.empty"
  shows "keeps_inv s (s\<lparr>merges := mg\<rparr>)"
proof -
  have "stored_ok st" if "st \<in> ran mg" "\<forall>st \<in> ran (merges s). stored_ok st" for st
    using assms(1) that by blast
  with assms(2) show ?thesis by (auto simp: keeps_inv_def session_inv_def)
qed

lemma keeps_inv_merge_drop: "keeps_inv s (s\<lparr>merges := (merges s)(n := None)\<rparr>)"
  by (rule keeps_inv_merges) (auto simp: ran_def)

lemma keeps_inv_merge_put:
  assumes "hostConn s \<noteq> None \<or> merges s n \<noteq> None" and "stored_ok st"
  shows "keeps_inv s (s\<lparr>merges := (merges s)(n \<mapsto> st)\<rparr>)"
  by (rule keeps_inv_merges) (use assms in \<open>auto simp: ran_def split: if_splits\<close>)

lemma stored_ok_merge: "session_inv s \<Longrightarrow> merges s n = Some st \<Longrightarrow> stored_ok st"
  by (auto simp: session_inv_def ran_def)

lemma keeps_inv_merge_new:
  "hostConn s \<noteq> None \<Longrightarrow> keeps_inv s (s\<lparr>merges := (merges s)(n \<mapsto>
     \<lparr>mmember = mem, hostMsg = None, contMsg = None\<rparr>)\<rparr>)"
  by (rule keeps_inv_merge_put) (simp_all add: stored_ok_def)

lemma keeps_inv_store:
  assumes "merges s k = Some st" and "msg_ok m"
  shows "contMsg st = None \<Longrightarrow> keeps_inv s (s\<lparr>merges := (merges s)(k \<mapsto> st\<lparr>hostMsg := Some m\<rparr>)\<rparr>)"
    and "hostMsg st = None \<Longrightarrow> keeps_inv s (s\<lparr>merges := (merges s)(k \<mapsto> st\<lparr>contMsg := Some m\<rparr>)\<rparr>)"
  by (rule keeps_inv_merge_put; use assms in \<open>simp add: stored_ok_def\<close>)+

lemma keeps_inv_trans: "keeps_inv s t \<Longrightarrow> keeps_inv t u \<Longrightarrow> keeps_inv s u"
  by (simp add: keeps_inv_def)

interpretation inv: session_relation keeps_inv "\<lambda>_. True"
  by unfold_locales
    ((rule keeps_inv_fields keeps_inv_drop keeps_inv_merge_drop keeps_inv_session_Close)
     | (erule keeps_inv_note keeps_inv_remember keeps_inv_merge_new keeps_inv_send
         keeps_inv_writeHostCopy)
     | (erule (1) keeps_inv_trans) | (erule (2) keeps_inv_store [rotated 2]))+

section \<open>The other calls\<close>

text \<open>A step leaves the bookkeeping of every call it is not about unchanged.\<close>

definition same_call :: "u32 \<Rightarrow> session \<Rightarrow> session \<Rightarrow> bool" where
  "same_call k s t \<longleftrightarrow> merges t k = merges s k \<and> hostPending t k = hostPending s k"

lemma same_call_send:
  "SendToClient s m = (t, e) \<Longrightarrow> same_call k s t"
  "SendToContainer s m = (t, e) \<Longrightarrow> same_call k s t"
  "SendToHostConn s m = Some (t, e) \<Longrightarrow> same_call k s t"
  by (auto simp: same_call_def dest: SendToClient_frame SendToContainer_frame SendToHostConn_frame)

lemma same_call_writeHostCopy: "writeHostCopy s m = Some (t, e) \<Longrightarrow> same_call k s t"
  by (drule writeHostCopy_frame) (auto simp: same_call_def)

interpretation others: session_relation "same_call k" "\<lambda>n. n \<noteq> k" for k
  by unfold_locales
    (auto intro: same_call_send same_call_writeHostCopy, auto simp: same_call_def noteHostPending_def
      dropHostPending_def rememberHostUnique_def session_CloseFDs_def CloseFDs_def session_Close_def)

section \<open>No handler panics\<close>

lemma defined_if: "(c \<Longrightarrow> x \<noteq> None) \<Longrightarrow> (\<not> c \<Longrightarrow> y \<noteq> None) \<Longrightarrow> (if c then x else y) \<noteq> None"
  by simp

lemma defined_bind: "x \<noteq> None \<Longrightarrow> (\<And>a. x = Some a \<Longrightarrow> f a \<noteq> None) \<Longrightarrow> Option.bind x f \<noteq> None"
  by (cases x) auto

lemma defined_prod: "(\<And>a b. p = (a, b) \<Longrightarrow> f a b \<noteq> None) \<Longrightarrow> case_prod f p \<noteq> None"
  by (cases p) auto

lemma defined_option:
  "(x = None \<Longrightarrow> f \<noteq> None) \<Longrightarrow> (\<And>a. x = Some a \<Longrightarrow> g a \<noteq> None) \<Longrightarrow> case_option f g x \<noteq> None"
  by (cases x) auto

lemmas definedness = defined_if defined_bind defined_prod defined_option option.distinct(2)

lemma writeHostCopy_defined: "hostConn s \<noteq> None \<Longrightarrow> writeHostCopy s m \<noteq> None"
  using writeHostCopy_effect [of s _ m] by auto

lemma copy_swallowed_defined: "hostConn s \<noteq> None \<Longrightarrow> copy_swallowed s m \<noteq> None"
  using copy_swallowed_effect [of s _ m] by auto

lemma sendToHost_defined: "hostConn s \<noteq> None \<Longrightarrow> sendToHost s m k \<noteq> None"
  by (auto simp: sendToHost_def SendToHostConn_def noteHostPending_def Let_def split: prod.splits)

lemma handleDBusManagement_defined: "handleDBusManagement s m \<noteq> None"
  unfolding handleDBusManagement_def extractFirstStringArg_eq Option.bind.bind_lunit Let_def
  by (intro definedness writeHostCopy_defined copy_swallowed_defined sendToHost_defined) simp_all

lemma DispatchClientMessage_defined:
  assumes "msg_ok m"
  shows "DispatchClientMessage s m \<noteq> None"
proof -
  have "dispatchSignal s m \<noteq> None"
    unfolding dispatchSignal_def
    by (intro definedness writeHostCopy_defined sendToHost_defined) simp_all
  moreover have "NewErrorMessage m ''org.freedesktop.DBus.Error.ServiceUnknown'' t n \<noteq> None" for t n
    using refusal_exists [OF assms] by simp
  ultimately show ?thesis
    unfolding DispatchClientMessage_def NextSerial_def Let_def case_prod_conv
    by (intro definedness handleDBusManagement_defined sendToHost_defined)
qed

lemma takeMerge_defined:
  assumes "session_inv s" and "msg_ok m"
  shows "takeMerge s from m \<noteq> None"
proof (cases "merges s (ReplySerial m)")
  case None
  then show ?thesis by (simp add: takeMerge_def)
next
  case (Some st)
  have merge: "mergeNameListReplies c h \<noteq> None" if "msg_ok c" "msg_ok h" for c h
    using that merge_total [of c h] by (auto simp: msg_ok_def)
  show ?thesis
    using stored_ok_merge [OF assms(1) Some] assms(2)
    unfolding takeMerge_def Some Let_def
    by (intro definedness merge) (auto simp: stored_ok_def split: if_splits)
qed

lemma shouldForwardHostSignal_defined: "shouldForwardHostSignal s m \<noteq> None"
  unfolding shouldForwardHostSignal_def extractFirstStringArg_eq extractBodyStrings_eq
    Option.bind.bind_lunit
  by (intro definedness)

lemma handleUpstream_defined:
  assumes "session_inv s" and "msg_ok m"
  shows "handleUpstream s from m \<noteq> None"
  unfolding handleUpstream_def extractFirstStringArg_eq Option.bind.bind_lunit Let_def
  by (intro definedness takeMerge_defined [OF assms] shouldForwardHostSignal_defined)

lemma session_turn_defined:
  assumes "session_inv s" and "admissible s ev"
  shows "session_turn s ev \<noteq> None"
proof -
  have "upstream_turn s from m \<noteq> None" if "msg_ok m" for "from" m
    unfolding upstream_turn_def by (intro definedness handleUpstream_defined assms(1) that)
  moreover have "client_turn s m \<noteq> None" if "msg_ok m" for m
    unfolding client_turn_def Let_def by (intro definedness DispatchClientMessage_defined that)
  ultimately show ?thesis using assms(2) by (cases ev) auto
qed

section \<open>Reachable sessions\<close>

inductive session_reach :: "session \<Rightarrow> session \<Rightarrow> bool" for s0 where
  start: "session_reach s0 s0"
| turn: "session_reach s0 s \<Longrightarrow> admissible s ev \<Longrightarrow> session_turn s ev = Some t \<Longrightarrow> session_reach s0 t"

inductive_cases session_reachE: "session_reach s0 t"

lemma session_reach_inv: "session_reach s0 s \<Longrightarrow> session_inv s0 \<Longrightarrow> session_inv s"
  by (induction rule: session_reach.induct) (use inv.R_turn in \<open>auto simp: keeps_inv_def\<close>)

lemma session_reach_evolves: "session_reach s0 s \<Longrightarrow> evolves s0 s"
  by (induction rule: session_reach.induct)
    (use growth.R_turn evolves_trans in \<open>auto intro: evolves_fields\<close>)

text \<open>The states an explicit sequence of events leads to.\<close>

fun session_run :: "session \<Rightarrow> event list \<Rightarrow> session option" where
  "session_run s [] = Some s"
| "session_run s (ev # evs) = do { t \<leftarrow> session_turn s ev; session_run t evs }"

fun ok_event :: "bool \<Rightarrow> event \<Rightarrow> bool" where
  "ok_event hashost (FromClient m) \<longleftrightarrow> msg_ok m"
| "ok_event hashost (FromContainer m) \<longleftrightarrow> msg_ok m"
| "ok_event hashost (FromHost m) \<longleftrightarrow> msg_ok m \<and> hashost"
| "ok_event hashost ReadFails \<longleftrightarrow> True"

lemma ok_event_admissible: "ok_event (hostConn s \<noteq> None) ev \<longleftrightarrow> admissible s ev"
  by (cases ev) auto

lemma evolves_host: "evolves s t \<Longrightarrow> hostConn t = None \<longleftrightarrow> hostConn s = None"
  by (auto simp: evolves_def)

lemma session_run_reach:
  assumes "session_inv s" and "list_all (ok_event (hostConn s \<noteq> None)) evs"
  shows "\<exists>t. session_run s evs = Some t \<and> session_reach s t"
  using assms
proof (induction evs rule: rev_induct)
  case Nil
  then show ?case by (auto intro: session_reach.start)
next
  case (snoc ev evs)
  then obtain t where t: "session_run s evs = Some t" "session_reach s t" by auto
  have i: "session_inv t" using session_reach_inv t snoc.prems by blast
  have "(hostConn t = None) = (hostConn s = None)"
    using evolves_host session_reach_evolves t(2) by blast
  then have a: "admissible t ev"
    using snoc.prems ok_event_admissible [of t ev] by simp
  obtain u where u: "session_turn t ev = Some u" using session_turn_defined [OF i a] by blast
  have "session_run s (evs @ es) = Option.bind (session_run s evs) (\<lambda>t. session_run t es)" for s es
    by (induction evs arbitrary: s) (auto split: bind_splits)
  with t u session_reach.turn [OF t(2) a u] show ?case by auto
qed

section \<open>A closed session is silent\<close>

definition dead :: "session \<Rightarrow> bool" where
  "dead s \<longleftrightarrow> \<not> isOpen (clientConn s) \<and> \<not> isOpen (containerConn s) \<and>
     (\<forall>c. hostConn s = Some c \<longrightarrow> \<not> isOpen c)"

definition silent :: "session \<Rightarrow> session \<Rightarrow> bool" where
  "silent s t \<longleftrightarrow> (dead s \<longrightarrow> dead t \<and> outbox (clientConn t) = outbox (clientConn s) \<and>
     outbox (containerConn t) = outbox (containerConn s) \<and> host_out t = host_out s)"

lemma silent_trans: "silent s t \<Longrightarrow> silent t u \<Longrightarrow> silent s u"
  by (simp add: silent_def)

lemma silent_send:
  "SendToClient s m = (t, e) \<Longrightarrow> silent s t"
  "SendToContainer s m = (t, e) \<Longrightarrow> silent s t"
  "SendToHostConn s m = Some (t, e) \<Longrightarrow> silent s t"
  by (auto simp: SendToClient_def SendToContainer_def SendToHostConn_def silent_def dead_def host_out_def
      WriteMessage_closed split: prod.splits option.splits)

lemma silent_writeHostCopy:
  assumes "writeHostCopy s m = Some (t, e)"
  shows "silent s t"
proof -
  obtain c where c: "hostConn s = Some c" using writeHostCopy_host [OF assms] by blast
  obtain c' w' e' ds where w: "writeHostCopy s m = Some (s\<lparr>hostConn := Some c', kernel := w'\<rparr>, e')"
    "WriteMessage c (zero_message\<lparr>Raw := Raw m, FDs := ds\<rparr>) = (c', e')"
    using writeHostCopy_effect [OF c, of m] by blast
  have "c' = c" if "dead s" using that c w(2) by (simp add: dead_def WriteMessage_closed)
  with assms c w(1) show ?thesis by (auto simp: silent_def dead_def host_out_def)
qed

lemma silent_fields:
  "silent s s" "silent s (s\<lparr>srouter := r\<rparr>)" "silent s (s\<lparr>merges := mg\<rparr>)"
  "silent s (s\<lparr>hostUniqueName := n\<rparr>)" "silent s (noteHostPending s serial k mem)"
  "silent s (dropHostPending s serial)" "silent s (rememberHostUnique s n)"
  "silent s (fst (session_CloseFDs s m))"
  by (simp_all add: silent_def dead_def host_out_def noteHostPending_def dropHostPending_def
      rememberHostUnique_def session_CloseFDs_def CloseFDs_def)

lemma silent_session_Close: "silent s (session_Close s)"
  by (cases "hostConn s")
    (auto simp: silent_def dead_def host_out_def session_Close_def conn_Close_def)

interpretation hush: session_relation silent "\<lambda>_. True"
  by unfold_locales
    (rule silent_fields silent_session_Close | erule silent_writeHostCopy | erule (1) silent_trans
     | erule silent_send)+

lemma closed_dead: "session_inv s \<Longrightarrow> sessionClosed s \<Longrightarrow> dead s"
  by (auto simp: session_inv_def dead_def)

text \<open>A turn that ends its loop: the read has failed, or the handler has returned an error.\<close>

fun turn_fails :: "session \<Rightarrow> event \<Rightarrow> bool" where
  "turn_fails s (FromClient m) \<longleftrightarrow> (\<exists>t e. DispatchClientMessage s m = Some (t, Some e))"
| "turn_fails s (FromContainer m) \<longleftrightarrow> (\<exists>t m' e. handleUpstream s TargetContainer m = Some (t, m', Some e))"
| "turn_fails s (FromHost m) \<longleftrightarrow> (\<exists>t m' e. handleUpstream s TargetHost m = Some (t, m', Some e))"
| "turn_fails s ReadFails \<longleftrightarrow> True"

lemma failed_turn_closed: "turn_fails s ev \<Longrightarrow> session_turn s ev = Some t \<Longrightarrow> sessionClosed t"
  by (cases ev) (auto simp: client_turn_def upstream_turn_def session_Close_def Let_def split: prod.splits)

lemma session_reach_silent: "session_reach s t \<Longrightarrow> silent s t"
proof (induction rule: session_reach.induct)
  case (turn s' ev t)
  from silent_trans [OF turn.IH hush.R_turn [OF turn.hyps(3,2) TrueI]] show ?case .
qed (rule silent_fields)

end
