(* ===== verification/Dbus_Upstream.thy ===== *)
theory Dbus_Upstream
  imports Dbus_Lifecycle
begin

text \<open>
  The upstream side of a session: what becomes of a message from the container bus or the
  host bus. \<open>client_gets\<close> and \<open>host_learns\<close> state the policy; \<open>handleUpstream_spec\<close> shows
  that the handler implements it for every message outside a merge, \<open>takeMerge_stores\<close> and
  \<open>takeMerge_merges\<close> are the two halves of a merge, and \<open>list_names_merged\<close> follows a
  \<open>ListNames\<close> call from the client through both buses and back.
\<close>

section \<open>The policy\<close>

definition is_reply :: "message \<Rightarrow> bool" where
  "is_reply m \<longleftrightarrow> Type m = TypeMethodReturn \<or> Type m = TypeError"

definition bus_signal :: "message \<Rightarrow> bool" where
  "bus_signal m \<longleftrightarrow> Sender m = ''org.freedesktop.DBus'' \<or> Interface m = ''org.freedesktop.DBus''"

definition host_name :: "string \<Rightarrow> bool" where
  "host_name n \<longleftrightarrow> RouteDestination n = TargetHost \<or> RouteOwnership n = TargetHost"

text \<open>
  The client gets everything from the container; from the host the replies to calls that were
  sent there on its behalf and the signals, but of the signals of the host bus itself only the
  ownership changes of names that live on the host.
\<close>

definition client_gets :: "session \<Rightarrow> Target \<Rightarrow> message \<Rightarrow> bool" where
  "client_gets s from m \<longleftrightarrow>
     from = TargetContainer \<or>
     (if is_reply m then \<exists>p. hostPending s (ReplySerial m) = Some p \<and> pkind p = hostForward
      else Type m = TypeSignal \<and>
        (bus_signal m \<longrightarrow> Member m \<in> {''NameOwnerChanged'', ''NameAcquired'', ''NameLost''} \<and>
           host_name (first_string m)))"

text \<open>
  The unique names the session learns to be on the host: its own, from the reply to
  \<open>Hello\<close>; the owner of a host name, from \<open>GetNameOwner\<close> or a \<open>NameOwnerChanged\<close>.
\<close>

definition told_name :: "session \<Rightarrow> message \<Rightarrow> string option" where
  "told_name s m =
     (if is_reply m then
        (case hostPending s (ReplySerial m) of
           None \<Rightarrow> None
         | Some p \<Rightarrow>
             if Type m = TypeMethodReturn \<and>
                pmember p = (if pkind p = hostSwallow then ''Hello'' else ''GetNameOwner'')
             then Some (first_string m) else None)
      else if Type m = TypeSignal \<and> bus_signal m \<and> Member m = ''NameOwnerChanged'' \<and>
              host_name (first_string m) \<and> 3 \<le> length (body_strings m)
      then Some (body_strings m ! 2) else None)"

definition host_learns :: "session \<Rightarrow> message \<Rightarrow> string set" where
  "host_learns s m = {n. told_name s m = Some n \<and> HasPrefix n '':''}"

section \<open>handleUpstream implements it\<close>

definition upstream_outcome ::
  "session \<Rightarrow> Target \<Rightarrow> message \<Rightarrow> session \<Rightarrow> io_error option \<Rightarrow> bool" where
  "upstream_outcome s from m t e \<longleftrightarrow>
     (if client_gets s from m then WriteMessage (clientConn s) m = (clientConn t, e)
      else clientConn t = clientConn s \<and> e = None) \<and>
     hostConn t = hostConn s \<and> containerConn t = containerConn s \<and> merges t = merges s \<and>
     sessionClosed t = sessionClosed s \<and> dupScript (kernel t) = dupScript (kernel s) \<and>
     closedFDs (kernel t) = closedFDs (kernel s) @ filter ((\<le>) 0) (FDs m) \<and>
     hostPending t = (if from = TargetHost \<and> is_reply m
       then (hostPending s)(ReplySerial m := None) else hostPending s) \<and>
     hostUniqueNames t = hostUniqueNames s \<union> (if from = TargetHost then host_learns s m else {})"

lemma sendAndClose_effect:
  "\<exists>c e w. sendAndClose s m = (s\<lparr>clientConn := c, kernel := w\<rparr>, m\<lparr>FDs := []\<rparr>, e) \<and>
     WriteMessage (clientConn s) m = (c, e) \<and> dupScript w = dupScript (kernel s) \<and>
     closedFDs w = closedFDs (kernel s) @ filter ((\<le>) 0) (FDs m)"
  by (cases "WriteMessage (clientConn s) m")
    (simp add: sendAndClose_def SendToClient_def session_CloseFDs_def CloseFDs_def
      exI [of _ "close_loop (FDs m) (kernel s)"])

lemma rememberHostUnique_effect:
  "rememberHostUnique s n = s\<lparr>hostUniqueNames := hostUniqueNames s \<union> {x. n = x \<and> HasPrefix x '':''}\<rparr>"
  by (auto simp: rememberHostUnique_def intro!: session.equality)

lemma takeMerge_none [simp]: "merges s (ReplySerial m) = None \<Longrightarrow> takeMerge s from m = Some (s, False)"
  by (simp add: takeMerge_def)

lemma shouldForwardHostSignal_spec:
  assumes "\<not> is_reply m"
  shows "shouldForwardHostSignal s m =
    Some (s\<lparr>hostUniqueNames := hostUniqueNames s \<union> host_learns s m\<rparr>, client_gets s TargetHost m)"
  using assms
  by (auto simp: shouldForwardHostSignal_def client_gets_def host_learns_def told_name_def bus_signal_def
      host_name_def rememberHostUnique_effect)

text \<open>A reply of the host outside a merge.\<close>

lemma host_reply_spec:
  assumes r: "is_reply m" and mg: "merges s (ReplySerial m) = None"
  shows "\<exists>t e. handleUpstream s TargetHost m = Some (t, m\<lparr>FDs := []\<rparr>, e) \<and> upstream_outcome s TargetHost m t e"
proof (cases "hostPending s (ReplySerial m)")
  case None
  with r mg show ?thesis
    by (auto simp: handleUpstream_def is_reply_def upstream_outcome_def client_gets_def host_learns_def
        told_name_def session_CloseFDs_def CloseFDs_def)
next
  case (Some p)
  show ?thesis
  proof (cases "pkind p")
    case hostSwallow
    with r mg Some show ?thesis
      by (auto simp: handleUpstream_def is_reply_def upstream_outcome_def client_gets_def host_learns_def
          told_name_def session_CloseFDs_def CloseFDs_def dropHostPending_def rememberHostUnique_effect)
  next
    case hostForward
    let ?d = "dropHostPending s (ReplySerial m)"
    let ?u = "if pmember p = ''GetNameOwner'' \<and> Type m = TypeMethodReturn
      then rememberHostUnique ?d (first_string m) else ?d"
    obtain c e w where "sendAndClose ?u m = (?u\<lparr>clientConn := c, kernel := w\<rparr>, m\<lparr>FDs := []\<rparr>, e)"
      "WriteMessage (clientConn ?u) m = (c, e)" "dupScript w = dupScript (kernel ?u)"
      "closedFDs w = closedFDs (kernel ?u) @ filter ((\<le>) 0) (FDs m)"
      using sendAndClose_effect by blast
    moreover have "handleUpstream s TargetHost m = Some (sendAndClose ?u m)"
      using r mg Some hostForward by (auto simp: handleUpstream_def is_reply_def)
    ultimately show ?thesis
      using r Some hostForward
      by (auto simp: is_reply_def upstream_outcome_def client_gets_def host_learns_def
          told_name_def dropHostPending_def rememberHostUnique_effect)
  qed
qed

lemma handleUpstream_spec:
  assumes mg: "is_reply m \<Longrightarrow> merges s (ReplySerial m) = None"
  shows "\<exists>t e. handleUpstream s from m = Some (t, m\<lparr>FDs := []\<rparr>, e) \<and> upstream_outcome s from m t e"
proof (cases "from = TargetHost \<and> is_reply m")
  case True
  with host_reply_spec mg show ?thesis by simp
next
  case notreply: False
  show ?thesis
  proof (cases "from = TargetContainer")
    case True
    then have "handleUpstream s from m = Some (sendAndClose s m)"
      using mg by (auto simp: handleUpstream_def is_reply_def)
    with True sendAndClose_effect [of s m] show ?thesis
      by (auto simp: upstream_outcome_def client_gets_def)
  next
    case False
    then have f: "from = TargetHost" and nr: "\<not> is_reply m" using notreply by (cases "from"; simp)+
    let ?u = "s\<lparr>hostUniqueNames := hostUniqueNames s \<union> host_learns s m\<rparr>"
    have h: "handleUpstream s from m =
      (if client_gets s TargetHost m then Some (sendAndClose ?u m)
       else let (s, m) = session_CloseFDs ?u m in Some (s, m, None))"
      using nr f shouldForwardHostSignal_spec [OF nr, of s] by (simp add: handleUpstream_def is_reply_def)
    show ?thesis
      using f nr h sendAndClose_effect [of ?u m]
      by (auto simp: upstream_outcome_def session_CloseFDs_def CloseFDs_def)
  qed
qed

section \<open>The two halves of a merge\<close>

lemma takeMerge_stores:
  assumes r: "is_reply m" and st: "merges s (ReplySerial m) = Some st"
  shows "contMsg st = None \<Longrightarrow> handleUpstream s TargetHost m =
      Some (s\<lparr>merges := (merges s)(ReplySerial m \<mapsto> st\<lparr>hostMsg := Some m\<rparr>)\<rparr>, m, None)"
    and "hostMsg st = None \<Longrightarrow> handleUpstream s TargetContainer m =
      Some (s\<lparr>merges := (merges s)(ReplySerial m \<mapsto> st\<lparr>contMsg := Some m\<rparr>)\<rparr>, m, None)"
  using r st by (auto simp: handleUpstream_def takeMerge_def is_reply_def Let_def split: option.splits)

text \<open>The merged reply of \<open>c\<close> and \<open>h\<close> is written, both are closed, the entry is gone.\<close>

definition merged_outcome :: "session \<Rightarrow> u32 \<Rightarrow> message \<Rightarrow> message \<Rightarrow> session \<Rightarrow> bool" where
  "merged_outcome s k c h t \<longleftrightarrow>
     (\<exists>merged e. mergeNameListReplies c h = Some merged \<and>
        WriteMessage (clientConn s) (merged\<lparr>FDs := []\<rparr>) = (clientConn t, e)) \<and>
     merges t = (merges s)(k := None) \<and> hostPending t = hostPending s \<and>
     hostConn t = hostConn s \<and> containerConn t = containerConn s \<and>
     hostUniqueNames t = hostUniqueNames s \<and>
     closedFDs (kernel t) = closedFDs (kernel s) @ filter ((\<le>) 0) (FDs h) @ filter ((\<le>) 0) (FDs c)"

lemma takeMerge_merges:
  assumes r: "is_reply m" and st: "merges s (ReplySerial m) = Some st"
    and side: "case origin of TargetHost \<Rightarrow> contMsg st = Some c \<and> h = m
       | TargetContainer \<Rightarrow> hostMsg st = Some h \<and> c = m"
    and merged: "mergeNameListReplies c h = Some merged"
  shows "\<exists>t. handleUpstream s origin m = Some (t, m, None) \<and> merged_outcome s (ReplySerial m) c h t"
proof -
  let ?w = "close_loop (FDs c) (close_loop (FDs h) (kernel s))"
  obtain cc e where w: "WriteMessage (clientConn s) (merged\<lparr>FDs := []\<rparr>) = (cc, e)" by fastforce
  let ?t = "s\<lparr>merges := (merges s)(ReplySerial m := None), kernel := ?w, clientConn := cc\<rparr>"
  have "takeMerge s origin m = Some (?t, True)"
    using st side merged w
    by (cases origin)
      (simp_all add: takeMerge_def Let_def session_CloseFDs_def CloseFDs_def SendToClient_def)
  then have "handleUpstream s origin m = Some (?t, m, None)"
    using r by (auto simp: handleUpstream_def is_reply_def)
  with merged w show ?thesis by (auto simp: merged_outcome_def)
qed

section \<open>ListNames, from the client through both buses and back\<close>

definition list_call :: "message \<Rightarrow> bool" where
  "list_call m \<longleftrightarrow> Type m = TypeMethodCall \<and> Destination m = ''org.freedesktop.DBus'' \<and>
     Member m \<in> {''ListNames'', ''ListActivatableNames''}"

lemma list_call_turn:
  assumes h: "healthy_session s" and host: "hostConn s \<noteq> None" and m: "list_call m"
  shows "\<exists>t. client_turn s m = Some t \<and> clientConn t = clientConn s \<and>
    (\<exists>ds. host_out t = host_out s @ [(Raw m, ds)]) \<and>
    outbox (containerConn t) = outbox (containerConn s) @ [(Raw m, FDs m)] \<and>
    merges t = (merges s)(Serial m \<mapsto> \<lparr>mmember = Member m, hostMsg = None, contMsg = None\<rparr>)"
proof -
  let ?s = "s\<lparr>merges := (merges s)(Serial m \<mapsto> \<lparr>mmember = Member m, hostMsg = None, contMsg = None\<rparr>)\<rparr>"
  obtain c where c: "hostConn s = Some c" "healthy c"
    using h host by (auto simp: healthy_session_def)
  obtain c' w e ds where wc: "writeHostCopy ?s m = Some (?s\<lparr>hostConn := Some c', kernel := w\<rparr>, e)"
    "WriteMessage c (zero_message\<lparr>Raw := Raw m, FDs := ds\<rparr>) = (c', e)"
    using writeHostCopy_effect [of ?s c m] c(1) by auto
  then have e: "e = None" "outbox c' = outbox c @ [(Raw m, ds)]"
    using WriteMessage_healthy [OF c(2), of "zero_message\<lparr>Raw := Raw m, FDs := ds\<rparr>"] by auto
  obtain k where k: "WriteMessage (containerConn s) m = (k, None)"
    "outbox k = outbox (containerConn s) @ [(Raw m, FDs m)]"
    using WriteMessage_healthy [of "containerConn s" m] h by (auto simp: healthy_session_def)
  let ?t = "?s\<lparr>hostConn := Some c', kernel := w, containerConn := k\<rparr>"
  have "handleDBusManagement s m = Some (?t, None)"
  proof -
    have "Member m = ''ListNames'' \<or> Member m = ''ListActivatableNames''"
      using m by (simp add: list_call_def)
    then have "handleDBusManagement s m = (do {
         (s, err) \<leftarrow> writeHostCopy ?s m;
         if err \<noteq> None then Some (SendToContainer (s\<lparr>merges := (merges s)(Serial m := None)\<rparr>) m)
         else Some (SendToContainer s m)
       })"
      using host by (elim disjE) (simp_all add: handleDBusManagement_def)
    with wc(1) e(1) k(1) show ?thesis by (simp add: SendToContainer_def)
  qed
  then have "client_turn s m = Some (fst (session_CloseFDs ?t m))"
    using m by (auto simp: client_turn_def DispatchClientMessage_def list_call_def split: prod.splits)
  then show ?thesis
    using k e c by (auto simp: session_CloseFDs_def CloseFDs_def host_out_def)
qed

lemma session_run_others:
  assumes "session_run s evs = Some t" and "list_all (ok_event (hostConn s \<noteq> None)) evs"
    and "list_all (\<lambda>ev. \<not> touches k ev) evs"
  shows "same_call k s t \<and> (hostConn t = None \<longleftrightarrow> hostConn s = None)"
  using assms
proof (induction evs arbitrary: s)
  case Nil
  then show ?case by (simp add: same_call_def)
next
  case (Cons ev evs)
  then obtain u where u: "session_turn s ev = Some u" "session_run u evs = Some t"
    by (auto split: bind_splits)
  have a: "admissible s ev" using Cons.prems(2) ok_event_admissible by auto
  have "same_call k s u" using others.R_turn [OF u(1) a, of k] Cons.prems(3) by auto
  moreover have "(hostConn u = None) = (hostConn s = None)"
    using growth.R_turn [OF u(1) a] evolves_host by blast
  ultimately show ?case using Cons.IH [OF u(2)] Cons.prems by (auto simp: same_call_def)
qed

text \<open>The two replies in either order: \<open>b\<close> says whether the container answers first.\<close>

definition first_reply :: "bool \<Rightarrow> message \<Rightarrow> message \<Rightarrow> event" where
  "first_reply b c h = (if b then FromContainer c else FromHost h)"

definition second_reply :: "bool \<Rightarrow> message \<Rightarrow> message \<Rightarrow> event" where
  "second_reply b c h = (if b then FromHost h else FromContainer c)"

lemma first_reply_turn:
  assumes "is_reply c" "is_reply h" "ReplySerial c = k" "ReplySerial h = k"
    and st: "merges s k = Some \<lparr>mmember = mem, hostMsg = None, contMsg = None\<rparr>"
  shows "\<exists>t. session_turn s (first_reply b c h) = Some t \<and> clientConn t = clientConn s \<and>
    hostConn t = hostConn s \<and>
    merges t k = Some (if b then \<lparr>mmember = mem, hostMsg = None, contMsg = Some c\<rparr>
      else \<lparr>mmember = mem, hostMsg = Some h, contMsg = None\<rparr>)"
  using assms takeMerge_stores [of c s] takeMerge_stores [of h s]
  by (auto simp: first_reply_def upstream_turn_def)

lemma second_reply_turn:
  assumes "is_reply c" "is_reply h" "ReplySerial c = k" "ReplySerial h = k"
    and st: "merges s k = Some (if b then \<lparr>mmember = mem, hostMsg = None, contMsg = Some c\<rparr>
      else \<lparr>mmember = mem, hostMsg = Some h, contMsg = None\<rparr>)"
    and merged: "mergeNameListReplies c h = Some merged"
  shows "\<exists>t. session_turn s (second_reply b c h) = Some t \<and> merged_outcome s k c h t"
proof -
  let ?origin = "if b then TargetHost else TargetContainer" and ?m = "if b then h else c"
  obtain t where t: "handleUpstream s ?origin ?m = Some (t, ?m, None)" "merged_outcome s k c h t"
    using takeMerge_merges [where m = ?m and s = s and origin = ?origin, OF _ _ _ merged] assms
    by (cases b) auto
  then have "session_turn s (second_reply b c h) = Some t"
    by (cases b) (simp_all add: second_reply_def upstream_turn_def)
  with t show ?thesis by blast
qed

section \<open>A session whose connections work\<close>

text \<open>While every write succeeds no event but a failing read ends the session.\<close>

lemma healthy_kernel [simp]: "healthy_session (s\<lparr>kernel := w\<rparr>) = healthy_session s"
  by (simp add: healthy_session_def)

lemma healthy_client_turn:
  assumes "healthy_session s" and "msg_ok m"
  shows "\<exists>t. client_turn s m = Some t \<and> healthy_session t"
proof -
  obtain u where u: "DispatchClientMessage s m = Some (u, None)" "carries_out (plan s m) s m u"
    using dispatch_carries_out [OF assms] by blast
  then have "healthy_session u"
    by (auto simp: carries_out_def delivered_def split: action.splits)
  with u(1) show ?thesis
    by (simp add: client_turn_def session_CloseFDs_def CloseFDs_def)
qed

lemma healthy_outcome:
  assumes "healthy_session s" and "upstream_outcome s from m t e"
  shows "e = None \<and> healthy_session t"
  using assms WriteMessage_healthy [of "clientConn s" m]
  by (auto simp: upstream_outcome_def healthy_session_def split: if_splits)

lemma healthy_merged:
  assumes "healthy_session s" and "merged_outcome s k c h t"
  shows "healthy_session t"
proof -
  obtain m e where "WriteMessage (clientConn s) m = (clientConn t, e)"
    using assms(2) by (auto simp: merged_outcome_def)
  then show ?thesis
    using assms WriteMessage_healthy [of "clientConn s" m]
    by (auto simp: merged_outcome_def healthy_session_def)
qed

lemma healthy_upstream_turn:
  assumes h: "healthy_session s" and i: "session_inv s" and m: "msg_ok m"
  shows "\<exists>t. upstream_turn s from m = Some t \<and> healthy_session t"
proof (cases "is_reply m \<and> merges s (ReplySerial m) \<noteq> None")
  case False
  then obtain t e where "handleUpstream s from m = Some (t, m\<lparr>FDs := []\<rparr>, e)" "upstream_outcome s from m t e"
    using handleUpstream_spec [of m s "from"] by auto
  moreover from this healthy_outcome [OF h] have "e = None" "healthy_session t" by blast+
  ultimately show ?thesis by (simp add: upstream_turn_def)
next
  case True
  then obtain st where r: "is_reply m" and st: "merges s (ReplySerial m) = Some st" by blast
  define other where "other = (if from = TargetHost then contMsg st else hostMsg st)"
  show ?thesis
  proof (cases other)
    case None
    with takeMerge_stores [OF r st] h show ?thesis
      by (cases "from") (auto simp: other_def upstream_turn_def)
  next
    case (Some o')
    define c h' where "c = (if from = TargetHost then o' else m)" and "h' = (if from = TargetHost then m else o')"
    have "msg_ok o'"
      using stored_ok_merge [OF i st] Some by (auto simp: stored_ok_def other_def split: if_splits)
    then have "\<exists>merged. mergeNameListReplies c h' = Some merged"
      using m merge_total [of c h'] by (auto simp: msg_ok_def c_def h'_def)
    then obtain t where "handleUpstream s from m = Some (t, m, None)" "merged_outcome s (ReplySerial m) c h' t"
      using takeMerge_merges [OF r st, where origin = "from" and c = c and h = h'] Some
      by (cases "from") (auto simp: c_def h'_def other_def)
    with healthy_merged [OF h] show ?thesis by (auto simp: upstream_turn_def)
  qed
qed

lemma healthy_turn:
  assumes "healthy_session s" and "session_inv s" and "admissible s ev" and "ev \<noteq> ReadFails"
  shows "\<exists>t. session_turn s ev = Some t \<and> healthy_session t"
  using assms healthy_client_turn healthy_upstream_turn by (cases ev) auto

text \<open>Other traffic: any events but a failing read, none of them about the call \<open>k\<close>.\<close>

definition other_traffic :: "u32 \<Rightarrow> event list \<Rightarrow> bool" where
  "other_traffic k evs \<longleftrightarrow>
     list_all (\<lambda>ev. ok_event True ev \<and> ev \<noteq> ReadFails \<and> \<not> touches k ev) evs"

definition works :: "session \<Rightarrow> bool" where
  "works s \<longleftrightarrow> healthy_session s \<and> session_inv s \<and> hostConn s \<noteq> None"

lemma works_turn:
  assumes w: "works s" and ev: "ok_event True ev" "ev \<noteq> ReadFails"
  shows "\<exists>t. session_turn s ev = Some t \<and> works t"
proof -
  have a: "admissible s ev" using w ev ok_event_admissible [of s ev] by (simp add: works_def)
  obtain t where t: "session_turn s ev = Some t" "healthy_session t"
    using healthy_turn [OF _ _ a ev(2)] w by (auto simp: works_def)
  have "session_inv t" "(hostConn t = None) = (hostConn s = None)"
    using inv.R_turn [OF t(1) a] evolves_host [OF growth.R_turn [OF t(1) a]] w
    by (auto simp: keeps_inv_def works_def)
  with t w show ?thesis by (auto simp: works_def)
qed

lemma works_traffic:
  assumes "works s" and "other_traffic k evs"
  shows "\<exists>t. session_run s evs = Some t \<and> works t \<and> same_call k s t"
  using assms
proof (induction evs arbitrary: s)
  case (Cons ev evs)
  then obtain u where u: "session_turn s ev = Some u" "works u"
    using works_turn [of s ev] by (auto simp: other_traffic_def)
  have a: "admissible s ev"
    using Cons.prems ok_event_admissible [of s ev] by (simp add: works_def other_traffic_def)
  have "same_call k s u" using others.R_turn [OF u(1) a, of k] Cons.prems(2) by (auto simp: other_traffic_def)
  with Cons.IH [OF u(2)] Cons.prems(2) u(1) show ?case
    by (fastforce simp: same_call_def other_traffic_def)
qed (simp add: same_call_def)

lemma session_run_append:
  "session_run s (xs @ ys) = Option.bind (session_run s xs) (\<lambda>t. session_run t ys)"
  by (induction xs arbitrary: s) (auto split: bind_splits)

section \<open>One ListNames in the middle of other traffic\<close>

text \<open>
  The states of the session: before the first reply, after it, before the second, at the end.
\<close>

lemma list_names_trace:
  assumes s: "works s" and m: "list_call m" "msg_ok m" "Serial m = k"
    and evs: "other_traffic k evs1" "other_traffic k evs2"
    and r: "is_reply c" "is_reply h" "ReplySerial c = k" "ReplySerial h = k"
    and ok: "msg_ok c" "msg_ok h"
  shows "\<exists>s2 s3 s4 t. session_run s (FromClient m # evs1) = Some s2 \<and>
    session_turn s2 (first_reply b c h) = Some s3 \<and> clientConn s3 = clientConn s2 \<and>
    session_run s3 evs2 = Some s4 \<and> session_turn s4 (second_reply b c h) = Some t \<and>
    healthy_session s4 \<and> merged_outcome s4 k c h t"
proof -
  obtain s1 where s1: "client_turn s m = Some s1" "works s1"
    "merges s1 k = Some \<lparr>mmember = Member m, hostMsg = None, contMsg = None\<rparr>"
    using list_call_turn [OF _ _ m(1), of s] works_turn [OF s, of "FromClient m"] m s
    by (auto simp: works_def)
  obtain s2 where s2: "session_run s1 evs1 = Some s2" "works s2" "same_call k s1 s2"
    using works_traffic [OF s1(2) evs(1)] by blast
  obtain s3 where s3: "session_turn s2 (first_reply b c h) = Some s3" "clientConn s3 = clientConn s2"
    "merges s3 k = Some (if b then \<lparr>mmember = Member m, hostMsg = None, contMsg = Some c\<rparr>
      else \<lparr>mmember = Member m, hostMsg = Some h, contMsg = None\<rparr>)"
    using first_reply_turn [OF r, of s2 "Member m" b] s1(3) s2(3) by (auto simp: same_call_def)
  have "works s3"
    using works_turn [OF s2(2), of "first_reply b c h"] s3(1) ok by (auto simp: first_reply_def)
  then obtain s4 where s4: "session_run s3 evs2 = Some s4" "works s4" "same_call k s3 s4"
    using works_traffic [OF _ evs(2)] by blast
  obtain merged where "mergeNameListReplies c h = Some merged"
    using merge_total [of c h] ok by (auto simp: msg_ok_def)
  then obtain t where t: "session_turn s4 (second_reply b c h) = Some t" "merged_outcome s4 k c h t"
    using second_reply_turn [OF r, of s4 b "Member m" merged] s3(3) s4(3) by (auto simp: same_call_def)
  have "session_run s (FromClient m # evs1) = Some s2" using s1(1) s2(1) by simp
  with s3 s4 t show ?thesis by (auto simp: works_def)
qed

section \<open>Messages of the grammar, ready for a session\<close>

lemma framed_dec_message:
  assumes "message_fits order fs"
    and "length (enc_message order typ flags version serial fs body) \<le> MaxMessageSize"
  shows "framed (dec_message order typ flags version serial fs body)"
proof -
  have "unat (HeaderLength (dec_message order typ flags version serial fs body)) =
    16 + align (length (enc_fields order [] fs)) 8"
    using assms(1) align_add [of 8 16 "length (enc_fields order [] fs)"]
    by (simp add: dec_message_envelope unat_padded_header_len message_fits_def)
  then show ?thesis
    using assms ParseHeader_parsed [OF ParseHeader_enc_message [OF assms(1)]]
    by (auto simp: framed_def dec_message_envelope length_enc_message)
qed

lemma framed_msg_ok: "framed m \<Longrightarrow> msg_ok m"
  by (simp add: framed_def msg_ok_def)

end
