(* ===== verification/Go_Text.thy ===== *)
theory Go_Text
  imports Lxg_Prelude
begin

text \<open>
  Text as Go prints and reads it: \<open>%d\<close> on a natural number, \<open>%q\<close> on ASCII text (which is all the
  program gives it), \<open>strings.TrimSpace\<close> on UTF-8 bytes, \<open>strconv.Atoi\<close> with its 64-bit range.
\<close>

section \<open>Printing\<close>

fun show_nat :: "nat \<Rightarrow> string" where
  "show_nat n = (if n < 10 then [char_of (48 + n)] else show_nat (n div 10) @ [char_of (48 + n mod 10)])"

declare show_nat.simps [simp del]

definition hex_digit :: "nat \<Rightarrow> char" where
  "hex_digit n = ''0123456789abcdef'' ! n"

definition quote_char :: "char \<Rightarrow> string" where
  "quote_char c =
     (if c = CHR 0x22 \<or> c = CHR 0x5C then [CHR 0x5C, c]
      else if c = CHR 0x07 then [CHR 0x5C, CHR ''a'']
      else if c = CHR 0x08 then [CHR 0x5C, CHR ''b'']
      else if c = CHR 0x0C then [CHR 0x5C, CHR ''f'']
      else if c = CHR 0x0A then [CHR 0x5C, CHR ''n'']
      else if c = CHR 0x0D then [CHR 0x5C, CHR ''r'']
      else if c = CHR 0x09 then [CHR 0x5C, CHR ''t'']
      else if c = CHR 0x0B then [CHR 0x5C, CHR ''v'']
      else let n = of_char c :: nat in
        if 32 \<le> n \<and> n < 127 then [c] else [CHR 0x5C, CHR ''x'', hex_digit (n div 16), hex_digit (n mod 16)])"

definition quote :: "string \<Rightarrow> string" where
  "quote s = [CHR 0x22] @ concat (map quote_char s) @ [CHR 0x22]"

lemma show_nat_digits: "c \<in> set (show_nat n) \<Longrightarrow> 48 \<le> (of_char c :: nat) \<and> (of_char c :: nat) \<le> 57"
proof (induction n arbitrary: c rule: show_nat.induct)
  case (1 n)
  show ?case
  proof (cases "n < 10")
    case True
    with 1(2) show ?thesis by (subst (asm) show_nat.simps) (simp add: of_char_of)
  next
    case False
    with 1(2) have "c \<in> set (show_nat (n div 10)) \<or> c = char_of (48 + n mod 10)"
      by (subst (asm) show_nat.simps) auto
    then show ?thesis
    proof
      assume c: "c = char_of (48 + n mod 10)"
      have "n mod 10 < 10" by simp
      then show ?thesis unfolding c by (subst of_char_of)+ simp
    qed (use 1(1) [OF False] in blast)
  qed
qed

lemma show_nat_nonempty: "show_nat n \<noteq> []"
  by (subst show_nat.simps) simp

section \<open>ToUpper\<close>

text \<open>\<open>strings.ToUpper\<close> on letters.\<close>

definition upper :: "char \<Rightarrow> char" where
  "upper c = (let n = of_char c :: nat in if 97 \<le> n \<and> n \<le> 122 then char_of (n - 32) else c)"

section \<open>TrimSpace\<close>

text \<open>The encodings of the code points that \<open>unicode.IsSpace\<close> accepts.\<close>

definition spaces :: "string list" where
  "spaces = [[CHR 0x09], [CHR 0x0A], [CHR 0x0B], [CHR 0x0C], [CHR 0x0D], '' '',
     [CHR 0xC2, CHR 0x85], [CHR 0xC2, CHR 0xA0], [CHR 0xE1, CHR 0x9A, CHR 0x80]]
     @ map (\<lambda>c. [CHR 0xE2, CHR 0x80, c])
         [CHR 0x80, CHR 0x81, CHR 0x82, CHR 0x83, CHR 0x84, CHR 0x85, CHR 0x86, CHR 0x87, CHR 0x88, CHR 0x89, CHR 0x8A]
     @ [[CHR 0xE2, CHR 0x80, CHR 0xA8], [CHR 0xE2, CHR 0x80, CHR 0xA9], [CHR 0xE2, CHR 0x80, CHR 0xAF],
        [CHR 0xE2, CHR 0x81, CHR 0x9F], [CHR 0xE3, CHR 0x80, CHR 0x80]]"

function strip :: "string list \<Rightarrow> string \<Rightarrow> string" where
  "strip ws s =
     (case find (\<lambda>w. w \<noteq> [] \<and> HasPrefix s w) ws of
        None \<Rightarrow> s
      | Some w \<Rightarrow> strip ws (drop (length w) s))"
  by pat_completeness auto
termination
  by (relation "measure (\<lambda>(ws, s). length s)") (auto simp: find_Some_iff HasPrefix_def intro!: diff_less dest: le_zero_eq [THEN iffD1])

declare strip.simps [simp del]

definition TrimSpace :: "string \<Rightarrow> string" where
  "TrimSpace s = rev (strip (map rev spaces) (rev (strip spaces s)))"

section \<open>Atoi\<close>

definition is_digit :: "char \<Rightarrow> bool" where
  "is_digit c \<longleftrightarrow> (let n = of_char c :: nat in 48 \<le> n \<and> n \<le> 57)"

definition digits_value :: "string \<Rightarrow> int" where
  "digits_value s = foldl (\<lambda>v c. 10 * v + (int (of_char c) - 48)) 0 s"

definition parse_int :: "bool \<Rightarrow> string \<Rightarrow> int option" where
  "parse_int neg s =
     (let v = (if neg then - digits_value s else digits_value s)
      in if s \<noteq> [] \<and> list_all is_digit s \<and> - (2 ^ 63) \<le> v \<and> v < 2 ^ 63 then Some v else None)"

definition Atoi :: "string \<Rightarrow> int option" where
  "Atoi s =
     (case s of
        [] \<Rightarrow> None
      | c # rest \<Rightarrow>
          if c = CHR ''-'' then parse_int True rest
          else if c = CHR ''+'' then parse_int False rest
          else parse_int False s)"

section \<open>A printed number is read back\<close>

lemma digits_value_snoc: "digits_value (s @ [c]) = 10 * digits_value s + (int (of_char c) - 48)"
  by (simp add: digits_value_def)

lemma digits_value_show_nat: "digits_value (show_nat n) = int n"
proof (induction n rule: show_nat.induct)
  case (1 n)
  show ?case
  proof (cases "n < 10")
    case True
    then show ?thesis by (subst show_nat.simps) (simp add: digits_value_def of_char_of)
  next
    case False
    have "n mod 10 < 10" by simp
    then have "(of_char (char_of (48 + n mod 10) :: char) :: nat) = 48 + n mod 10"
      by (subst of_char_of) simp
    with 1 [OF False] False show ?thesis
      by (subst show_nat.simps) (simp add: digits_value_snoc, presburger)
  qed
qed

lemma is_digit_show_nat: "list_all is_digit (show_nat n)"
  using show_nat_digits by (auto simp: list_all_iff is_digit_def Let_def)

lemma Atoi_show_nat: "int n < 2 ^ 63 \<Longrightarrow> Atoi (show_nat n) = Some (int n)"
proof -
  assume n: "int n < 2 ^ 63"
  obtain c rest where s: "show_nat n = c # rest" using show_nat_nonempty by (cases "show_nat n") auto
  have "c \<noteq> CHR ''-''" "c \<noteq> CHR ''+''" using show_nat_digits [of c n] by (auto simp: s)
  then have "Atoi (show_nat n) = parse_int False (show_nat n)" by (simp add: Atoi_def s)
  also have "\<dots> = Some (int n)"
    using n is_digit_show_nat by (simp add: parse_int_def digits_value_show_nat show_nat_nonempty)
  finally show ?thesis .
qed

text \<open>Text without white space at its ends is only stripped of what surrounds it.\<close>

lemma strip_id: "(\<And>w. w \<in> set ws \<Longrightarrow> w \<noteq> [] \<Longrightarrow> \<not> HasPrefix s w) \<Longrightarrow> strip ws s = s"
  by (subst strip.simps) (auto split: option.split simp: find_Some_iff)

lemma spaces_not_digits:
  "list_all (\<lambda>w. w \<noteq> [] \<and> \<not> is_digit (hd w)) spaces"
  "list_all (\<lambda>w. w \<noteq> [] \<and> \<not> is_digit (hd w)) (map rev spaces)"
  by (simp_all add: spaces_def is_digit_def)

lemma space_first: "w \<in> set spaces \<Longrightarrow> w \<noteq> [] \<and> \<not> is_digit (hd w)"
  using spaces_not_digits(1) by (simp only: list_all_iff) simp

lemma space_last: "w \<in> set (map rev spaces) \<Longrightarrow> w \<noteq> [] \<and> \<not> is_digit (hd w)"
  using spaces_not_digits(2) by (simp only: list_all_iff) simp

lemma strip_digit:
  assumes "is_digit c" and "\<And>w. w \<in> set ws \<Longrightarrow> w \<noteq> [] \<and> \<not> is_digit (hd w)"
  shows "strip ws (c # s) = c # s"
proof (rule strip_id)
  fix w
  assume "w \<in> set ws"
  from assms(2) [OF this] obtain x t where "w = x # t" "\<not> is_digit x" by (cases w) auto
  with assms(1) show "\<not> HasPrefix (c # s) w" by (auto simp: HasPrefix_def)
qed

lemma TrimSpace_line:
  assumes "s \<noteq> []" and "list_all is_digit s"
  shows "TrimSpace (s @ [CHR 0x0A]) = s"
proof -
  obtain c t where s: "s = c # t" using assms(1) by (cases s) auto
  obtain u d where r: "s = u @ [d]" using assms(1) by (cases s rule: rev_cases) auto
  have cd: "is_digit c" "is_digit d" using assms(2) by (simp add: s) (use assms(2) in \<open>simp add: r\<close>)
  have 1: "strip spaces (s @ [CHR 0x0A]) = s @ [CHR 0x0A]"
    using strip_digit [OF cd(1) space_first, where s = "t @ [CHR 0x0A]"] by (simp only: s append.simps)
  have "find (\<lambda>w. w \<noteq> [] \<and> HasPrefix (CHR 0x0A # rev s) w) (map rev spaces) = Some [CHR 0x0A]"
    by (simp add: spaces_def HasPrefix_def)
  then have "strip (map rev spaces) (CHR 0x0A # rev s) = strip (map rev spaces) (rev s)"
    by (subst strip.simps) (simp only: option.case, simp)
  also have "\<dots> = rev s" using strip_digit [OF cd(2) space_last, where s = "rev u"] by (simp only: r rev_append rev.simps append.simps)
  finally have "rev (strip (map rev spaces) (rev (s @ [CHR 0x0A]))) = s" by (simp only: rev_append rev.simps append.simps rev_rev_ident)
  then show ?thesis by (simp only: TrimSpace_def 1)
qed

end
