(* ===== verification/Dbus_Sasl.thy ===== *)
theory Dbus_Sasl
  imports Dbus_Reader Go_Text
begin

text \<open>
  The SASL handshakes of \<open>container/dbus/sasl.go\<close>: \<open>AuthenticateClient\<close>, which plays the
  server towards a client, and \<open>AuthenticateUpstream\<close>, which plays the client towards a bus.

  The incoming side of the socket is the list of the pieces in which its bytes arrive; a read
  takes at most as many bytes as it has room for, and fails at the end of the list. The
  outgoing side is a \<open>conn\<close>. \<open>bufio.Reader\<close> is modelled with its buffer of 4096 bytes,
  because what it has buffered when the handshake ends is what \<open>AuthenticateClient\<close> returns.
\<close>

section \<open>bufio.Reader\<close>

record bufio =
  bsrc :: "byte list list"
  bbuf :: "byte list"

abbreviation (input) newline :: byte where "newline \<equiv> 10"
abbreviation (input) bufsize :: nat where "bufsize \<equiv> 4096"

text \<open>One \<open>Read\<close> of the socket with room for \<open>n\<close> bytes.\<close>

fun sock_read :: "nat \<Rightarrow> byte list list \<Rightarrow> (byte list \<times> byte list list) option" where
  "sock_read n [] = None"
| "sock_read n (c # cs) =
     Some (take n c, if length c \<le> n then cs else drop n c # cs)"

definition fill :: "bufio \<Rightarrow> bufio option" where
  "fill b =
     (case sock_read (bufsize - length (bbuf b)) (bsrc b) of
        None \<Rightarrow> None
      | Some (bs, rest) \<Rightarrow> Some \<lparr>bsrc = rest, bbuf = bbuf b @ bs\<rparr>)"

fun split_line :: "byte list \<Rightarrow> (byte list \<times> byte list) option" where
  "split_line [] = None"
| "split_line (c # cs) =
     (if c = newline then Some ([c], cs)
      else map_option (\<lambda>(l, r). (c # l, r)) (split_line cs))"

definition pending_bytes :: "bufio \<Rightarrow> nat" where
  "pending_bytes b = 2 * length (concat (bsrc b)) + length (bsrc b) + length (bbuf b)"

lemma fill_less: "fill b = Some b' \<Longrightarrow> length (bbuf b) < bufsize \<Longrightarrow> pending_bytes b' < pending_bytes b"
  by (cases "bsrc b") (auto simp: fill_def pending_bytes_def)

text \<open>
  \<open>ReadString\<close>: the next line with its delimiter; a full buffer is emptied into the line. At
  the end of the input the rest is consumed and the result is an error.
\<close>

function ReadString :: "byte list \<Rightarrow> bufio \<Rightarrow> bufio \<times> (io_error + byte list)" where
  "ReadString line b =
     (case split_line (bbuf b) of
        Some (l, rest) \<Rightarrow> (b\<lparr>bbuf := rest\<rparr>, Inr (line @ l))
      | None \<Rightarrow>
          if bufsize \<le> length (bbuf b) then ReadString (line @ bbuf b) (b\<lparr>bbuf := []\<rparr>)
          else case fill b of
            None \<Rightarrow> (b\<lparr>bbuf := []\<rparr>, Inl ErrEOF)
          | Some b' \<Rightarrow> ReadString line b')"
  by pat_completeness auto
termination
proof (relation "measure (\<lambda>(line, b). pending_bytes b)", goal_cases)
  case (2 line b)
  then have "0 < length (bbuf b)" by linarith
  then show ?case by (simp add: pending_bytes_def)
qed (auto simp: fill_less not_le)

declare ReadString.simps [simp del]

section \<open>The package strings on lines\<close>

text \<open>\<open>strings.TrimRight(line, "\r\n")\<close>\<close>

definition TrimRight :: "byte list \<Rightarrow> byte list" where
  "TrimRight line = rev (dropWhile (\<lambda>c. c = 13 \<or> c = 10) (rev line))"

text \<open>
  The white space of \<open>strings.Fields\<close> in UTF-8. A byte that starts one of these sequences
  never occurs inside another character, so a scan byte by byte finds the same separators as
  Go's scan by runes, valid UTF-8 or not.
\<close>

definition space_len :: "byte list \<Rightarrow> nat" where
  "space_len s =
     (if s \<noteq> [] \<and> s ! 0 \<in> {9, 10, 11, 12, 13, 32} then 1
      else if 2 \<le> length s \<and> s ! 0 = 0xC2 \<and> s ! 1 \<in> {0x85, 0xA0} then 2
      else if 3 \<le> length s \<and>
        (s ! 0 = 0xE1 \<and> s ! 1 = 0x9A \<and> s ! 2 = 0x80 \<or>
         s ! 0 = 0xE2 \<and> s ! 1 = 0x80 \<and> (0x80 \<le> s ! 2 \<and> s ! 2 \<le> 0x8A \<or> s ! 2 \<in> {0xA8, 0xA9, 0xAF}) \<or>
         s ! 0 = 0xE2 \<and> s ! 1 = 0x81 \<and> s ! 2 = 0x9F \<or>
         s ! 0 = 0xE3 \<and> s ! 1 = 0x80 \<and> s ! 2 = 0x80) then 3
      else 0)"

function fields_loop :: "byte list \<Rightarrow> byte list \<Rightarrow> string list" where
  "fields_loop word [] = (if word = [] then [] else [string_of_bytes word])"
| "fields_loop word (c # cs) =
     (let k = space_len (c # cs)
      in if 0 < k then
           (if word = [] then fields_loop [] (drop k (c # cs))
            else string_of_bytes word # fields_loop [] (drop k (c # cs)))
         else fields_loop (word @ [c]) cs)"
  by pat_completeness auto
termination
  by (relation "measure (\<lambda>(word, s). length s)") auto

definition Fields :: "byte list \<Rightarrow> string list" where
  "Fields s = fields_loop [] s"

section \<open>AuthenticateClient\<close>

definition crlf :: string where "crlf = [CHR 0x0D, CHR 0x0A]"

definition serverGUID :: string where "serverGUID = ''10000000000000000000000000000000''"

definition saslRejected :: string where "saslRejected = ''REJECTED EXTERNAL'' @ crlf"
definition saslOK :: string where "saslOK = ''OK '' @ serverGUID @ crlf"
definition saslDataChallenge :: string where "saslDataChallenge = ''DATA'' @ crlf"
definition saslAgreeUnixFD :: string where "saslAgreeUnixFD = ''AGREE_UNIX_FD'' @ crlf"

datatype sasl_error = SaslIO io_error | SaslFirstByte byte | SaslRejectedUpstream

definition writeSASL :: "conn \<Rightarrow> string \<Rightarrow> conn \<times> io_error option" where
  "writeSASL conn line = conn_Write (bytes_of_string line) conn"

text \<open>What the switch on the words of a line does: write a reply, or end the handshake.\<close>

datatype sasl_step = Reply string | Begin

definition sasl_step :: "string list \<Rightarrow> sasl_step" where
  "sasl_step parts =
     (case parts of
        [] \<Rightarrow> Reply saslRejected
      | cmd # args \<Rightarrow>
          if cmd = ''AUTH'' then
            (case args of
               [] \<Rightarrow> Reply saslRejected
             | mech # rest \<Rightarrow>
                 if mech \<noteq> ''EXTERNAL'' then Reply saslRejected
                 else if rest \<noteq> [] then Reply saslOK
                 else Reply saslDataChallenge)
          else if cmd = ''DATA'' then Reply saslOK
          else if cmd = ''NEGOTIATE_UNIX_FD'' then Reply saslAgreeUnixFD
          else if cmd = ''BEGIN'' then Begin
          else if cmd \<in> {''CANCEL'', ''ERROR''} then Reply saslRejected
          else Reply saslRejected)"

lemma split_line_Some:
  "split_line s = Some (l, r) \<Longrightarrow> s = l @ r \<and> l \<noteq> []"
  by (induction s arbitrary: l r) (auto split: if_splits)

lemma split_line_None: "split_line s = None \<longleftrightarrow> newline \<notin> set s"
  by (induction s) auto

text \<open>The bytes a reader still has to give, however they are cut into pieces.\<close>

definition bufio_stream :: "bufio \<Rightarrow> byte list" where
  "bufio_stream b = bbuf b @ concat (bsrc b)"

lemma fill_stream:
  assumes "fill b = Some b'"
  shows "bufio_stream b' = bufio_stream b"
proof (cases "bsrc b")
  case Nil
  with assms show ?thesis by (simp add: fill_def)
next
  case (Cons c cs)
  let ?n = "bufsize - length (bbuf b)"
  have "bufio_stream b' = bbuf b @ (take ?n c @ drop ?n c) @ concat cs"
    using assms Cons by (auto simp: fill_def bufio_stream_def simp del: append_take_drop_id)
  then show ?thesis using Cons by (simp add: bufio_stream_def)
qed

lemma split_line_append_None:
  "split_line s = None \<Longrightarrow> split_line (s @ t) = map_option (\<lambda>(l, r). (s @ l, r)) (split_line t)"
  by (induction s; cases "split_line t") (auto split: if_splits)

lemma split_line_append:
  "split_line s = Some (l, r) \<Longrightarrow> split_line (s @ t) = Some (l, r @ t)"
  by (induction s arbitrary: l r) (auto split: if_splits)

lemma ReadString_stream:
  assumes "ReadString line b = (b', r)"
  shows "case split_line (bufio_stream b) of
      None \<Rightarrow> r = Inl ErrEOF \<and> bufio_stream b' = []
    | Some (l, rest) \<Rightarrow> r = Inr (line @ l) \<and> bufio_stream b' = rest"
  using assms
proof (induction line b rule: ReadString.induct)
  case (1 line b)
  show ?case
  proof (cases "split_line (bbuf b)")
    case (Some lr)
    obtain l rest where lr: "lr = (l, rest)" by fastforce
    with Some 1(3) have "b' = b\<lparr>bbuf := rest\<rparr>" "r = Inr (line @ l)"
      by (subst (asm) ReadString.simps, simp)+
    moreover have "split_line (bufio_stream b) = Some (l, rest @ concat (bsrc b))"
      using Some lr by (simp add: bufio_stream_def split_line_append)
    ultimately show ?thesis by (simp add: bufio_stream_def)
  next
    case None
    show ?thesis
    proof (cases "bufsize \<le> length (bbuf b)")
      case True
      have "ReadString (line @ bbuf b) (b\<lparr>bbuf := []\<rparr>) = (b', r)"
        using 1(3) None True by (subst (asm) ReadString.simps) simp
      from 1(1) [OF None True this] show ?thesis
        using None by (auto simp: bufio_stream_def split_line_append_None split: option.splits)
    next
      case False
      show ?thesis
      proof (cases "fill b")
        case fn: None
        then have "bsrc b = []" by (cases "bsrc b") (simp_all add: fill_def)
        with 1(3) None False fn show ?thesis
          by (subst (asm) ReadString.simps) (auto simp: bufio_stream_def)
      next
        case (Some b1)
        have "ReadString line b1 = (b', r)"
          using 1(3) None False Some by (subst (asm) ReadString.simps) simp
        from 1(2) [OF None False Some this] show ?thesis by (simp add: fill_stream [OF Some])
      qed
    qed
  qed
qed

lemma ReadString_shorter:
  assumes "ReadString line b = (b', Inr l)"
  shows "length (bufio_stream b') < length (bufio_stream b)"
  using ReadString_stream [OF assms] split_line_Some [of "bufio_stream b"]
  by (fastforce split: option.splits)

function auth_loop :: "bufio \<Rightarrow> conn \<Rightarrow> bufio \<times> conn \<times> (sasl_error + byte list)" where
  "auth_loop b conn =
     (case ReadString [] b of
        (b, Inl err) \<Rightarrow> (b, conn, Inl (SaslIO err))
      | (b, Inr line) \<Rightarrow>
          (case sasl_step (Fields (TrimRight line)) of
             Begin \<Rightarrow> (b\<lparr>bbuf := []\<rparr>, conn, Inr (bbuf b))
           | Reply reply \<Rightarrow>
               (case writeSASL conn reply of
                  (conn, Some err) \<Rightarrow> (b, conn, Inl (SaslIO err))
                | (conn, None) \<Rightarrow> auth_loop b conn)))"
  by pat_completeness auto
termination
  by (relation "measure (\<lambda>(b, conn). length (bufio_stream b))") (auto dest: ReadString_shorter [OF sym])

declare auth_loop.simps [simp del]

definition AuthenticateClient ::
  "byte list list \<Rightarrow> conn \<Rightarrow> bufio \<times> conn \<times> (sasl_error + byte list)" where
  "AuthenticateClient src conn =
     (case sock_read 1 src of
        None \<Rightarrow> (\<lparr>bsrc = src, bbuf = []\<rparr>, conn, Inl (SaslIO ErrEOF))
      | Some (bs, src) \<Rightarrow>
          let firstByte = (case bs of [] \<Rightarrow> 0 | c # _ \<Rightarrow> c); reader = \<lparr>bsrc = src, bbuf = []\<rparr>
          in if firstByte \<noteq> 0 then (reader, conn, Inl (SaslFirstByte firstByte))
             else auth_loop reader conn)"

section \<open>The dialogue as a function of the stream\<close>

text \<open>
  The reference: the replies to the lines before \<open>BEGIN\<close>, and the bytes after it (\<open>None\<close> if
  the client goes away first). It knows nothing of pieces and buffers.
\<close>

function dialogue :: "byte list \<Rightarrow> string list \<times> byte list option" where
  "dialogue s =
     (case split_line s of
        None \<Rightarrow> ([], None)
      | Some (line, rest) \<Rightarrow>
          (case sasl_step (Fields (TrimRight line)) of
             Begin \<Rightarrow> ([], Some rest)
           | Reply reply \<Rightarrow> (case dialogue rest of (replies, x) \<Rightarrow> (reply # replies, x))))"
  by pat_completeness auto
termination
  by (relation "measure length") (auto dest: split_line_Some)

declare dialogue.simps [simp del]

lemma writeSASL_healthy:
  "healthy c \<Longrightarrow> \<exists>c'. writeSASL c line = (c', None) \<and> healthy c' \<and>
     outbox c' = outbox c @ [(bytes_of_string line, [])]"
  by (auto simp: healthy_def writeSASL_def conn_Write_def push_def)

lemma auth_loop_dialogue:
  assumes "healthy conn" and "auth_loop b conn = (b', conn', r)"
    and "dialogue (bufio_stream b) = (replies, x)"
  shows "outbox conn' = outbox conn @ map (\<lambda>l. (bytes_of_string l, [])) replies \<and>
    (case x of None \<Rightarrow> r = Inl (SaslIO ErrEOF)
     | Some rest \<Rightarrow> \<exists>extra. r = Inr extra \<and> extra @ bufio_stream b' = rest \<and> bbuf b' = [])"
  using assms
proof (induction b conn arbitrary: replies rule: auth_loop.induct)
  case (1 b conn)
  obtain b1 x1 where rs: "ReadString [] b = (b1, x1)" by fastforce
  note st = ReadString_stream [OF rs]
  show ?case
  proof (cases "split_line (bufio_stream b)")
    case None
    with st rs 1(3,4) show ?thesis
      by (auto simp: auth_loop.simps [of b conn] dialogue.simps [of "bufio_stream b"])
  next
    case (Some lr)
    obtain l rest where lr: "split_line (bufio_stream b) = Some (l, rest)" using Some by (cases lr) auto
    then have x1: "x1 = Inr l" and rest: "bufio_stream b1 = rest" using st by auto
    show ?thesis
    proof (cases "sasl_step (Fields (TrimRight l))")
      case Begin
      have "replies = []" "x = Some rest"
        using 1(4) lr Begin by (simp_all add: dialogue.simps [of "bufio_stream b"])
      with rs x1 rest Begin 1(3) show ?thesis
        by (auto simp: auth_loop.simps [of b conn] bufio_stream_def)
    next
      case (Reply reply)
      obtain c1 where c1: "writeSASL conn reply = (c1, None)" "healthy c1"
        "outbox c1 = outbox conn @ [(bytes_of_string reply, [])]"
        using writeSASL_healthy [OF 1(2)] by blast
      have l1: "auth_loop b1 c1 = (b', conn', r)"
        using 1(3) rs x1 Reply c1(1) by (simp add: auth_loop.simps [of b conn])
      obtain replies1 where d: "dialogue (bufio_stream b1) = (replies1, x)" "replies = reply # replies1"
        using 1(4) lr Reply rest by (auto simp: dialogue.simps [of "bufio_stream b"] split: prod.splits)
      from 1(1) [OF rs [symmetric] x1 Reply c1(1) [symmetric] refl c1(2) l1 d(1)] c1(3) d(2)
      show ?thesis by simp
    qed
  qed
qed

lemma AuthenticateClient_dialogue:
  assumes h: "healthy conn" and src: "concat src = 0 # s" "[] \<notin> set src"
    and a: "AuthenticateClient src conn = (b, conn', r)" and d: "dialogue s = (replies, x)"
  shows "outbox conn' = outbox conn @ map (\<lambda>l. (bytes_of_string l, [])) replies \<and>
    (case x of None \<Rightarrow> r = Inl (SaslIO ErrEOF)
     | Some rest \<Rightarrow> \<exists>extra. r = Inr extra \<and> extra @ concat (bsrc b) = rest)"
proof -
  obtain c cs where c: "src = c # cs" "c \<noteq> []" using src by (cases src) auto
  then obtain c' where c': "c = 0 # c'" using src(1) by (cases c) auto
  let ?b = "\<lparr>bsrc = (if length c \<le> 1 then cs else drop 1 c # cs), bbuf = []\<rparr>"
  have "auth_loop ?b conn = (b, conn', r)"
    using a c c' by (auto simp: AuthenticateClient_def)
  moreover have "bufio_stream ?b = s"
    using src(1) c c' by (auto simp: bufio_stream_def)
  ultimately show ?thesis
    using auth_loop_dialogue [OF h, of ?b b conn' r replies x] d
    by (auto simp: bufio_stream_def split: option.splits)
qed

section \<open>Lines of plain words\<close>

text \<open>A word of printable ASCII; a line is words separated by single blanks and ended by CR LF.\<close>

definition plain :: "byte list \<Rightarrow> bool" where
  "plain w \<longleftrightarrow> w \<noteq> [] \<and> (\<forall>c \<in> set w. 33 \<le> c \<and> c < 127)"

fun join :: "byte list list \<Rightarrow> byte list" where
  "join [] = []"
| "join [w] = w"
| "join (w # ws) = w @ 32 # join ws"

lemma space_len_plain:
  assumes "33 \<le> c" and "c < 127"
  shows "space_len (c # cs) = 0"
proof -
  have "c \<notin> {9, 10, 11, 12, 13, 32}" and "c \<notin> {0xC2, 0xE1, 0xE2, 0xE3}" using assms by auto
  then show ?thesis by (simp add: space_len_def)
qed

lemma plain_blank: "33 \<le> c \<Longrightarrow> 32 \<le> (c :: byte)"
  by (rule order.trans [of 32 33]) simp_all

lemma fields_loop_plain:
  "\<forall>c \<in> set w. 33 \<le> c \<and> c < 127 \<Longrightarrow> fields_loop word (w @ s) = fields_loop (word @ w) s"
  by (induction w arbitrary: word) (simp_all add: space_len_plain)

lemma space_len_blank [simp]: "space_len (32 # cs) = 1"
  by (simp add: space_len_def)

lemma Fields_join: "list_all plain ws \<Longrightarrow> Fields (join ws) = map string_of_bytes ws"
  unfolding Fields_def
proof (induction ws rule: join.induct)
  case (2 w)
  then show ?case using fields_loop_plain [of w "[]" "[]"] by (simp add: plain_def)
next
  case (3 w v vs)
  then show ?case using fields_loop_plain [of w "[]" "32 # join (v # vs)"] by (simp add: plain_def)
qed simp

lemma set_join: "set (join ws) \<subseteq> insert 32 (\<Union> (set ` set ws))"
  by (induction ws rule: join.induct) auto

lemma join_bytes:
  assumes "list_all plain ws" and "c \<in> set (join ws)"
  shows "32 \<le> c"
proof -
  from assms(2) set_join have "c = 32 \<or> (\<exists>w \<in> set ws. c \<in> set w)" by fastforce
  with assms(1) show ?thesis by (auto simp: list_all_iff plain_def intro: plain_blank)
qed

lemma split_line_here: "newline \<notin> set l \<Longrightarrow> split_line (l @ newline # rest) = Some (l @ [newline], rest)"
  by (induction l) auto

lemma TrimRight_crlf: "\<forall>c \<in> set l. 32 \<le> c \<Longrightarrow> TrimRight (l @ [13, 10]) = l"
proof (cases l rule: rev_cases)
  case (snoc l' c)
  assume "\<forall>c \<in> set l. 32 \<le> c"
  with snoc have "c \<noteq> 13 \<and> c \<noteq> 10" by auto
  with snoc show ?thesis by (simp add: TrimRight_def)
qed (simp add: TrimRight_def)

lemma dialogue_line:
  assumes "list_all plain ws"
  shows "dialogue (join ws @ 13 # 10 # rest) =
    (case sasl_step (map string_of_bytes ws) of
       Begin \<Rightarrow> ([], Some rest)
     | Reply reply \<Rightarrow> (case dialogue rest of (replies, x) \<Rightarrow> (reply # replies, x)))"
proof -
  have b: "\<forall>c \<in> set (join ws). 32 \<le> c" using join_bytes [OF assms] by blast
  then have "newline \<notin> set (join ws @ [13])" by auto
  then have "split_line (join ws @ 13 # 10 # rest) = Some (join ws @ [13, 10], rest)"
    using split_line_here [of "join ws @ [13]" rest] by simp
  then show ?thesis
    using b by (simp add: dialogue.simps [of "join ws @ 13 # 10 # rest"] TrimRight_crlf Fields_join [OF assms])
qed

section \<open>AuthenticateUpstream\<close>

text \<open>\<open>hex.EncodeToString\<close>; the id is printed with \<open>fmt.Appendf(nil, "%d", uid)\<close>.\<close>

definition EncodeToString :: "string \<Rightarrow> string" where
  "EncodeToString s = concat (map (\<lambda>c. [hex_digit (of_char c div 16), hex_digit (of_char c mod 16)]) s)"

definition AuthenticateUpstream ::
  "nat \<Rightarrow> byte list list \<Rightarrow> conn \<Rightarrow> bufio \<times> conn \<times> sasl_error option" where
  "AuthenticateUpstream uid src conn =
     (let uidHex = EncodeToString (show_nat uid);
          authCmd = CHR 0x00 # ''AUTH EXTERNAL '' @ uidHex @ crlf;
          reader = \<lparr>bsrc = src, bbuf = []\<rparr>
      in case conn_Write (bytes_of_string authCmd) conn of
           (conn, Some err) \<Rightarrow> (reader, conn, Some (SaslIO err))
         | (conn, None) \<Rightarrow>
             (case ReadString [] reader of
                (reader, Inl err) \<Rightarrow> (reader, conn, Some (SaslIO err))
              | (reader, Inr response) \<Rightarrow>
                  if \<not> HasPrefix (string_of_bytes response) ''OK''
                  then (reader, conn, Some SaslRejectedUpstream)
                  else
                    (case conn_Write (bytes_of_string (''NEGOTIATE_UNIX_FD'' @ crlf)) conn of
                       (conn, Some err) \<Rightarrow> (reader, conn, Some (SaslIO err))
                     | (conn, None) \<Rightarrow>
                         (case ReadString [] reader of
                            (reader, Inl err) \<Rightarrow> (reader, conn, Some (SaslIO err))
                          | (reader, Inr _) \<Rightarrow>
                              (case conn_Write (bytes_of_string (''BEGIN'' @ crlf)) conn of
                                 (conn, Some err) \<Rightarrow> (reader, conn, Some (SaslIO err))
                               | (conn, None) \<Rightarrow> (reader, conn, None))))))"

text \<open>Everything a successful handshake sends.\<close>

definition upstream_script :: "nat \<Rightarrow> string" where
  "upstream_script uid =
     CHR 0x00 # ''AUTH EXTERNAL '' @ EncodeToString (show_nat uid) @ crlf @
     ''NEGOTIATE_UNIX_FD'' @ crlf @ ''BEGIN'' @ crlf"

lemma bytes_of_string_simps [simp]:
  "bytes_of_string [] = []" "bytes_of_string (c # s) = byte_of_char c # bytes_of_string s"
  "bytes_of_string (s @ t) = bytes_of_string s @ bytes_of_string t"
  by (simp_all add: bytes_of_string_def)

lemma conn_Write_healthy:
  "healthy c \<Longrightarrow> \<exists>c'. conn_Write bs c = (c', None) \<and> healthy c' \<and> outbox c' = outbox c @ [(bs, [])]"
  by (auto simp: healthy_def conn_Write_def push_def)

lemma conn_bytes_outbox: "outbox c' = outbox c @ [(bs, [])] \<Longrightarrow> conn_bytes c' = conn_bytes c @ bs"
  by (simp add: conn_bytes_def)

text \<open>
  The handshake succeeds exactly when the bus answers two lines, the first starting with
  \<open>OK\<close>; then the whole script has been sent, else a part of it.
\<close>

lemma AuthenticateUpstream_outcome:
  assumes h: "healthy conn" and a: "AuthenticateUpstream uid src conn = (b, conn', r)"
  shows "(r = None \<longleftrightarrow> (\<exists>l1 l2 s1 s2. split_line (concat src) = Some (l1, s1) \<and>
       HasPrefix (string_of_bytes l1) ''OK'' \<and> split_line s1 = Some (l2, s2))) \<and>
    (r = None \<longrightarrow> conn_bytes conn' = conn_bytes conn @ bytes_of_string (upstream_script uid) \<and> healthy conn') \<and>
    (\<exists>p. prefix p (bytes_of_string (upstream_script uid)) \<and> conn_bytes conn' = conn_bytes conn @ p)"
proof -
  let ?A = "bytes_of_string (CHR 0x00 # ''AUTH EXTERNAL '' @ EncodeToString (show_nat uid) @ crlf)"
  let ?N = "bytes_of_string (''NEGOTIATE_UNIX_FD'' @ crlf)" and ?B = "bytes_of_string (''BEGIN'' @ crlf)"
  let ?r0 = "\<lparr>bsrc = src, bbuf = []\<rparr>"
  have S: "bytes_of_string (upstream_script uid) = ?A @ ?N @ ?B"
    by (simp only: upstream_script_def bytes_of_string_simps append.simps append_assoc)
  obtain c1 where c1: "conn_Write ?A conn = (c1, None)" "healthy c1" "conn_bytes c1 = conn_bytes conn @ ?A"
    using conn_Write_healthy [OF h] conn_bytes_outbox by blast
  obtain c2 where c2: "conn_Write ?N c1 = (c2, None)" "healthy c2" "conn_bytes c2 = conn_bytes c1 @ ?N"
    using conn_Write_healthy [OF c1(2)] conn_bytes_outbox by blast
  obtain c3 where c3: "conn_Write ?B c2 = (c3, None)" "healthy c3" "conn_bytes c3 = conn_bytes c2 @ ?B"
    using conn_Write_healthy [OF c2(2)] conn_bytes_outbox by blast
  obtain b1 x1 where 1: "ReadString [] ?r0 = (b1, x1)" by fastforce
  obtain b2 x2 where 2: "ReadString [] b1 = (b2, x2)" by fastforce
  have st: "bufio_stream ?r0 = concat src" by (simp add: bufio_stream_def)
  note s1 = ReadString_stream [OF 1, unfolded st] and s2 = ReadString_stream [OF 2]
  note A = a [unfolded AuthenticateUpstream_def Let_def, unfolded c1(1) 1 prod.case option.case]
  show ?thesis
  proof (cases x1)
    case (Inl e)
    with s1 A c1 show ?thesis by (auto simp: S split: option.splits)
  next
    case (Inr l1)
    then have l1: "split_line (concat src) = Some (l1, bufio_stream b1)"
      using s1 by (auto split: option.splits)
    show ?thesis
    proof (cases "HasPrefix (string_of_bytes l1) ''OK''")
      case False
      with Inr l1 A c1 show ?thesis by (auto simp: S)
    next
      case ok: True
      show ?thesis
      proof (cases x2)
        case (Inl e)
        with \<open>x1 = Inr l1\<close> l1 ok s2 A c1 c2 2 show ?thesis by (auto simp: S split: option.splits)
      next
        case (Inr l2)
        with \<open>x1 = Inr l1\<close> l1 ok s2 A c1 c2 c3 2 show ?thesis
          by (auto simp: S split: option.splits)
      qed
    qed
  qed
qed

section \<open>The two sides understand each other\<close>

lemma hex_digit_range: "n < 16 \<Longrightarrow> 33 \<le> byte_of_char (hex_digit n) \<and> byte_of_char (hex_digit n) < 127"
proof -
  have "\<forall>n \<in> set [0..<16]. 33 \<le> byte_of_char (hex_digit n) \<and> byte_of_char (hex_digit n) < 127"
    by code_simp
  then show "n < 16 \<Longrightarrow> ?thesis" by auto
qed

lemma plain_hex: "s \<noteq> [] \<Longrightarrow> plain (bytes_of_string (EncodeToString s))"
proof -
  have d: "of_char c div 16 < (16 :: nat)" for c
  proof -
    have "of_char c < (16 * 16 :: nat)" using nat_of_char_less_256 [of c] by simp
    then show ?thesis by (rule less_mult_imp_div_less)
  qed
  have "\<forall>b \<in> set (bytes_of_string (EncodeToString s)). 33 \<le> b \<and> b < 127"
    using hex_digit_range d by (auto simp: EncodeToString_def bytes_of_string_def)
  then show "s \<noteq> [] \<Longrightarrow> ?thesis"
    by (cases s) (auto simp: plain_def EncodeToString_def)
qed

lemma plain_keywords:
  "plain (bytes_of_string ''AUTH'')" "plain (bytes_of_string ''EXTERNAL'')"
  "plain (bytes_of_string ''NEGOTIATE_UNIX_FD'')" "plain (bytes_of_string ''BEGIN'')"
  by (simp_all add: plain_def byte_of_char_def)

lemma dialogue_strings:
  assumes "list_all (\<lambda>w. plain (bytes_of_string w)) ws"
  shows "dialogue (join (map bytes_of_string ws) @ 13 # 10 # rest) =
    (case sasl_step ws of
       Begin \<Rightarrow> ([], Some rest)
     | Reply reply \<Rightarrow> (case dialogue rest of (replies, x) \<Rightarrow> (reply # replies, x)))"
  using dialogue_line [of "map bytes_of_string ws" rest] assms
  by (simp add: list_all_iff comp_def)

text \<open>The script of \<open>AuthenticateUpstream\<close> as the lines a server reads.\<close>

lemma crlf_bytes: "bytes_of_string crlf = [13, 10]"
  by (simp add: crlf_def byte_of_char_def)

lemma upstream_script_bytes:
  "bytes_of_string (upstream_script uid) =
    0 # join (map bytes_of_string [''AUTH'', ''EXTERNAL'', EncodeToString (show_nat uid)]) @ 13 # 10 #
    join (map bytes_of_string [''NEGOTIATE_UNIX_FD'']) @ 13 # 10 #
    join (map bytes_of_string [''BEGIN'']) @ 13 # 10 # []"
  by (simp add: upstream_script_def crlf_bytes byte_of_char_def)

lemma dialogue_upstream_script:
  "dialogue (tl (bytes_of_string (upstream_script uid)) @ rest) = ([saslOK, saslAgreeUnixFD], Some rest)"
proof -
  have "tl (bytes_of_string (upstream_script uid)) @ rest =
    join (map bytes_of_string [''AUTH'', ''EXTERNAL'', EncodeToString (show_nat uid)]) @ 13 # 10 #
    join (map bytes_of_string [''NEGOTIATE_UNIX_FD'']) @ 13 # 10 #
    join (map bytes_of_string [''BEGIN'']) @ 13 # 10 # rest"
    by (simp only: upstream_script_bytes list.sel append_Cons append_assoc append_Nil)
  moreover have "sasl_step [''AUTH'', ''EXTERNAL'', EncodeToString (show_nat uid)] = Reply saslOK"
    "sasl_step [''NEGOTIATE_UNIX_FD''] = Reply saslAgreeUnixFD" "sasl_step [''BEGIN''] = Begin"
    by (simp_all add: sasl_step_def)
  moreover have "list_all (\<lambda>w. plain (bytes_of_string w)) [''AUTH'', ''EXTERNAL'', EncodeToString (show_nat uid)]"
    "list_all (\<lambda>w. plain (bytes_of_string w)) [''NEGOTIATE_UNIX_FD'']"
    "list_all (\<lambda>w. plain (bytes_of_string w)) [''BEGIN'']"
    using plain_keywords plain_hex [OF show_nat_nonempty] by (simp_all only: list.pred_inject simp_thms)
  ultimately show ?thesis by (simp only: dialogue_strings sasl_step.case prod.case)
qed

text \<open>What the server answers to it is what the client side waits for.\<close>

lemma server_replies_lines:
  "\<exists>l1 l2 s1. split_line (bytes_of_string (saslOK @ saslAgreeUnixFD)) = Some (l1, s1) \<and>
     HasPrefix (string_of_bytes l1) ''OK'' \<and> split_line s1 = Some (l2, [])"
proof -
  have "(case split_line (bytes_of_string (saslOK @ saslAgreeUnixFD)) of
      None \<Rightarrow> False
    | Some (l1, s1) \<Rightarrow> HasPrefix (string_of_bytes l1) ''OK'' \<and>
        map_option snd (split_line s1) = Some [])"
    by code_simp
  then show ?thesis by (auto split: option.splits)
qed

text \<open>Each side accepts what the other sends.\<close>

lemma handshakes_understood:
  assumes "healthy conn" and "healthy uconn" and "[] \<notin> set src"
    and "concat src = bytes_of_string (upstream_script uid) @ rest"
    and "concat usrc = bytes_of_string (saslOK @ saslAgreeUnixFD)"
    and "AuthenticateClient src conn = (b, conn', r)" and "AuthenticateUpstream uid usrc uconn = (ub, uconn', ur)"
  shows "conn_bytes conn' = conn_bytes conn @ concat usrc \<and>
    (\<exists>extra. r = Inr extra \<and> extra @ concat (bsrc b) = rest) \<and>
    ur = None \<and> conn_bytes uconn' = conn_bytes uconn @ bytes_of_string (upstream_script uid)"
proof -
  have hd: "bytes_of_string (upstream_script uid) = 0 # tl (bytes_of_string (upstream_script uid))"
    by (simp add: upstream_script_bytes)
  then have c: "concat src = 0 # (tl (bytes_of_string (upstream_script uid)) @ rest)"
    using assms(4) by (metis append_Cons)
  have 1: "outbox conn' = outbox conn @ map (\<lambda>l. (bytes_of_string l, [])) [saslOK, saslAgreeUnixFD]"
    "\<exists>extra. r = Inr extra \<and> extra @ concat (bsrc b) = rest"
    using AuthenticateClient_dialogue [OF assms(1) c assms(3,6) dialogue_upstream_script] by auto
  obtain l1 l2 s1 where "split_line (concat usrc) = Some (l1, s1)"
    "HasPrefix (string_of_bytes l1) ''OK''" "split_line s1 = Some (l2, [])"
    using server_replies_lines unfolding assms(5) by blast
  then have "ur = None" "conn_bytes uconn' = conn_bytes uconn @ bytes_of_string (upstream_script uid)"
    using AuthenticateUpstream_outcome [OF assms(2,7)] by auto
  with 1 assms(5) show ?thesis by (simp add: conn_bytes_def)
qed

text \<open>\<open>BEGIN\<close> alone is accepted.\<close>

lemma begin_accepted: "AuthenticateClient [0 # bytes_of_string (''BEGIN'' @ crlf)] conn = (\<lparr>bsrc = [], bbuf = []\<rparr>, conn, Inr [])"
proof -
  let ?l = "bytes_of_string (''BEGIN'' @ crlf)"
  have r: "ReadString [] \<lparr>bsrc = [?l], bbuf = []\<rparr> = (\<lparr>bsrc = [], bbuf = []\<rparr>, Inr ?l)"
    by (subst ReadString.simps, simp add: fill_def crlf_bytes, subst ReadString.simps)
      (simp add: byte_of_char_def)
  have s: "sasl_step (Fields (TrimRight ?l)) = Begin" by code_simp
  have "auth_loop \<lparr>bsrc = [?l], bbuf = []\<rparr> conn = (\<lparr>bsrc = [], bbuf = []\<rparr>, conn, Inr [])"
    using r s by (subst auth_loop.simps) simp
  then show ?thesis by (simp add: AuthenticateClient_def crlf_bytes)
qed

end
