(* ===== verification/Dbus_Client.thy ===== *)
theory Dbus_Client
  imports Dbus_Sasl Dbus_Lifecycle
begin

text \<open>
  \<open>handleClient\<close> of \<open>container/dbus/router.go\<close>, from the handshake with the client to the return
  of the function: dialling the two buses, the message readers, the three loops, the deferred
  clean-up.

  A socket is the pieces of bytes that arrive while the handshakes read it, what \<open>recvmsg\<close> yields
  after those, and the side that is written to. Dialling yields an error or a socket. The loops
  run concurrently: a schedule says which one takes the next turn, and a turn either reads a
  message or handles the one read before, so another loop can close the session in between.
\<close>

section \<open>Setting up a session\<close>

record socket =
  handshake :: "byte list list"
  later :: "recv list"
  sconn :: conn

definition piece :: "byte list \<Rightarrow> recv" where
  "piece bs = \<lparr>rdata = bs, roobn = 0, rscms = None, rerr = None\<rparr>"

text \<open>What a message reader sees of a socket whose handshake has left its stream at \<open>b\<close>.\<close>

definition after_handshake :: "bufio \<Rightarrow> socket \<Rightarrow> recv list" where
  "after_handshake b s = map piece (bsrc b) @ later s"

datatype client_loop = ClientLoop | ContainerLoop | HostLoop

text \<open>
  The local state of \<open>handleClient\<close>: the session, the message reader of each loop (there is none
  for a bus that is not connected), the message it has read and not handled, and whether it is
  still running.
\<close>

record client_run =
  sess :: session
  readers :: "client_loop \<Rightarrow> reader option"
  held :: "client_loop \<Rightarrow> message option"
  looping :: "client_loop \<Rightarrow> bool"

text \<open>
  Up to the loops. When the client does not authenticate or the container's bus is not to be had,
  the session is closed: the client's connection and the container's, if it was dialled. A host
  bus that is not to be had, or that refuses the handshake, is left out.
\<close>

definition host_connection :: "nat \<Rightarrow> string + socket \<Rightarrow> conn option \<times> reader option" where
  "host_connection uid host =
     (case host of
        Inl _ \<Rightarrow> (None, None)
      | Inr h \<Rightarrow>
          (case AuthenticateUpstream uid (handshake h) (sconn h) of
             (_, _, Some _) \<Rightarrow> (None, None)
           | (b, c, None) \<Rightarrow> (Some c, Some (NewMessageReader (after_handshake b h)))))"

definition client_open ::
  "nat \<Rightarrow> router \<Rightarrow> os \<Rightarrow> socket \<Rightarrow> string + socket \<Rightarrow> string + socket \<Rightarrow> (conn \<times> conn option) + client_run" where
  "client_open uid r w client container host =
     (case AuthenticateClient (handshake client) (sconn client) of
        (_, cl, Inl _) \<Rightarrow> Inl (conn_Close cl, None)
      | (b, cl, Inr extraBytes) \<Rightarrow>
          (case container of
             Inl _ \<Rightarrow> Inl (conn_Close cl, None)
           | Inr c \<Rightarrow>
               (case AuthenticateUpstream uid (handshake c) (sconn c) of
                  (_, co, Some _) \<Rightarrow> Inl (conn_Close cl, Some (conn_Close co))
                | (cb, co, None) \<Rightarrow>
                    let (ho, hostReader) = host_connection uid host;
                        clientReader = NewMessageReader (after_handshake b client);
                        clientReader = (if 0 < length extraBytes
                          then clientReader\<lparr>rbuf := rbuf clientReader @ extraBytes\<rparr> else clientReader);
                        containerReader = NewMessageReader (after_handshake cb c)
                    in Inr \<lparr>sess = new_session r cl ho co w,
                         readers = (\<lambda>l. case l of ClientLoop \<Rightarrow> Some clientReader
                           | ContainerLoop \<Rightarrow> Some containerReader | HostLoop \<Rightarrow> hostReader),
                         held = Map.empty,
                         looping = (\<lambda>l. l = HostLoop \<longrightarrow> ho \<noteq> None)\<rparr>)))"

section \<open>The loops\<close>

text \<open>The handler of a loop, and whether its result ends the loop.\<close>

definition handle_upstream :: "session \<Rightarrow> Target \<Rightarrow> message \<Rightarrow> (session \<times> bool) option" where
  "handle_upstream s from msg =
     do {
       (s, m, err) \<leftarrow> handleUpstream s from msg;
       Some (case err of
           None \<Rightarrow> (s, False)
         | Some _ \<Rightarrow> let (s, _) = session_CloseFDs s m in (s, True))
     }"

definition handle_client :: "session \<Rightarrow> message \<Rightarrow> (session \<times> bool) option" where
  "handle_client s msg =
     do {
       (s, err) \<leftarrow> DispatchClientMessage s msg;
       let (s, _) = session_CloseFDs s msg;
       Some (s, err \<noteq> None)
     }"

fun loop_handle :: "client_loop \<Rightarrow> session \<Rightarrow> message \<Rightarrow> (session \<times> bool) option" where
  "loop_handle ClientLoop s msg = handle_client s msg"
| "loop_handle ContainerLoop s msg = handle_upstream s TargetContainer msg"
| "loop_handle HostLoop s msg = handle_upstream s TargetHost msg"

definition loop_end :: "client_loop \<Rightarrow> client_run \<Rightarrow> client_run" where
  "loop_end l cr = cr\<lparr>sess := session_Close (sess cr), looping := (looping cr)(l := False)\<rparr>"

text \<open>A closed session has closed its connections, so no further data is read from them.\<close>

definition loop_reads :: "client_run \<Rightarrow> reader \<Rightarrow> reader" where
  "loop_reads cr rd = (if sessionClosed (sess cr) then rd\<lparr>rconn := []\<rparr> else rd)"

definition loop_turn :: "client_loop \<Rightarrow> client_run \<Rightarrow> client_run option" where
  "loop_turn l cr =
     (if \<not> looping cr l then Some cr
      else case held cr l of
        Some msg \<Rightarrow> do {
          (s, stop) \<leftarrow> loop_handle l (sess cr) msg;
          let cr = cr\<lparr>sess := s, held := (held cr)(l := None)\<rparr>;
          Some (if stop then loop_end l cr else cr)
        }
      | None \<Rightarrow>
          (case readers cr l of
             None \<Rightarrow> None
           | Some rd \<Rightarrow> do {
               (rd, res) \<leftarrow> ReadMessage (loop_reads cr rd);
               let cr = cr\<lparr>readers := (readers cr)(l \<mapsto> rd)\<rparr>;
               Some (case res of
                   Inl _ \<Rightarrow> loop_end l cr
                 | Inr msg \<Rightarrow> cr\<lparr>held := (held cr)(l \<mapsto> msg)\<rparr>)
             }))"

fun run_loops :: "client_loop list \<Rightarrow> client_run \<Rightarrow> client_run option" where
  "run_loops [] cr = Some cr"
| "run_loops (l # ls) cr = Option.bind (loop_turn l cr) (run_loops ls)"

section \<open>The return of handleClient\<close>

definition close_reader :: "client_loop \<Rightarrow> client_run \<Rightarrow> client_run" where
  "close_reader l cr =
     (case readers cr l of
        None \<Rightarrow> cr
      | Some rd \<Rightarrow>
          let (rd, w) = reader_Close rd (kernel (sess cr))
          in cr\<lparr>readers := (readers cr)(l \<mapsto> rd), sess := (sess cr)\<lparr>kernel := w\<rparr>\<rparr>)"

text \<open>
  The deferred function: the session has been closed by then, all loops have ended (\<open>wg.Wait\<close>), the
  readers are closed.
\<close>

definition client_return :: "client_run \<Rightarrow> client_run" where
  "client_return cr = close_reader HostLoop (close_reader ContainerLoop (close_reader ClientLoop cr))"

text \<open>
  \<open>handleClient\<close> under a schedule of its loops: the connections it has closed without serving the
  client, or the state it has come to.
\<close>

definition handleClient ::
  "nat \<Rightarrow> router \<Rightarrow> os \<Rightarrow> socket \<Rightarrow> string + socket \<Rightarrow> string + socket \<Rightarrow> client_loop list
     \<Rightarrow> ((conn \<times> conn option) + client_run) option" where
  "handleClient uid r w client container host sched =
     (case client_open uid r w client container host of
        Inl closed_conns \<Rightarrow> Some (Inl closed_conns)
      | Inr cr \<Rightarrow> do {
          cr \<leftarrow> run_loops sched cr;
          Some (Inr (if looping cr ClientLoop \<or> looping cr ContainerLoop \<or> looping cr HostLoop then cr
            else client_return cr))
        })"

section \<open>Turns of the loops are turns of the session\<close>

text \<open>Handling a message, and closing the session if that ends the loop, is a step of \<open>session_turn\<close>.\<close>

fun loop_event :: "client_loop \<Rightarrow> message \<Rightarrow> event" where
  "loop_event ClientLoop m = FromClient m"
| "loop_event ContainerLoop m = FromContainer m"
| "loop_event HostLoop m = FromHost m"

lemma loop_handle_turn:
  "session_turn s (loop_event l m) = map_option (\<lambda>(s, stop). if stop then session_Close s else s) (loop_handle l s m)"
  by (cases l)
    (auto simp: handle_client_def handle_upstream_def client_turn_def upstream_turn_def Let_def
      split: Option.bind_splits prod.splits option.splits)

text \<open>
  The state between turns: the session is a reachable one, a loop that runs has a reader, the
  message it holds has come from it, and once a loop has ended the session is closed.
\<close>

definition run_ok :: "session \<Rightarrow> client_run \<Rightarrow> bool" where
  "run_ok s0 cr \<longleftrightarrow> session_inv s0 \<and> session_reach s0 (sess cr) \<and>
     (\<forall>l. looping cr l \<longrightarrow> readers cr l \<noteq> None) \<and>
     (\<forall>l m. held cr l = Some m \<longrightarrow> looping cr l \<and> msg_ok m) \<and>
     (looping cr HostLoop \<longrightarrow> hostConn (sess cr) \<noteq> None) \<and>
     ((\<exists>l. readers cr l \<noteq> None \<and> \<not> looping cr l) \<longrightarrow> sessionClosed (sess cr)) \<and>
     readers cr ClientLoop \<noteq> None"

lemma reach_Close: "session_reach s0 s \<Longrightarrow> session_reach s0 (session_Close s)"
  by (rule session_reach.turn [of s0 s ReadFails]) simp_all

lemma session_Close_fields [simp]:
  "sessionClosed (session_Close s)" "hostConn (session_Close s) = None \<longleftrightarrow> hostConn s = None"
  "(\<exists>c. hostConn (session_Close s) = Some c) \<longleftrightarrow> (\<exists>c. hostConn s = Some c)" "kernel (session_Close s) = kernel s"
  by (auto simp: session_Close_def)

lemma turn_keeps:
  assumes "session_inv s0" and "session_reach s0 s" and "admissible s ev" and "session_turn s ev = Some t"
  shows "hostConn t = None \<longleftrightarrow> hostConn s = None" and "sessionClosed s \<Longrightarrow> sessionClosed t"
proof -
  have e: "evolves s t" by (rule growth.R_turn [OF assms(4,3) TrueI])
  show "hostConn t = None \<longleftrightarrow> hostConn s = None" by (rule evolves_host [OF e])
  show "sessionClosed s \<Longrightarrow> sessionClosed t" using e by (simp add: evolves_def)
qed

text \<open>The work a loop has left: two turns for each message in its stream, and one to end.\<close>

definition loop_work :: "client_run \<Rightarrow> client_loop \<Rightarrow> nat" where
  "loop_work cr l =
     (if looping cr l
      then Suc (2 * length (stream_bytes (the (readers cr l))) + (if held cr l = None then 0 else 1)) else 0)"

lemma loop_handle_defined:
  assumes "run_ok s0 cr" and "held cr l = Some m"
  obtains s stop where "loop_handle l (sess cr) m = Some (s, stop)"
    and "session_reach s0 (if stop then session_Close s else s)"
    and "hostConn s = None \<longleftrightarrow> hostConn (sess cr) = None" and "sessionClosed (sess cr) \<longrightarrow> stop \<or> sessionClosed s"
proof -
  have r: "session_inv s0" "session_reach s0 (sess cr)" using assms(1) by (simp_all add: run_ok_def)
  have a: "admissible (sess cr) (loop_event l m)"
    using assms by (cases l) (auto simp: run_ok_def)
  obtain t where t: "session_turn (sess cr) (loop_event l m) = Some t"
    using session_turn_defined [OF session_reach_inv [OF r(2,1)] a] by blast
  then obtain s stop where h: "loop_handle l (sess cr) m = Some (s, stop)" "t = (if stop then session_Close s else s)"
    by (auto simp: loop_handle_turn)
  note k = turn_keeps [OF r a t]
  show thesis
    by (rule that [OF h(1)]) (use session_reach.turn [OF r(2) a t] h(2) k in \<open>auto split: if_splits\<close>)
qed

lemma loop_turn_ok:
  assumes ok: "run_ok s0 cr"
  shows "\<exists>cr'. loop_turn l cr = Some cr' \<and> run_ok s0 cr' \<and>
    (\<forall>k. loop_work cr' k \<le> loop_work cr k - (if k = l then 1 else 0))"
proof (cases "looping cr l")
  case False
  with ok show ?thesis by (auto simp: loop_turn_def loop_work_def)
next
  case run: True
  show ?thesis
  proof (cases "held cr l")
    case (Some m)
    from loop_handle_defined [OF ok Some] obtain s stop where h: "loop_handle l (sess cr) m = Some (s, stop)"
      "session_reach s0 (if stop then session_Close s else s)" "hostConn s = None \<longleftrightarrow> hostConn (sess cr) = None"
      "sessionClosed (sess cr) \<longrightarrow> stop \<or> sessionClosed s" .
    let ?cr = "cr\<lparr>sess := s, held := (held cr)(l := None)\<rparr>"
    let ?cr' = "if stop then loop_end l ?cr else ?cr"
    have "loop_turn l cr = Some ?cr'" using run Some h(1) by (simp add: loop_turn_def)
    moreover have "run_ok s0 ?cr'" using ok h by (cases stop) (auto simp: run_ok_def loop_end_def)
    moreover have "loop_work ?cr' k \<le> loop_work cr k - (if k = l then 1 else 0)" for k
      using run Some by (simp add: loop_work_def loop_end_def)
    ultimately show ?thesis by blast
  next
    case None
    obtain rd where rd: "readers cr l = Some rd" using ok run by (auto simp: run_ok_def)
    obtain rd' res where r: "ReadMessage (loop_reads cr rd) = Some (rd', res)" and
      c: "case res of Inl _ \<Rightarrow> True | Inr m \<Rightarrow> parsed m \<and> stream_bytes (loop_reads cr rd) = Raw m @ stream_bytes rd'"
      using ReadMessage_total [of "loop_reads cr rd"] by (force split: sum.splits)
    show ?thesis
    proof (cases res)
      case (Inl e)
      with ok run None rd r show ?thesis
        by (auto simp: loop_turn_def loop_end_def loop_work_def run_ok_def reach_Close)
    next
      case (Inr m)
      have "length (stream_bytes (loop_reads cr rd)) \<le> length (stream_bytes rd)"
        by (simp add: loop_reads_def stream_bytes_def)
      moreover have "16 \<le> length (Raw m)" using c Inr by (simp add: parsed_def)
      ultimately have "length (stream_bytes rd') < length (stream_bytes rd)" using c Inr by simp
      with ok run None rd r Inr ReadMessage_msg_ok [of "loop_reads cr rd" rd' m] show ?thesis
        by (auto simp: loop_turn_def loop_work_def run_ok_def)
    qed
  qed
qed

lemma run_loops_ok:
  assumes "run_ok s0 cr"
  shows "\<exists>cr'. run_loops ls cr = Some cr' \<and> run_ok s0 cr' \<and> (\<forall>k. loop_work cr' k \<le> loop_work cr k - count_list ls k)"
  using assms
proof (induction ls arbitrary: cr)
  case (Cons l ls)
  obtain cr1 where 1: "loop_turn l cr = Some cr1" "run_ok s0 cr1"
    "\<And>k. loop_work cr1 k \<le> loop_work cr k - (if k = l then 1 else 0)"
    using loop_turn_ok [OF Cons.prems] by blast
  obtain cr2 where 2: "run_loops ls cr1 = Some cr2" "run_ok s0 cr2" "\<And>k. loop_work cr2 k \<le> loop_work cr1 k - count_list ls k"
    using Cons.IH [OF 1(2)] by blast
  have "loop_work cr2 k \<le> loop_work cr k - count_list (l # ls) k" for k
    using 1(3) [of k] 2(3) [of k] by (auto split: if_splits)
  with 1(1) 2(1,2) show ?case by auto
qed simp

lemma run_loops_end:
  assumes "run_ok s0 cr" and "\<And>l. loop_work cr l \<le> count_list ls l"
  obtains cr' where "run_loops ls cr = Some cr'" and "run_ok s0 cr'" and "\<And>l. \<not> looping cr' l"
proof -
  obtain cr' where r: "run_loops ls cr = Some cr'" "run_ok s0 cr'" "\<And>k. loop_work cr' k \<le> loop_work cr k - count_list ls k"
    using run_loops_ok [OF assms(1)] by blast
  have "\<not> looping cr' l" for l using r(3) [of l] assms(2) [of l] by (auto simp: loop_work_def [of cr'])
  with r show thesis using that by blast
qed

section \<open>What the set-up leaves\<close>

definition sock_bytes :: "socket \<Rightarrow> nat" where
  "sock_bytes s = length (concat (handshake s)) + length (concat (map rdata (later s)))"

text \<open>The bytes a loop can come to read, from what its socket brings.\<close>

fun loop_bytes :: "socket \<Rightarrow> string + socket \<Rightarrow> string + socket \<Rightarrow> client_loop \<Rightarrow> nat" where
  "loop_bytes client container host ClientLoop = sock_bytes client"
| "loop_bytes client container host ContainerLoop = (case container of Inl _ \<Rightarrow> 0 | Inr s \<Rightarrow> sock_bytes s)"
| "loop_bytes client container host HostLoop = (case host of Inl _ \<Rightarrow> 0 | Inr s \<Rightarrow> sock_bytes s)"

lemma stream_after_handshake:
  "stream_bytes (NewMessageReader (after_handshake b s)) = concat (bsrc b) @ concat (map rdata (later s))"
  by (simp add: stream_bytes_def NewMessageReader_def after_handshake_def piece_def comp_def)

lemma ReadString_bytes:
  "ReadString line b = (b', r) \<Longrightarrow> length (bufio_stream b') \<le> length (bufio_stream b)"
  using ReadString_stream [of line b b' r] split_line_Some [of "bufio_stream b"]
  by (fastforce split: option.splits)

lemma auth_loop_bytes:
  "auth_loop b conn = (b', conn', Inr extra) \<Longrightarrow> length extra + length (concat (bsrc b')) \<le> length (bufio_stream b)"
proof (induction b conn rule: auth_loop.induct)
  case (1 b conn)
  obtain b1 x1 where rs: "ReadString [] b = (b1, x1)" by fastforce
  note len = ReadString_bytes [OF rs]
  show ?case
  proof (cases x1)
    case (Inl e)
    with 1(2) rs show ?thesis by (simp add: auth_loop.simps [of b conn])
  next
    case (Inr line)
    show ?thesis
    proof (cases "sasl_step (Fields (TrimRight line))")
      case Begin
      with 1(2) rs Inr len show ?thesis by (auto simp: auth_loop.simps [of b conn] bufio_stream_def)
    next
      case (Reply reply)
      obtain c1 e where w: "writeSASL conn reply = (c1, e)" by fastforce
      with 1(2) rs Inr Reply have "e = None" "auth_loop b1 c1 = (b', conn', Inr extra)"
        by (auto simp: auth_loop.simps [of b conn] split: option.splits)
      with 1(1) [OF rs [symmetric] Inr Reply _ this(1) this(2)] w len show ?thesis by auto
    qed
  qed
qed

lemma AuthenticateClient_bytes:
  assumes "AuthenticateClient src conn = (b, conn', Inr extra)"
  shows "length extra + length (concat (bsrc b)) \<le> length (concat src)"
proof -
  obtain c cs where src: "src = c # cs" using assms by (cases src) (simp_all add: AuthenticateClient_def)
  have "auth_loop \<lparr>bsrc = (if length c \<le> 1 then cs else drop 1 c # cs), bbuf = []\<rparr> conn = (b, conn', Inr extra)"
    using assms by (auto simp: AuthenticateClient_def src Let_def split: if_splits)
  from auth_loop_bytes [OF this] show ?thesis by (cases c) (auto simp: bufio_stream_def src split: if_splits)
qed

lemma AuthenticateUpstream_bytes:
  assumes "AuthenticateUpstream uid src conn = (b, conn', None)"
  shows "length (concat (bsrc b)) \<le> length (concat src)"
proof -
  obtain b1 r1 where 1: "ReadString [] \<lparr>bsrc = src, bbuf = []\<rparr> = (b1, r1)" by fastforce
  obtain b2 r2 where 2: "ReadString [] b1 = (b2, r2)" by fastforce
  have "b = b2"
    using assms by (auto simp: AuthenticateUpstream_def Let_def 1 2 split: prod.splits option.splits sum.splits if_splits)
  with ReadString_bytes [OF 1] ReadString_bytes [OF 2] show ?thesis by (simp add: bufio_stream_def)
qed

text \<open>A session that is set up: its connections, and the work of its loops.\<close>

lemma host_connection_cases:
  obtains "host_connection uid host = (None, None)"
  | h b c c' where "host = Inr h" and "AuthenticateUpstream uid (handshake h) (sconn h) = (b, c', None)"
    and "host_connection uid host = (Some c', Some (NewMessageReader (after_handshake b h)))"
  by (cases host) (force simp: host_connection_def split: prod.splits option.splits)+

lemma client_open_Inr:
  assumes "client_open uid r w client container host = Inr cr"
  obtains cl ho co where "sess cr = new_session r cl ho co w" and "run_ok (new_session r cl ho co w) cr"
    and "\<And>l. loop_work cr l \<le> Suc (2 * loop_bytes client container host l)"
proof -
  obtain b cl extra where a: "AuthenticateClient (handshake client) (sconn client) = (b, cl, Inr extra)"
    using assms by (auto simp: client_open_def split: prod.splits sum.splits)
  obtain c where c: "container = Inr c" using assms a by (auto simp: client_open_def split: sum.splits)
  obtain cb co where u: "AuthenticateUpstream uid (handshake c) (sconn c) = (cb, co, None)"
    using assms a c by (auto simp: client_open_def split: prod.splits option.splits)
  obtain ho hr where h: "host_connection uid host = (ho, hr)" by fastforce
  have cr: "cr = \<lparr>sess = new_session r cl ho co w,
      readers = (\<lambda>l. case l of ClientLoop \<Rightarrow> Some ((NewMessageReader (after_handshake b client))\<lparr>rbuf := extra\<rparr>)
        | ContainerLoop \<Rightarrow> Some (NewMessageReader (after_handshake cb c)) | HostLoop \<Rightarrow> hr),
      held = Map.empty, looping = (\<lambda>l. l = HostLoop \<longrightarrow> ho \<noteq> None)\<rparr>"
    using assms a c u h by (cases extra) (auto simp: client_open_def NewMessageReader_def split: if_splits)
  have hr: "hr = None \<longleftrightarrow> ho = None" using h by (cases rule: host_connection_cases [of uid host]) auto
  have "run_ok (new_session r cl ho co w) cr"
    unfolding run_ok_def using new_session_inv hr by (auto simp: cr new_session_def session_reach.start split: client_loop.splits)
  moreover have "loop_work cr l \<le> Suc (2 * loop_bytes client container host l)" for l
  proof (cases l)
    case ClientLoop
    have "stream_bytes ((NewMessageReader (after_handshake b client))\<lparr>rbuf := extra\<rparr>) =
        extra @ stream_bytes (NewMessageReader (after_handshake b client))"
      by (simp add: stream_bytes_def NewMessageReader_def)
    with AuthenticateClient_bytes [OF a] show ?thesis
      by (simp add: ClientLoop cr loop_work_def stream_after_handshake sock_bytes_def)
  next
    case ContainerLoop
    with AuthenticateUpstream_bytes [OF u] show ?thesis
      by (simp add: cr c loop_work_def stream_after_handshake sock_bytes_def)
  next
    case HostLoop
    with h show ?thesis
      by (cases rule: host_connection_cases [of uid host])
        (auto simp: cr loop_work_def stream_after_handshake sock_bytes_def dest: AuthenticateUpstream_bytes)
  qed
  ultimately show thesis using that by (simp add: cr)
qed

text \<open>
  A client and a container bus that play their sides of the handshake, such as another router and
  a bus that passes descriptors, are connected; what the client has sent after the handshake is
  what its message reader will see, however it was cut into pieces.
\<close>

lemma client_open_connects:
  assumes "healthy (sconn client)" and "healthy (sconn c)" and "[] \<notin> set (handshake client)"
    and "concat (handshake client) = bytes_of_string (upstream_script uid) @ rest"
    and "concat (handshake c) = bytes_of_string (saslOK @ saslAgreeUnixFD)"
  obtains cr rd where "client_open uid r w client (Inr c) host = Inr cr" and "readers cr ClientLoop = Some rd"
    and "stream_bytes rd = rest @ concat (map rdata (later client))"
proof -
  obtain b cl x where a: "AuthenticateClient (handshake client) (sconn client) = (b, cl, x)" by (metis surj_pair)
  obtain ub co ux where u: "AuthenticateUpstream uid (handshake c) (sconn c) = (ub, co, ux)" by (metis surj_pair)
  from handshakes_understood [OF assms a u] obtain extra where
    e: "x = Inr extra" "extra @ concat (bsrc b) = rest" "ux = None" by blast
  obtain ho hr where h: "host_connection uid host = (ho, hr)" by fastforce
  let ?rd = "(NewMessageReader (after_handshake b client))\<lparr>rbuf := extra\<rparr>"
  have "stream_bytes ?rd = rest @ concat (map rdata (later client))"
    using stream_after_handshake [of b client] by (simp add: stream_bytes_def NewMessageReader_def flip: e(2))
  moreover have "\<exists>cr. client_open uid r w client (Inr c) host = Inr cr \<and> readers cr ClientLoop = Some ?rd"
    using h by (cases extra) (simp_all add: client_open_def a u e(1,3) NewMessageReader_def Let_def)
  ultimately show thesis using that by blast
qed

lemma client_open_Inl:
  "client_open uid r w client container host = Inl (cl, co) \<Longrightarrow> \<not> isOpen cl \<and> (\<forall>c. co = Some c \<longrightarrow> \<not> isOpen c)"
  by (auto simp: client_open_def conn_Close_def Let_def split: prod.splits sum.splits option.splits)

section \<open>Serving a client, to the end\<close>

definition pending_of :: "client_run \<Rightarrow> client_loop \<Rightarrow> int list" where
  "pending_of cr l = (case readers cr l of None \<Rightarrow> [] | Some rd \<Rightarrow> pendingFDs rd)"

lemma close_reader_fields [simp]:
  "looping (close_reader l cr) = looping cr" "held (close_reader l cr) = held cr"
  "pending_of (close_reader l cr) k = (if k = l then [] else pending_of cr k)"
  "sess (close_reader l cr) = (sess cr)\<lparr>kernel := close_dups (pending_of cr l) (kernel (sess cr))\<rparr>"
  by (auto simp: close_reader_def pending_of_def reader_Close_def split: option.split)

text \<open>The descriptors that are left in the readers when the loops have ended are closed, once.\<close>

lemma client_return_result:
  "looping (client_return cr) = looping cr \<and> held (client_return cr) = held cr \<and>
   (\<forall>l. pending_of (client_return cr) l = []) \<and>
   (\<exists>w. sess (client_return cr) = (sess cr)\<lparr>kernel := w\<rparr> \<and>
     closedFDs w = closedFDs (kernel (sess cr)) @ pending_of cr ClientLoop @ pending_of cr ContainerLoop @ pending_of cr HostLoop)"
proof -
  have "l = ClientLoop \<or> l = ContainerLoop \<or> l = HostLoop" for l by (cases l) simp_all
  then show ?thesis by (auto simp: client_return_def)
qed

lemma handleClient_defined: "handleClient uid r w client container host sched \<noteq> None"
proof (cases "client_open uid r w client container host")
  case (Inr cr)
  then obtain s0 where "run_ok s0 cr" by (blast elim: client_open_Inr)
  from run_loops_ok [OF this, of sched] show ?thesis by (auto simp: handleClient_def Inr)
qed (simp add: handleClient_def)

lemma handleClient_served:
  assumes "client_open uid r w client container host = Inr cr"
    and "\<And>l. 2 * loop_bytes client container host l < count_list sched l"
  obtains cr1 cl ho co where "run_loops sched cr = Some cr1"
    and "handleClient uid r w client container host sched = Some (Inr (client_return cr1))"
    and "\<And>l. \<not> looping cr1 l \<and> held cr1 l = None"
    and "session_reach (new_session r cl ho co w) (sess cr1)" and "dead (sess cr1)"
proof -
  obtain cl ho co where ok: "run_ok (new_session r cl ho co w) cr"
    and work: "\<And>l. loop_work cr l \<le> Suc (2 * loop_bytes client container host l)"
    using client_open_Inr [OF assms(1)] by metis
  have "loop_work cr l \<le> count_list sched l" for l using work [of l] assms(2) [of l] by simp
  then obtain cr1 where run: "run_loops sched cr = Some cr1" "run_ok (new_session r cl ho co w) cr1"
    "\<And>l. \<not> looping cr1 l" using run_loops_end [OF ok] by metis
  have inv: "session_reach (new_session r cl ho co w) (sess cr1)" "sessionClosed (sess cr1)" "held cr1 l = None" for l
    using run(2,3) by (auto simp: run_ok_def)
  then have d: "dead (sess cr1)" using closed_dead session_reach_inv new_session_inv by blast
  have h: "handleClient uid r w client container host sched = Some (Inr (client_return cr1))"
    by (simp add: handleClient_def assms(1) run(1,3))
  from that [OF run(1) h _ inv(1) d] run(3) inv(3) show thesis by simp
qed

text \<open>Turns of a loop that has ended do nothing.\<close>

lemma run_loops_idle: "\<not> looping cr l \<Longrightarrow> run_loops (replicate n l @ ls) cr = run_loops ls cr"
  by (induction n) (simp_all add: loop_turn_def)

end
