(* ===== verification/Go_Files.thy ===== *)
theory Go_Files
  imports Lxg_Prelude "HOL-Library.AList"
begin

text \<open>
  The part of Go's package \<open>os\<close> the program uses, over a Linux file system: path resolution with
  symbolic links (at most 40 of them), \<open>Stat\<close>, \<open>Lstat\<close>, \<open>Readlink\<close>, \<open>Remove\<close>, \<open>Symlink\<close>,
  \<open>MkdirAll\<close>, \<open>ReadFile\<close>, \<open>WriteFile\<close>, \<open>Chmod\<close>, the socket file of a listener, and bind mounts.

  A physical path is the list of its components, the root being \<open>[]\<close>. The state lists the nodes
  below the root. Everything the kernel may refuse for reasons outside this model (permissions,
  read-only or full devices, I/O errors) is in \<open>faults\<close>: the error text, if any, of an operation
  on a path. Permission bits are recorded only when \<open>Chmod\<close> sets them.
\<close>

section \<open>Paths\<close>

type_synonym path = "string list"

fun split_on :: "char \<Rightarrow> string \<Rightarrow> string list" where
  "split_on sep [] = [[]]"
| "split_on sep (c # s) =
     (if c = sep then [] # split_on sep s
      else case split_on sep s of w # ws \<Rightarrow> (c # w) # ws | [] \<Rightarrow> [[c]])"

text \<open>The components the kernel walks through: empty ones and \<open>.\<close> are skipped.\<close>

definition comps :: "string \<Rightarrow> string list" where
  "comps s = filter (\<lambda>c. c \<noteq> [] \<and> c \<noteq> ''.'') (split_on (CHR ''/'') s)"

definition is_abs :: "string \<Rightarrow> bool" where
  "is_abs s \<longleftrightarrow> HasPrefix s ''/''"

text \<open>The package \<open>path/filepath\<close>: \<open>Clean\<close>, \<open>Dir\<close> and \<open>Join\<close>.\<close>

fun join_path :: "string list \<Rightarrow> string" where
  "join_path [] = []"
| "join_path [c] = c"
| "join_path (c # cs) = c @ ''/'' @ join_path cs"

fun clean_comps :: "bool \<Rightarrow> string list \<Rightarrow> string list \<Rightarrow> string list" where
  "clean_comps absolute out [] = rev out"
| "clean_comps absolute out (c # cs) =
     (if c = ''..'' then
        (if out \<noteq> [] \<and> hd out \<noteq> ''..'' then clean_comps absolute (tl out) cs
         else if absolute then clean_comps absolute out cs
         else clean_comps absolute (c # out) cs)
      else clean_comps absolute (c # out) cs)"

definition Clean :: "string \<Rightarrow> string" where
  "Clean s =
     (let r = join_path (clean_comps (is_abs s) [] (comps s))
      in if is_abs s then ''/'' @ r else if r = [] then ''.'' else r)"

definition filepath_Dir :: "string \<Rightarrow> string" where
  "filepath_Dir s = Clean (rev (dropWhile (\<lambda>c. c \<noteq> CHR ''/'') (rev s)))"

definition filepath_Join :: "string list \<Rightarrow> string" where
  "filepath_Join elems =
     (let elems = dropWhile (\<lambda>e. e = []) elems in if elems = [] then [] else Clean (join_path elems))"

section \<open>Nodes and resolution\<close>

datatype node = Dir | Reg string | Sock | Symlink string

datatype errno = ENOENT | ENOTDIR | ELOOP | EEXIST | EISDIR | ENOTEMPTY | EBUSY | EINVAL | ENXIO
  | EADDRINUSE | Fault string

fun errno_text :: "errno \<Rightarrow> string" where
  "errno_text ENOENT = ''no such file or directory''"
| "errno_text ENOTDIR = ''not a directory''"
| "errno_text ELOOP = ''too many levels of symbolic links''"
| "errno_text EEXIST = ''file exists''"
| "errno_text EISDIR = ''is a directory''"
| "errno_text ENOTEMPTY = ''directory not empty''"
| "errno_text EBUSY = ''device or resource busy''"
| "errno_text EINVAL = ''invalid argument''"
| "errno_text ENXIO = ''no such device or address''"
| "errno_text EADDRINUSE = ''address already in use''"
| "errno_text (Fault t) = t"

text \<open>
  The walk: the directory reached, the components left. \<open>follow\<close> says whether a link in the last
  component is followed. The result is a physical path whose directory exists; the last component
  need not exist.
\<close>

function walk :: "(path \<Rightarrow> node option) \<Rightarrow> bool \<Rightarrow> nat \<Rightarrow> path \<Rightarrow> string list \<Rightarrow> errno + path" where
  "walk look follow links dir [] = Inr dir"
| "walk look follow links dir (c # cs) =
     (if c = ''..'' then walk look follow links (butlast dir) cs
      else case look (dir @ [c]) of
        None \<Rightarrow> if cs = [] then Inr (dir @ [c]) else Inl ENOENT
      | Some Dir \<Rightarrow> walk look follow links (dir @ [c]) cs
      | Some (Symlink target) \<Rightarrow>
          if cs = [] \<and> \<not> follow then Inr (dir @ [c])
          else if links = 0 then Inl ELOOP
          else walk look follow (links - 1) (if is_abs target then [] else dir) (comps target @ cs)
      | Some _ \<Rightarrow> if cs = [] then Inr (dir @ [c]) else Inl ENOTDIR)"
  by pat_completeness auto
termination
  by (relation "measures [\<lambda>(look, follow, links, dir, cs). links, \<lambda>(look, follow, links, dir, cs). length cs]")
    auto

datatype fs_op = OpStat | OpLstat | OpReadlink | OpRemove | OpSymlink | OpMkdir | OpRead | OpWrite | OpChmod
  | OpListen | OpMount

record fs =
  nodes :: "(path \<times> node) list"
  modes :: "(path \<times> nat) list"
  mounts :: "(path \<times> node) list"
  faults :: "fs_op \<Rightarrow> string list \<Rightarrow> string option"

definition lookup :: "'a fs_scheme \<Rightarrow> path \<Rightarrow> node option" where
  "lookup f p = (if p = [] then Some Dir else map_of (nodes f) p)"

definition set_node :: "path \<Rightarrow> node \<Rightarrow> 'a fs_scheme \<Rightarrow> 'a fs_scheme" where
  "set_node p n f = f\<lparr>nodes := AList.update p n (nodes f)\<rparr>"

definition drop_node :: "path \<Rightarrow> 'a fs_scheme \<Rightarrow> 'a fs_scheme" where
  "drop_node p f = f\<lparr>nodes := AList.delete p (nodes f), modes := AList.delete p (modes f)\<rparr>"

definition resolve :: "fs_op \<Rightarrow> bool \<Rightarrow> 'a fs_scheme \<Rightarrow> string list \<Rightarrow> errno + path" where
  "resolve op follow f cs =
     (case faults f op cs of Some t \<Rightarrow> Inl (Fault t) | None \<Rightarrow> walk (lookup f) follow 40 [] cs)"

section \<open>The operations\<close>

definition stat_at :: "'a fs_scheme \<Rightarrow> string list \<Rightarrow> errno + node" where
  "stat_at f cs =
     (case resolve OpStat True f cs of
        Inl e \<Rightarrow> Inl e
      | Inr p \<Rightarrow> (case lookup f p of None \<Rightarrow> Inl ENOENT | Some n \<Rightarrow> Inr n))"

definition lstat_at :: "'a fs_scheme \<Rightarrow> string list \<Rightarrow> errno + node" where
  "lstat_at f cs =
     (case resolve OpLstat False f cs of
        Inl e \<Rightarrow> Inl e
      | Inr p \<Rightarrow> (case lookup f p of None \<Rightarrow> Inl ENOENT | Some n \<Rightarrow> Inr n))"

definition readlink_at :: "'a fs_scheme \<Rightarrow> string list \<Rightarrow> errno + string" where
  "readlink_at f cs =
     (case resolve OpReadlink False f cs of
        Inl e \<Rightarrow> Inl e
      | Inr p \<Rightarrow> (case lookup f p of None \<Rightarrow> Inl ENOENT | Some (Symlink t) \<Rightarrow> Inr t | Some _ \<Rightarrow> Inl EINVAL))"

definition has_child :: "'a fs_scheme \<Rightarrow> path \<Rightarrow> bool" where
  "has_child f p \<longleftrightarrow> (\<exists>(q, n) \<in> set (nodes f). q \<noteq> [] \<and> butlast q = p)"

text \<open>\<open>Remove\<close> unlinks a file or an empty directory; a mount point is busy.\<close>

definition remove_entry :: "'a fs_scheme \<Rightarrow> string list \<Rightarrow> 'a fs_scheme \<times> errno option" where
  "remove_entry f cs =
     (case resolve OpRemove False f cs of
        Inl e \<Rightarrow> (f, Some e)
      | Inr p \<Rightarrow>
          (case lookup f p of
             None \<Rightarrow> (f, Some ENOENT)
           | Some n \<Rightarrow>
               if p = [] \<or> map_of (mounts f) p \<noteq> None then (f, Some EBUSY)
               else if n = Dir \<and> has_child f p then (f, Some ENOTEMPTY)
               else (drop_node p f, None)))"

text \<open>Creating an entry that must not exist yet; its name is not followed if it is a link.\<close>

definition create_entry :: "fs_op \<Rightarrow> errno \<Rightarrow> node \<Rightarrow> 'a fs_scheme \<Rightarrow> string list \<Rightarrow> 'a fs_scheme \<times> errno option" where
  "create_entry op taken n f cs =
     (case resolve op False f cs of
        Inl e \<Rightarrow> (f, Some e)
      | Inr p \<Rightarrow> (case lookup f p of None \<Rightarrow> (set_node p n f, None) | Some _ \<Rightarrow> (f, Some taken)))"

text \<open>\<open>MkdirAll\<close>, on the components in reverse order.\<close>

fun mkdir_all :: "'a fs_scheme \<Rightarrow> string list \<Rightarrow> 'a fs_scheme \<times> errno option" where
  "mkdir_all f [] = (f, None)"
| "mkdir_all f (c # up) =
     (case stat_at f (rev (c # up)) of
        Inr Dir \<Rightarrow> (f, None)
      | Inr _ \<Rightarrow> (f, Some ENOTDIR)
      | Inl _ \<Rightarrow>
          (case mkdir_all f up of
             (f, Some e) \<Rightarrow> (f, Some e)
           | (f, None) \<Rightarrow>
               (case create_entry OpMkdir EEXIST Dir f (rev (c # up)) of
                  (f, None) \<Rightarrow> (f, None)
                | (f, Some e) \<Rightarrow>
                    (case lstat_at f (rev (c # up)) of Inr Dir \<Rightarrow> (f, None) | _ \<Rightarrow> (f, Some e)))))"

text \<open>\<open>WriteFile\<close> creates the file or truncates it, through links.\<close>

definition write_at :: "'a fs_scheme \<Rightarrow> string list \<Rightarrow> string \<Rightarrow> 'a fs_scheme \<times> errno option" where
  "write_at f cs content =
     (case resolve OpWrite True f cs of
        Inl e \<Rightarrow> (f, Some e)
      | Inr p \<Rightarrow>
          (case lookup f p of
             Some Dir \<Rightarrow> (f, Some EISDIR)
           | Some Sock \<Rightarrow> (f, Some ENXIO)
           | _ \<Rightarrow> (set_node p (Reg content) f, None)))"

definition read_at :: "'a fs_scheme \<Rightarrow> string list \<Rightarrow> errno + string" where
  "read_at f cs =
     (case resolve OpRead True f cs of
        Inl e \<Rightarrow> Inl e
      | Inr p \<Rightarrow>
          (case lookup f p of
             None \<Rightarrow> Inl ENOENT
           | Some (Reg content) \<Rightarrow> Inr content
           | Some Dir \<Rightarrow> Inl EISDIR
           | Some _ \<Rightarrow> Inl ENXIO))"

definition chmod_at :: "'a fs_scheme \<Rightarrow> string list \<Rightarrow> nat \<Rightarrow> 'a fs_scheme \<times> errno option" where
  "chmod_at f cs mode =
     (case resolve OpChmod True f cs of
        Inl e \<Rightarrow> (f, Some e)
      | Inr p \<Rightarrow>
          (case lookup f p of
             None \<Rightarrow> (f, Some ENOENT)
           | Some _ \<Rightarrow> (f\<lparr>modes := AList.update p mode (modes f)\<rparr>, None)))"

text \<open>
  A bind mount of a file covers the target's node with the source's; unmounting uncovers it.
  The newest mount of a path is the first in \<open>mounts\<close>.
\<close>

definition mount_at :: "'a fs_scheme \<Rightarrow> string list \<Rightarrow> string list \<Rightarrow> 'a fs_scheme \<times> errno option" where
  "mount_at f source target =
     (case resolve OpMount True f target of
        Inl e \<Rightarrow> (f, Some e)
      | Inr p \<Rightarrow>
          (case (walk (lookup f) True 40 [] source, lookup f p) of
             (Inl e, _) \<Rightarrow> (f, Some e)
           | (Inr q, covered) \<Rightarrow>
               (case (lookup f q, covered) of
                  (Some n, Some m) \<Rightarrow>
                    if n = Dir \<or> m = Dir then (f, Some ENOTDIR)
                    else ((set_node p n f)\<lparr>mounts := (p, m) # mounts f\<rparr>, None)
                | _ \<Rightarrow> (f, Some ENOENT))))"

fun drop_first :: "'k \<Rightarrow> ('k \<times> 'v) list \<Rightarrow> ('k \<times> 'v) list" where
  "drop_first k [] = []"
| "drop_first k ((k', v) # kvs) = (if k = k' then kvs else (k', v) # drop_first k kvs)"

definition unmount_at :: "'a fs_scheme \<Rightarrow> string list \<Rightarrow> 'a fs_scheme \<times> errno option" where
  "unmount_at f target =
     (case walk (lookup f) True 40 [] target of
        Inl e \<Rightarrow> (f, Some e)
      | Inr p \<Rightarrow>
          (case map_of (mounts f) p of
             None \<Rightarrow> (f, Some (if lookup f p = None then ENOENT else EINVAL))
           | Some m \<Rightarrow> ((set_node p m f)\<lparr>mounts := drop_first p (mounts f)\<rparr>, None)))"

text \<open>\<open>err != nil && !errors.Is(err, os.ErrNotExist)\<close>\<close>

definition blocking :: "errno option \<Rightarrow> bool" where
  "blocking err \<longleftrightarrow> err \<noteq> None \<and> err \<noteq> Some ENOENT"

text \<open>The same operations on path strings, as the code calls them.\<close>

abbreviation Stat :: "'a fs_scheme \<Rightarrow> string \<Rightarrow> errno + node" where
  "Stat f s \<equiv> stat_at f (comps s)"

abbreviation Lstat :: "'a fs_scheme \<Rightarrow> string \<Rightarrow> errno + node" where
  "Lstat f s \<equiv> lstat_at f (comps s)"

abbreviation Readlink :: "'a fs_scheme \<Rightarrow> string \<Rightarrow> errno + string" where
  "Readlink f s \<equiv> readlink_at f (comps s)"

abbreviation Remove :: "'a fs_scheme \<Rightarrow> string \<Rightarrow> 'a fs_scheme \<times> errno option" where
  "Remove f s \<equiv> remove_entry f (comps s)"

abbreviation Symlink_at :: "'a fs_scheme \<Rightarrow> string \<Rightarrow> string \<Rightarrow> 'a fs_scheme \<times> errno option" where
  "Symlink_at f target s \<equiv> create_entry OpSymlink EEXIST (Symlink target) f (comps s)"

abbreviation MkdirAll :: "'a fs_scheme \<Rightarrow> string \<Rightarrow> 'a fs_scheme \<times> errno option" where
  "MkdirAll f s \<equiv> mkdir_all f (rev (comps s))"

abbreviation WriteFile :: "'a fs_scheme \<Rightarrow> string \<Rightarrow> string \<Rightarrow> 'a fs_scheme \<times> errno option" where
  "WriteFile f s content \<equiv> write_at f (comps s) content"

abbreviation ReadFile :: "'a fs_scheme \<Rightarrow> string \<Rightarrow> errno + string" where
  "ReadFile f s \<equiv> read_at f (comps s)"

abbreviation Chmod :: "'a fs_scheme \<Rightarrow> string \<Rightarrow> nat \<Rightarrow> 'a fs_scheme \<times> errno option" where
  "Chmod f s mode \<equiv> chmod_at f (comps s) mode"

abbreviation Listen :: "'a fs_scheme \<Rightarrow> string \<Rightarrow> 'a fs_scheme \<times> errno option" where
  "Listen f s \<equiv> create_entry OpListen EADDRINUSE Sock f (comps s)"

abbreviation Mount :: "'a fs_scheme \<Rightarrow> string \<Rightarrow> string \<Rightarrow> 'a fs_scheme \<times> errno option" where
  "Mount f source target \<equiv> mount_at f (comps source) (comps target)"

abbreviation Unmount :: "'a fs_scheme \<Rightarrow> string \<Rightarrow> 'a fs_scheme \<times> errno option" where
  "Unmount f target \<equiv> unmount_at f (comps target)"

section \<open>Lookup\<close>

lemma lookup_root [simp]: "lookup f [] = Some Dir"
  by (simp add: lookup_def)

lemma lookup_set_node [simp]: "p \<noteq> [] \<Longrightarrow> lookup (set_node p n f) = (lookup f)(p \<mapsto> n)"
  by (rule ext) (simp add: lookup_def set_node_def update_conv)

lemma lookup_drop_node [simp]: "p \<noteq> [] \<Longrightarrow> lookup (drop_node p f) = (lookup f)(p := None)"
  by (rule ext) (simp add: lookup_def drop_node_def delete_conv)

lemma lookup_modes [simp]: "lookup (f\<lparr>modes := m\<rparr>) = lookup f" "lookup (f\<lparr>mounts := mm\<rparr>) = lookup f"
  by (simp_all add: lookup_def fun_eq_iff)

lemma faults_node [simp]: "faults (set_node p n f) = faults f" "faults (drop_node p f) = faults f"
  "mounts (set_node p n f) = mounts f" "mounts (drop_node p f) = mounts f"
  by (simp_all add: set_node_def drop_node_def)

lemma set_alist_update: "q \<in> set (AList.update k v al) \<Longrightarrow> q = (k, v) \<or> q \<in> set al"
  by (induction al) (auto split: if_splits)

lemma set_alist_delete: "q \<in> set (AList.delete k al) \<longleftrightarrow> q \<in> set al \<and> fst q \<noteq> k"
  by (auto simp: AList.delete_eq)

section \<open>Well-formed file systems\<close>

text \<open>Every node is below a directory; a mount covers a file that exists.\<close>

definition fs_ok :: "'a fs_scheme \<Rightarrow> bool" where
  "fs_ok f \<longleftrightarrow>
     list_all (\<lambda>(p, n). p \<noteq> [] \<and> lookup f (butlast p) = Some Dir) (nodes f) \<and>
     list_all (\<lambda>(p, m). p \<noteq> [] \<and> m \<noteq> Dir \<and> lookup f p \<noteq> None \<and> lookup f p \<noteq> Some Dir) (mounts f)"

lemma fs_ok_parent: "fs_ok f \<Longrightarrow> lookup f p = Some n \<Longrightarrow> p \<noteq> [] \<Longrightarrow> lookup f (butlast p) = Some Dir"
  by (auto simp: fs_ok_def lookup_def list_all_iff dest!: map_of_SomeD)

lemma fs_ok_mounted:
  assumes "fs_ok f" and "map_of (mounts f) p = Some m"
  shows "p \<noteq> []" and "m \<noteq> Dir" and "lookup f p \<noteq> None" and "lookup f p \<noteq> Some Dir"
  using assms by (auto simp: fs_ok_def list_all_iff dest!: map_of_SomeD)

lemma fs_ok_mount_entry:
  assumes "fs_ok f" and "(p, m) \<in> set (mounts f)"
  shows "p \<noteq> []" and "m \<noteq> Dir" and "lookup f p \<noteq> None" and "lookup f p \<noteq> Some Dir"
  using assms by (auto simp: fs_ok_def list_all_iff)

lemma fs_ok_no_child:
  assumes "fs_ok f" and "lookup f p \<noteq> Some Dir \<or> \<not> has_child f p" and "(q, n) \<in> set (nodes f)"
  shows "butlast q \<noteq> p"
proof -
  from assms(1,3) have "q \<noteq> []" "lookup f (butlast q) = Some Dir"
    by (auto simp: fs_ok_def list_all_iff)
  with assms(2,3) show ?thesis by (auto simp: has_child_def)
qed

lemma fs_ok_set_node:
  assumes ok: "fs_ok f" and p: "p \<noteq> []" "lookup f (butlast p) = Some Dir" "lookup f p \<noteq> Some Dir"
    and n: "n \<noteq> Dir \<or> lookup f p = None"
  shows "fs_ok (set_node p n f)"
proof -
  have par: "q \<noteq> [] \<and> lookup (set_node p n f) (butlast q) = Some Dir" if "(q, m) \<in> set (nodes (set_node p n f))" for q m
  proof -
    from that have "(q, m) = (p, n) \<or> (q, m) \<in> set (nodes f)"
      by (auto simp: set_node_def dest: set_alist_update)
    then have q: "q \<noteq> []" "lookup f (butlast q) = Some Dir"
      using ok p by (auto simp: fs_ok_def list_all_iff)
    moreover from q(2) p(3) have "butlast q \<noteq> p" by auto
    ultimately show ?thesis using p by simp
  qed
  have mnt: "q \<noteq> [] \<and> m \<noteq> Dir \<and> lookup (set_node p n f) q \<noteq> None \<and> lookup (set_node p n f) q \<noteq> Some Dir"
    if "(q, m) \<in> set (mounts f)" for q m
    using ok that p n by (auto simp: fs_ok_def list_all_iff)
  from par mnt show ?thesis by (auto simp: fs_ok_def list_all_iff)
qed

lemma fs_ok_drop_node:
  assumes ok: "fs_ok f" and p: "p \<noteq> []" "map_of (mounts f) p = None"
    and leaf: "lookup f p \<noteq> Some Dir \<or> \<not> has_child f p"
  shows "fs_ok (drop_node p f)"
proof -
  have "q \<noteq> [] \<and> lookup (drop_node p f) (butlast q) = Some Dir" if "(q, m) \<in> set (nodes (drop_node p f))" for q m
  proof -
    from that have "(q, m) \<in> set (nodes f)" by (auto simp: drop_node_def set_alist_delete)
    with ok p leaf fs_ok_no_child [OF ok leaf this] show ?thesis
      by (auto simp: fs_ok_def list_all_iff)
  qed
  moreover have "q \<noteq> [] \<and> m \<noteq> Dir \<and> lookup (drop_node p f) q \<noteq> None \<and> lookup (drop_node p f) q \<noteq> Some Dir"
    if "(q, m) \<in> set (mounts f)" for q m
  proof -
    from that p(2) have "q \<noteq> p" by (auto simp: map_of_eq_None_iff image_iff)
    with ok p that show ?thesis by (auto simp: fs_ok_def list_all_iff)
  qed
  ultimately show ?thesis by (auto simp: fs_ok_def list_all_iff)
qed

lemma fs_ok_modes [simp]: "fs_ok (f\<lparr>modes := m\<rparr>) = fs_ok f"
  by (simp add: fs_ok_def)

section \<open>Resolution\<close>

definition tree :: "(path \<Rightarrow> node option) \<Rightarrow> bool" where
  "tree look \<longleftrightarrow> look [] = Some Dir \<and>
     (\<forall>q n. look q = Some n \<longrightarrow> q \<noteq> [] \<longrightarrow> look (butlast q) = Some Dir)"

lemma tree_lookup: "fs_ok f \<Longrightarrow> tree (lookup f)"
  by (auto simp: tree_def fs_ok_parent)

lemma tree_parent: "tree look \<Longrightarrow> look q = Some n \<Longrightarrow> q = [] \<or> look (butlast q) = Some Dir"
  unfolding tree_def by blast

lemma tree_root: "tree look \<Longrightarrow> look [] = Some Dir"
  by (simp add: tree_def)

lemma tree_up: "tree look \<Longrightarrow> look p = Some Dir \<Longrightarrow> look (butlast p) = Some Dir"
  using tree_parent [of look p Dir] by (cases "p = []") auto

text \<open>A resolved path lies in a directory, and is not a link when links are followed.\<close>

lemma walk_sound:
  "walk look follow links dir cs = Inr p \<Longrightarrow> tree look \<Longrightarrow> look dir = Some Dir \<Longrightarrow>
     (p = [] \<or> look (butlast p) = Some Dir) \<and> (follow \<longrightarrow> (\<forall>t. look p \<noteq> Some (Symlink t)))"
proof (induction look follow links dir cs rule: walk.induct)
  case (1 look follow links dir)
  then show ?case by (auto dest: tree_parent)
next
  case (2 look follow links dir c cs)
  show ?case
  proof (cases "c = ''..''")
    case True
    with 2 show ?thesis by (simp add: tree_up)
  next
    case False
    show ?thesis
    proof (cases "look (dir @ [c])")
      case None
      with 2 False show ?thesis by (auto split: if_splits)
    next
      case (Some n)
      then show ?thesis
      proof (cases n)
        case Dir
        with Some False 2 show ?thesis by simp
      next
        case (Symlink t)
        show ?thesis
        proof (cases "cs = [] \<and> \<not> follow")
          case True
          with Symlink Some False 2 show ?thesis by auto
        next
          case step: False
          with Symlink Some False 2(4) have "links \<noteq> 0" by (auto split: if_splits)
          moreover from step this Symlink Some False 2(4)
          have "walk look follow (links - 1) (if is_abs t then [] else dir) (comps t @ cs) = Inr p" by (auto split: if_splits)
          ultimately show ?thesis
            using 2(3) [OF False Some Symlink step] 2(5,6) by (cases "is_abs t") (auto simp: tree_root)
        qed
      qed (use Some False 2 in \<open>auto split: if_splits\<close>)
    qed
  qed
qed

lemma resolve_sound:
  assumes "resolve op follow f cs = Inr p" and "fs_ok f"
  shows "p = [] \<or> lookup f (butlast p) = Some Dir" and "follow \<Longrightarrow> lookup f p \<noteq> Some (Symlink t)"
  using assms walk_sound [of "lookup f" follow 40 "[]" cs p] tree_lookup [of f]
  by (auto simp: resolve_def split: option.splits)

section \<open>Every operation keeps the file system well formed\<close>

named_theorems fs_ok_rules "the operations of the package os keep a file system well formed"

lemma fs_ok_remove [fs_ok_rules]: "fs_ok f \<Longrightarrow> fs_ok (fst (remove_entry f cs))"
  by (auto simp: remove_entry_def intro: fs_ok_drop_node split: sum.split option.split)

lemma fs_ok_create [fs_ok_rules]: "fs_ok f \<Longrightarrow> fs_ok (fst (create_entry op taken n f cs))"
  using resolve_sound(1) [of op False f cs]
  by (auto simp: create_entry_def intro!: fs_ok_set_node split: sum.split option.split)

lemma fs_ok_write [fs_ok_rules]: "fs_ok f \<Longrightarrow> fs_ok (fst (write_at f cs content))"
  using resolve_sound(1) [of OpWrite True f cs]
  by (auto simp: write_at_def intro!: fs_ok_set_node split: sum.split option.split node.split)

lemma fs_ok_chmod [fs_ok_rules]: "fs_ok f \<Longrightarrow> fs_ok (fst (chmod_at f cs mode))"
  by (auto simp: chmod_at_def split: sum.split option.split)

lemma fs_ok_mkdir_all [fs_ok_rules]: "fs_ok f \<Longrightarrow> fs_ok (fst (mkdir_all f rcs))"
proof (induction f rcs rule: mkdir_all.induct)
  case (2 f c up)
  obtain f1 e1 where 1: "mkdir_all f up = (f1, e1)" by force
  obtain f2 e2 where c: "create_entry OpMkdir EEXIST Dir f1 (rev (c # up)) = (f2, e2)" by force
  have "fs_ok f1" if "isl (stat_at f (rev (c # up)))"
    using 2 1 that by (auto simp: isl_def)
  then show ?case
    using 2(2) 1 c fs_ok_create [of f1 OpMkdir EEXIST Dir "rev (c # up)"]
    by (auto split: sum.split node.split option.split)
qed simp

lemma drop_first_subset: "x \<in> set (drop_first k kvs) \<Longrightarrow> x \<in> set kvs"
  by (induction k kvs rule: drop_first.induct) (auto split: if_splits)

lemma fs_ok_mounts:
  "fs_ok f \<Longrightarrow> list_all (\<lambda>(p, m). p \<noteq> [] \<and> m \<noteq> Dir \<and> lookup f p \<noteq> None \<and> lookup f p \<noteq> Some Dir) mm \<Longrightarrow>
     fs_ok (f\<lparr>mounts := mm\<rparr>)"
  by (simp add: fs_ok_def)

lemma fs_ok_mount [fs_ok_rules]:
  assumes "fs_ok f"
  shows "fs_ok (fst (mount_at f source target))"
proof (cases "snd (mount_at f source target) = None")
  case True
  then obtain p q n m where r: "resolve OpMount True f target = Inr p" "lookup f q = Some n" "lookup f p = Some m"
    and n: "n \<noteq> Dir" "m \<noteq> Dir" and f': "fst (mount_at f source target) = (set_node p n f)\<lparr>mounts := (p, m) # mounts f\<rparr>"
    by (auto simp: mount_at_def split: sum.splits option.splits if_splits)
  have p: "p \<noteq> []" using r(3) n by auto
  then have "lookup f (butlast p) = Some Dir" using resolve_sound(1) [OF r(1) assms] by simp
  then have "fs_ok (set_node p n f)" using assms p r n by (intro fs_ok_set_node) auto
  then show ?thesis unfolding f'
    by (rule fs_ok_mounts) (use n p in \<open>auto simp: list_all_iff dest: fs_ok_mount_entry [OF assms] split: if_splits\<close>)
next
  case False
  then have "fst (mount_at f source target) = f"
    by (auto simp: mount_at_def split: sum.split option.split)
  with assms show ?thesis by simp
qed

lemma fs_ok_unmount [fs_ok_rules]:
  assumes "fs_ok f"
  shows "fs_ok (fst (unmount_at f target))"
proof (cases "snd (unmount_at f target) = None")
  case True
  then obtain p m where m: "map_of (mounts f) p = Some m"
    and f': "fst (unmount_at f target) = (set_node p m f)\<lparr>mounts := drop_first p (mounts f)\<rparr>"
    by (auto simp: unmount_at_def split: sum.splits option.splits)
  note mt = fs_ok_mounted [OF assms m]
  then have "lookup f (butlast p) = Some Dir" using assms fs_ok_parent by blast
  then have "fs_ok (set_node p m f)" using assms mt by (intro fs_ok_set_node) auto
  then show ?thesis unfolding f'
    by (rule fs_ok_mounts) (use mt in \<open>auto simp: list_all_iff dest!: drop_first_subset dest: fs_ok_mount_entry [OF assms] split: if_splits\<close>)
next
  case False
  then have "fst (unmount_at f target) = f"
    by (auto simp: unmount_at_def split: sum.split option.split)
  with assms show ?thesis by simp
qed

section \<open>Directories reached by a path\<close>

text \<open>
  A walk that ends at an existing node is the same in any file system with more nodes, and can
  be continued by one name.
\<close>

lemma walk_mono:
  "walk L follow links dir cs = Inr p \<Longrightarrow> L p \<noteq> None \<Longrightarrow> (\<And>q n. L q = Some n \<Longrightarrow> L' q = Some n) \<Longrightarrow>
     walk L' follow links dir cs = Inr p"
proof (induction L follow links dir cs rule: walk.induct)
  case (2 L follow links dir c cs)
  then show ?case
    by (cases "L (dir @ [c])") (auto split: node.split if_splits)
qed simp

lemma walk_snoc:
  "walk L True links dir cs = Inr d \<Longrightarrow> L d = Some Dir \<Longrightarrow> n \<noteq> ''..'' \<Longrightarrow>
     \<not> follow \<or> (\<forall>t. L (d @ [n]) \<noteq> Some (Symlink t)) \<Longrightarrow>
     walk L follow links dir (cs @ [n]) = Inr (d @ [n])"
proof (induction L True links dir cs rule: walk.induct)
  case (1 L links dir)
  then show ?case by (auto split: option.split node.split)
next
  case (2 L links dir c cs)
  then show ?case
    by (cases "L (dir @ [c])") (auto split: node.split if_splits)
qed

definition above :: "path \<Rightarrow> (path \<Rightarrow> node option) \<Rightarrow> path \<Rightarrow> node option" where
  "above d look p = (if strict_prefix d p then None else look p)"

text \<open>
  The path \<open>cs\<close> leads to the directory \<open>d\<close>, through nodes that are not below \<open>d\<close> itself, so that
  nothing done inside \<open>d\<close> changes where the path leads.
\<close>

definition dir_ok :: "string list \<Rightarrow> path \<Rightarrow> 'a fs_scheme \<Rightarrow> bool" where
  "dir_ok cs d f \<longleftrightarrow> fs_ok f \<and> lookup f d = Some Dir \<and> walk (above d (lookup f)) True 40 [] cs = Inr d"

lemma dir_ok_fs_ok: "dir_ok cs d f \<Longrightarrow> fs_ok f"
  by (simp add: dir_ok_def)

lemma dir_ok_walk: "dir_ok cs d f \<Longrightarrow> walk (lookup f) True 40 [] cs = Inr d"
  unfolding dir_ok_def by (erule conjE, erule conjE, erule walk_mono) (auto simp: above_def split: if_splits)

lemma dir_ok_resolve:
  assumes "dir_ok cs d f" and "n \<noteq> ''..''" and "\<not> follow \<or> (\<forall>t. lookup f (d @ [n]) \<noteq> Some (Symlink t))"
  shows "resolve op follow f (cs @ [n]) =
    (case faults f op (cs @ [n]) of Some t \<Rightarrow> Inl (Fault t) | None \<Rightarrow> Inr (d @ [n]))"
proof -
  have "lookup f d = Some Dir" using assms(1) by (simp add: dir_ok_def)
  from walk_snoc [OF dir_ok_walk [OF assms(1)] this assms(2,3)] show ?thesis
    by (simp add: resolve_def split: option.split)
qed

lemma above_upd: "above d (L(d @ [n] := v)) = above d L"
  by (rule ext) (auto simp: above_def strict_prefix_def)

lemma dir_ok_change:
  assumes "dir_ok cs d f" and "fs_ok f'" and "lookup f' = (lookup f)(d @ [n] := v)"
  shows "dir_ok cs d f'"
  using assms by (auto simp: dir_ok_def above_upd)

lemma plain_dir:
  assumes "fs_ok f" and "lookup f d = Some Dir" and "''..'' \<notin> set d"
  shows "dir_ok d d f"
proof -
  have "lookup f (take k d) = Some Dir" for k
  proof (induction "length d - k" arbitrary: k)
    case 0
    with assms(2) show ?case by simp
  next
    case (Suc j)
    then have "lookup f (take (Suc k) d) = Some Dir" and k: "k < length d" by auto
    with fs_ok_parent [OF assms(1) this(1)] show ?case
      by (simp add: take_Suc_conv_app_nth)
  qed
  then have ab: "above d (lookup f) (take k d) = Some Dir" for k
    by (auto simp: above_def strict_prefix_def prefix_order.eq_iff take_is_prefix)
  have "walk (above d (lookup f)) True 40 (take k d) (drop k d) = Inr d" if "k \<le> length d" for k
    using that
  proof (induction "length d - k" arbitrary: k)
    case 0
    then show ?case by simp
  next
    case (Suc j)
    then have k: "k < length d" by simp
    then have "drop k d = d ! k # drop (Suc k) d" and "take (Suc k) d = take k d @ [d ! k]"
      by (simp_all add: Cons_nth_drop_Suc take_Suc_conv_app_nth)
    moreover have "walk (above d (lookup f)) True 40 (take (Suc k) d) (drop (Suc k) d) = Inr d"
      using Suc(1) [of "Suc k"] Suc(2) k by simp
    ultimately show ?case using ab [of "Suc k"] k assms(3) by (auto simp: in_set_conv_nth)
  qed
  from this [of 0] assms show ?thesis by (simp add: dir_ok_def)
qed

lemma not_blocking: "\<not> blocking err \<longleftrightarrow> (\<forall>e. err = Some e \<longrightarrow> e = ENOENT)"
  by (cases err) (auto simp: blocking_def)

text \<open>The file operations on an entry \<open>n\<close> of a directory that \<open>cs\<close> leads to.\<close>

lemma stat_entry:
  assumes "dir_ok cs d f" and "n \<noteq> ''..''" and "\<And>t. lookup f (d @ [n]) \<noteq> Some (Symlink t)"
  shows "stat_at f (cs @ [n]) =
    (case faults f OpStat (cs @ [n]) of Some t \<Rightarrow> Inl (Fault t)
     | None \<Rightarrow> (case lookup f (d @ [n]) of None \<Rightarrow> Inl ENOENT | Some m \<Rightarrow> Inr m))"
  using assms by (simp add: stat_at_def dir_ok_resolve split: option.split)

lemma lstat_entry:
  assumes "dir_ok cs d f" and "n \<noteq> ''..''"
  shows "lstat_at f (cs @ [n]) =
    (case faults f OpLstat (cs @ [n]) of Some t \<Rightarrow> Inl (Fault t)
     | None \<Rightarrow> (case lookup f (d @ [n]) of None \<Rightarrow> Inl ENOENT | Some m \<Rightarrow> Inr m))"
  using assms by (simp add: lstat_at_def dir_ok_resolve split: option.split)

lemma readlink_entry:
  assumes "dir_ok cs d f" and "n \<noteq> ''..''"
  shows "readlink_at f (cs @ [n]) =
    (case faults f OpReadlink (cs @ [n]) of Some t \<Rightarrow> Inl (Fault t)
     | None \<Rightarrow> (case lookup f (d @ [n]) of None \<Rightarrow> Inl ENOENT | Some (Symlink t) \<Rightarrow> Inr t | Some _ \<Rightarrow> Inl EINVAL))"
  using assms by (simp add: readlink_at_def dir_ok_resolve split: option.split)

lemma remove_entry_done:
  assumes "dir_ok cs d f" and "n \<noteq> ''..''" and "remove_entry f (cs @ [n]) = (f', err)"
  shows "fs_ok f'" and "err = None \<Longrightarrow> lookup f' = (lookup f)(d @ [n] := None)" and "err \<noteq> None \<Longrightarrow> f' = f"
    and "err = Some ENOENT \<Longrightarrow> lookup f (d @ [n]) = None"
  using assms fs_ok_remove [OF dir_ok_fs_ok [OF assms(1)], of "cs @ [n]"]
  by (auto simp: remove_entry_def dir_ok_resolve split: option.splits sum.splits if_splits)

lemma create_entry_done:
  assumes "dir_ok cs d f" and "n \<noteq> ''..''" and "create_entry op taken node f (cs @ [n]) = (f', err)"
  shows "fs_ok f'" and "err = None \<Longrightarrow> lookup f' = (lookup f)(d @ [n] \<mapsto> node)" and "err \<noteq> None \<Longrightarrow> f' = f"
    and "err = None \<Longrightarrow> lookup f (d @ [n]) = None"
  using assms fs_ok_create [OF dir_ok_fs_ok [OF assms(1)], of op taken node "cs @ [n]"]
  by (auto simp: create_entry_def dir_ok_resolve split: option.splits sum.splits)

section \<open>Entries of a directory\<close>

text \<open>
  The contract of a directory's entries, as the code relies on it when it replaces an entry:
  remove the old one, ignoring that there is none, and create the new one.
\<close>

locale entry_store =
  fixes good :: "'s \<Rightarrow> bool"
    and name :: "'p \<Rightarrow> bool"
    and entry :: "'s \<Rightarrow> 'p \<Rightarrow> 'n option"
    and remove :: "'s \<Rightarrow> 'p \<Rightarrow> 's \<times> 'e option"
    and create :: "'n \<Rightarrow> 's \<Rightarrow> 'p \<Rightarrow> 's \<times> 'e option"
    and missing :: "'e \<Rightarrow> bool"
  assumes remove_done: "good s \<Longrightarrow> name p \<Longrightarrow> remove s p = (s', None) \<Longrightarrow> good s' \<and> entry s' = (entry s)(p := None)"
    and remove_failed: "good s \<Longrightarrow> name p \<Longrightarrow> remove s p = (s', Some e) \<Longrightarrow> s' = s \<and> (missing e \<longrightarrow> entry s p = None)"
    and create_done: "good s \<Longrightarrow> name p \<Longrightarrow> create n s p = (s', None) \<Longrightarrow> good s' \<and> entry s' = (entry s)(p \<mapsto> n)"
    and create_failed: "good s \<Longrightarrow> name p \<Longrightarrow> create n s p = (s', Some e) \<Longrightarrow> s' = s"
begin

lemma cleared:
  assumes "good s" and "name p" and "remove s p = (s', err)" and "\<And>e. err = Some e \<Longrightarrow> missing e"
  shows "good s' \<and> entry s' = (entry s)(p := None)"
proof (cases err)
  case None
  with assms remove_done show ?thesis by blast
next
  case (Some e)
  with assms(3) remove_failed [OF assms(1,2)] assms(4) have "s' = s" "entry s p = None" by blast+
  with assms(1) show ?thesis by (simp add: fun_upd_idem)
qed

lemma remove_elsewhere:
  assumes "good s" and "name p" and "remove s p = (s', err)"
  shows "good s' \<and> (\<forall>q. q \<noteq> p \<longrightarrow> entry s' q = entry s q)"
proof (cases err)
  case None
  with remove_done [OF assms(1,2)] assms(3) show ?thesis by simp
next
  case (Some e)
  with remove_failed [OF assms(1,2)] assms(3) have "s' = s" by blast
  with assms(1) show ?thesis by simp
qed

lemma create_elsewhere:
  assumes "good s" and "name p" and "create n s p = (s', err)"
  shows "good s' \<and> (\<forall>q. q \<noteq> p \<longrightarrow> entry s' q = entry s q)"
proof (cases err)
  case None
  with create_done [OF assms(1,2)] assms(3) show ?thesis by simp
next
  case (Some e)
  with create_failed [OF assms(1,2)] assms(3) have "s' = s" by blast
  with assms(1) show ?thesis by simp
qed

lemma replaced:
  assumes "good s" and "name p" and "remove s p = (s1, err)" and "\<And>e. err = Some e \<Longrightarrow> missing e"
    and "create n s1 p = (s', None)"
  shows "good s' \<and> entry s' = (entry s)(p \<mapsto> n)"
proof -
  have "good s1" "entry s1 = (entry s)(p := None)" using cleared [OF assms(1-4)] by simp_all
  with create_done [OF _ assms(2,5)] show ?thesis by simp
qed

end

interpretation dir: entry_store "dir_ok cs d" "\<lambda>n. n \<noteq> ''..''" "\<lambda>f n. lookup f (d @ [n])"
  "\<lambda>f n. remove_entry f (cs @ [n])" "\<lambda>node f n. create_entry op taken node f (cs @ [n])" "\<lambda>e. e = ENOENT"
  for cs d op taken
proof
  fix f f' :: "'a fs_scheme" and n
  assume ok: "dir_ok cs d f" and n: "n \<noteq> ''..''"
  show "dir_ok cs d f' \<and> (\<lambda>m. lookup f' (d @ [m])) = (\<lambda>m. lookup f (d @ [m]))(n := None)"
    if "remove_entry f (cs @ [n]) = (f', None)"
    using remove_entry_done [OF ok n that] dir_ok_change [OF ok] by (auto simp: fun_eq_iff)
  show "f' = f \<and> (e = ENOENT \<longrightarrow> lookup f (d @ [n]) = None)" if "remove_entry f (cs @ [n]) = (f', Some e)" for e
    using remove_entry_done(3,4) [OF ok n that] by simp
  show "dir_ok cs d f' \<and> (\<lambda>m. lookup f' (d @ [m])) = (\<lambda>m. lookup f (d @ [m]))(n \<mapsto> node)"
    if "create_entry op taken node f (cs @ [n]) = (f', None)" for node
    using create_entry_done [OF ok n that] dir_ok_change [OF ok] by (auto simp: fun_eq_iff)
  show "f' = f" if "create_entry op taken node f (cs @ [n]) = (f', Some e)" for node e
    using create_entry_done(3) [OF ok n that] by simp
qed

section \<open>Path strings\<close>

lemma split_on_append: "sep \<notin> set a \<Longrightarrow> split_on sep (a @ sep # b) = a # split_on sep b"
  by (induction a) auto

lemma split_on_word: "sep \<notin> set a \<Longrightarrow> split_on sep a = [a]"
  by (induction a) auto

lemma split_on_words: "w \<in> set (split_on sep s) \<Longrightarrow> sep \<notin> set w"
proof (induction sep s arbitrary: w rule: split_on.induct)
  case (2 sep c s)
  then show ?case by (cases "split_on sep s") (auto split: if_splits)
qed simp

definition component_ok :: "string \<Rightarrow> bool" where
  "component_ok c \<longleftrightarrow> c \<noteq> [] \<and> c \<noteq> ''.'' \<and> c \<noteq> ''..'' \<and> CHR ''/'' \<notin> set c"

lemma comps_slash [simp]: "comps (CHR ''/'' # s) = comps s"
  by (simp add: comps_def)

lemma comps_word: "c \<noteq> [] \<Longrightarrow> c \<noteq> ''.'' \<Longrightarrow> CHR ''/'' \<notin> set c \<Longrightarrow> comps c = [c]"
  by (simp add: comps_def split_on_word)

lemma comps_append: "c \<noteq> [] \<Longrightarrow> c \<noteq> ''.'' \<Longrightarrow> CHR ''/'' \<notin> set c \<Longrightarrow> comps (c @ CHR ''/'' # s) = c # comps s"
  by (simp add: comps_def split_on_append)

lemma comps_sound: "c \<in> set (comps s) \<Longrightarrow> c \<noteq> [] \<and> c \<noteq> ''.'' \<and> CHR ''/'' \<notin> set c"
  by (auto simp: comps_def dest: split_on_words)

lemma comps_join: "list_all (\<lambda>c. c \<noteq> [] \<and> c \<noteq> ''.'' \<and> CHR ''/'' \<notin> set c) cs \<Longrightarrow> comps (join_path cs) = cs"
  by (induction cs rule: join_path.induct) (auto simp: comps_word comps_append, simp add: comps_def)

lemma clean_comps_id: "''..'' \<notin> set cs \<Longrightarrow> clean_comps absolute out cs = rev out @ cs"
  by (induction cs arbitrary: out) auto

lemma comps_Clean: "''..'' \<notin> set (comps s) \<Longrightarrow> is_abs s \<Longrightarrow> comps (Clean s) = comps s"
  by (simp add: Clean_def clean_comps_id comps_join list_all_iff comps_sound)

text \<open>A path in the runtime directory of a user: \<open>/run/user/UID/rest\<close>.\<close>

definition run_user :: "string \<Rightarrow> string \<Rightarrow> string" where
  "run_user uid rest = ''/run/user/'' @ uid @ ''/'' @ rest"

lemma comps_run_user: "component_ok uid \<Longrightarrow> comps (run_user uid rest) = ''run'' # ''user'' # uid # comps rest"
proof -
  assume uid: "component_ok uid"
  have "comps (run_user uid rest) = comps (''run'' @ CHR ''/'' # ''user'' @ CHR ''/'' # uid @ CHR ''/'' # rest)"
    by (simp add: run_user_def)
  also have "\<dots> = ''run'' # ''user'' # comps (uid @ CHR ''/'' # rest)"
    by (subst comps_append; (subst comps_append)?; simp)
  also have "comps (uid @ CHR ''/'' # rest) = uid # comps rest"
    using uid by (intro comps_append) (auto simp: component_ok_def)
  finally show ?thesis by simp
qed

lemma split_on_not_Nil: "split_on sep s \<noteq> []"
  by (induction s) (auto split: list.split)

lemma split_on_snoc: "split_on sep (s @ [sep]) = split_on sep s @ [[]]"
proof (induction s)
  case (Cons c s)
  then show ?case using split_on_not_Nil [of sep s] by (cases "split_on sep s") auto
qed simp

lemma comps_snoc_slash: "comps (s @ ''/'') = comps s"
  by (simp add: comps_def split_on_snoc)

lemma Dir_run_user:
  assumes "component_ok uid" and "CHR ''/'' \<notin> set base" and "''..'' \<notin> set (comps dir)"
  shows "comps (filepath_Dir (run_user uid (dir @ ''/'' @ base))) = ''run'' # ''user'' # uid # comps dir"
proof -
  have base: "dropWhile (\<lambda>c. c \<noteq> CHR ''/'') (rev base @ ys) = dropWhile (\<lambda>c. c \<noteq> CHR ''/'') ys" for ys
    by (rule dropWhile_append2) (use assms(2) in auto)
  have "rev (run_user uid (dir @ ''/'' @ base)) = rev base @ rev (run_user uid (dir @ ''/''))"
    by (simp add: run_user_def)
  then have d: "rev (dropWhile (\<lambda>c. c \<noteq> CHR ''/'') (rev (run_user uid (dir @ ''/'' @ base)))) = run_user uid (dir @ ''/'')"
    by (simp only: base) (simp add: run_user_def)
  have c: "comps (run_user uid (dir @ ''/'')) = ''run'' # ''user'' # uid # comps dir"
    by (simp only: comps_run_user [OF assms(1)] comps_snoc_slash)
  have "''..'' \<notin> set (comps (run_user uid (dir @ ''/'')))"
    using assms(1,3) by (auto simp: c component_ok_def)
  moreover have "is_abs (run_user uid (dir @ ''/''))" by (simp add: is_abs_def run_user_def HasPrefix_def)
  ultimately have "comps (Clean (run_user uid (dir @ ''/''))) = comps (run_user uid (dir @ ''/''))" by (rule comps_Clean)
  then show ?thesis by (simp only: filepath_Dir_def d c)
qed

section \<open>MkdirAll\<close>

text \<open>\<open>MkdirAll\<close> only adds directories.\<close>

lemma create_mkdir_grows:
  "create_entry op taken Dir f cs = (f', err) \<Longrightarrow> lookup f p = Some n \<Longrightarrow> lookup f' p = Some n"
  by (auto simp: create_entry_def split: sum.splits option.splits) (metis fun_upd_other lookup_root lookup_set_node option.distinct(1))

lemma mkdir_all_grows:
  "mkdir_all f rcs = (f', err) \<Longrightarrow> lookup f p = Some n \<Longrightarrow> lookup f' p = Some n"
proof (induction f rcs arbitrary: f' err rule: mkdir_all.induct)
  case (2 f c up)
  obtain f1 e1 where 1: "mkdir_all f up = (f1, e1)" by force
  obtain f2 e2 where c: "create_entry OpMkdir EEXIST Dir f1 (rev (c # up)) = (f2, e2)" by force
  show ?case
  proof (cases "stat_at f (rev (c # up))")
    case (Inl e)
    from 2(1) [OF Inl 1 2(3)] have "lookup f1 p = Some n" .
    with create_mkdir_grows [OF c] 2(2) 1 c Inl show ?thesis
      by (auto split: option.splits sum.splits node.splits)
  next
    case (Inr m)
    with 2(2,3) show ?thesis by (auto split: node.splits)
  qed
qed simp

lemma mkdir_all_keeps_dir: "mkdir_all f rcs = (f', err) \<Longrightarrow> dir_ok cs d f \<Longrightarrow> dir_ok cs d f'"
  using fs_ok_mkdir_all [of f rcs]
  by (auto simp: dir_ok_def intro: mkdir_all_grows elim!: walk_mono)
    (auto simp: above_def split: if_splits intro: mkdir_all_grows)

lemma dir_ok_stat:
  assumes "dir_ok cs d f"
  shows "stat_at f cs = (case faults f OpStat cs of Some t \<Rightarrow> Inl (Fault t) | None \<Rightarrow> Inr Dir)"
  using dir_ok_walk [OF assms] assms by (simp add: stat_at_def resolve_def dir_ok_def split: option.split)

lemma create_existing:
  assumes "dir_ok cs d f" and "n \<noteq> ''..''" and "lookup f (d @ [n]) \<noteq> None"
  shows "fst (create_entry op taken node f (cs @ [n])) = f" and "snd (create_entry op taken node f (cs @ [n])) \<noteq> None"
  using assms(3) by (auto simp: create_entry_def dir_ok_resolve [OF assms(1,2)] split: option.split)

lemma plain_prefix:
  assumes "fs_ok f" and "lookup f (d @ e) = Some Dir"
  shows "lookup f d = Some Dir"
  using assms(2)
proof (induction e rule: rev_induct)
  case (snoc x e)
  with fs_ok_parent [OF assms(1), of "d @ e @ [x]"] show ?case by (simp add: butlast_append)
qed simp

lemma mkdir_all_id:
  assumes "fs_ok f"
  shows "lookup f d = Some Dir \<Longrightarrow> ''..'' \<notin> set d \<Longrightarrow> fst (mkdir_all f (rev d)) = f"
proof (induction d rule: rev_induct)
  case (snoc n d)
  have up: "lookup f d = Some Dir" using plain_prefix [OF assms snoc.prems(1)] .
  with snoc obtain e1 where 1: "mkdir_all f (rev d) = (f, e1)"
    by (metis Un_iff eq_fst_iff set_append)
  have "dir_ok d d f" using plain_dir [OF assms up] snoc.prems(2) by simp
  from create_existing [OF this, of n OpMkdir EEXIST Dir] snoc.prems
  obtain e2 where 2: "create_entry OpMkdir EEXIST Dir f (d @ [n]) = (f, Some e2)"
    by (metis list.set_intros(1) not_None_eq option.distinct(1) prod.collapse Un_iff set_append)
  show ?case using 1 2 by (auto split: sum.split node.split option.split)
qed simp

text \<open>Making the last directory of a path whose other directories exist.\<close>

lemma mkdir_all_last:
  assumes "fs_ok f" and "lookup f d = Some Dir" and "''..'' \<notin> set (d @ [n])"
    and free: "lookup f (d @ [n]) \<in> {None, Some Dir}" and "mkdir_all f (rev (d @ [n])) = (f', None)"
  shows "fs_ok f' \<and> lookup f' = (lookup f)(d @ [n] \<mapsto> Dir)"
proof -
  have n: "n \<noteq> ''..''" and dots: "''..'' \<notin> set d" using assms(3) by auto
  have ok: "dir_ok d d f" using plain_dir [OF assms(1,2) dots] .
  obtain e1 where 1: "mkdir_all f (rev d) = (f, e1)"
    using mkdir_all_id [OF assms(1,2) dots] by (metis eq_fst_iff)
  obtain f2 e2 where 2: "create_entry OpMkdir EEXIST Dir f (d @ [n]) = (f2, e2)" by force
  have made: "lookup f2 = (lookup f)(d @ [n] \<mapsto> Dir)" if "e2 = None"
    using 2 that by (auto simp: create_entry_def dir_ok_resolve [OF ok n] split: option.splits sum.splits)
  have kept: "f2 = f" if "e2 \<noteq> None"
    using 2 that by (auto simp: create_entry_def split: option.splits sum.splits)
  have stat: "lookup f (d @ [n]) = Some Dir" if "stat_at f (d @ [n]) = Inr m" for m
    using that free walk_snoc [OF dir_ok_walk [OF ok] assms(2) n, of True]
    by (auto simp: stat_at_def resolve_def split: option.splits)
  have lstat: "lookup f (d @ [n]) = Some Dir" if "lstat_at f (d @ [n]) = Inr m" for m
    using that free by (auto simp: lstat_at_def dir_ok_resolve [OF ok n] split: option.splits)
  have "fs_ok f'" using fs_ok_mkdir_all [OF assms(1), of "rev (d @ [n])"] assms(5) by simp
  moreover have "lookup f' = (lookup f)(d @ [n] \<mapsto> Dir)"
  proof (cases "stat_at f (d @ [n])")
    case (Inr m)
    with assms(5) have "f' = f" by (auto split: node.splits)
    with stat [OF Inr] show ?thesis by (simp add: fun_upd_idem)
  next
    case (Inl e)
    with assms(5) 1 2 have "e1 = None" and cr: "e2 = None \<and> f' = f2 \<or> e2 \<noteq> None \<and> f' = f2 \<and> lstat_at f2 (d @ [n]) = Inr Dir"
      by (auto split: option.splits sum.splits node.splits)
    then show ?thesis using made kept lstat by (auto simp: fun_upd_idem)
  qed
  ultimately show ?thesis by blast
qed

lemma mkdir_all_adds:
  "mkdir_all f rcs = (f', err) \<Longrightarrow> lookup f' p = lookup f p \<or> lookup f p = None \<and> lookup f' p = Some Dir"
proof (induction f rcs arbitrary: f' err rule: mkdir_all.induct)
  case (2 f c up)
  obtain f1 e1 where 1: "mkdir_all f up = (f1, e1)" by force
  obtain f2 e2 where 2: "create_entry OpMkdir EEXIST Dir f1 (rev (c # up)) = (f2, e2)" by force
  have c: "lookup f2 p = lookup f1 p \<or> lookup f1 p = None \<and> lookup f2 p = Some Dir"
  proof (cases "f2 = f1")
    case False
    then obtain q where "lookup f1 q = None" "f2 = set_node q Dir f1"
      using 2 by (auto simp: create_entry_def split: sum.splits option.splits)
    moreover from this have "q \<noteq> []" by auto
    ultimately show ?thesis by simp
  qed simp
  show ?case
  proof (cases "stat_at f (rev (c # up))")
    case (Inl e)
    from "2.IH" [OF Inl 1] c "2.prems" 1 2 Inl show ?thesis
      by (auto split: option.splits sum.splits node.splits)
  next
    case (Inr m)
    with "2.prems" show ?thesis by (auto split: node.splits)
  qed
qed simp

text \<open>No operation is refused for an outside reason.\<close>

definition quiet :: "'a fs_scheme \<Rightarrow> bool" where
  "quiet f \<longleftrightarrow> faults f = (\<lambda>op cs. None)"

lemma quiet_faults [simp]: "quiet f \<Longrightarrow> faults f op cs = None"
  by (simp add: quiet_def)

lemma faults_kept [simp]:
  "faults (fst (remove_entry f cs)) = faults f"
  "faults (fst (create_entry op taken n f cs)) = faults f"
  "faults (fst (write_at f cs content)) = faults f"
  "faults (fst (chmod_at f cs mode)) = faults f"
  by (auto simp: remove_entry_def create_entry_def write_at_def chmod_at_def split: sum.split option.split node.split)

lemma write_entry:
  assumes "dir_ok cs d f" and "n \<noteq> ''..''" and "\<And>t. lookup f (d @ [n]) \<noteq> Some (Symlink t)"
    and "write_at f (cs @ [n]) content = (f', err)"
  shows "fs_ok f'" and "err = None \<Longrightarrow> lookup f' = (lookup f)(d @ [n] \<mapsto> Reg content)" and "err \<noteq> None \<Longrightarrow> f' = f"
  using assms fs_ok_write [OF dir_ok_fs_ok [OF assms(1)], of "cs @ [n]" content]
  by (auto simp: write_at_def dir_ok_resolve split: option.splits sum.splits node.splits)

lemma read_entry:
  assumes "dir_ok cs d f" and "n \<noteq> ''..''" and "\<And>t. lookup f (d @ [n]) \<noteq> Some (Symlink t)"
  shows "read_at f (cs @ [n]) =
    (case faults f OpRead (cs @ [n]) of Some t \<Rightarrow> Inl (Fault t)
     | None \<Rightarrow> (case lookup f (d @ [n]) of None \<Rightarrow> Inl ENOENT | Some (Reg c) \<Rightarrow> Inr c | Some Dir \<Rightarrow> Inl EISDIR
         | Some _ \<Rightarrow> Inl ENXIO))"
  using assms by (simp add: read_at_def dir_ok_resolve split: option.split)

lemma chmod_kept [simp]: "lookup (fst (chmod_at f cs mode)) = lookup f"
  by (auto simp: chmod_at_def split: sum.split option.split)

lemma chmod_mounts [simp]: "mounts (fst (chmod_at f cs mode)) = mounts f"
  by (auto simp: chmod_at_def split: sum.split option.split)

lemma remove_slot_at:
  assumes "dir_ok cs d f" and "n \<noteq> ''..''" and "faults f OpRemove (cs @ [n]) = None" and "lookup f (d @ [n]) \<noteq> Some Dir"
    and "map_of (mounts f) (d @ [n]) = None"
  shows "\<exists>f' err. remove_entry f (cs @ [n]) = (f', err) \<and> \<not> blocking err \<and> dir_ok cs d f' \<and>
    lookup f' = (lookup f)(d @ [n] := None) \<and> mounts f' = mounts f \<and> faults f' = faults f"
proof (cases "lookup f (d @ [n])")
  case None
  then have "remove_entry f (cs @ [n]) = (f, Some ENOENT)"
    using assms by (simp add: remove_entry_def dir_ok_resolve)
  with None assms show ?thesis by (auto simp: blocking_def fun_upd_idem)
next
  case (Some m)
  then have r: "remove_entry f (cs @ [n]) = (drop_node (d @ [n]) f, None)"
    using assms by (simp add: remove_entry_def dir_ok_resolve)
  moreover have "dir_ok cs d (drop_node (d @ [n]) f)"
    using remove_entry_done(1) [OF assms(1,2) r] by (intro dir_ok_change [OF assms(1)]) simp_all
  ultimately show ?thesis by (auto simp: blocking_def)
qed

lemma remove_slot:
  assumes "dir_ok cs d f" and "n \<noteq> ''..''" and "quiet f" and "lookup f (d @ [n]) \<noteq> Some Dir"
    and "map_of (mounts f) (d @ [n]) = None"
  shows "\<exists>f' err. remove_entry f (cs @ [n]) = (f', err) \<and> \<not> blocking err \<and> dir_ok cs d f' \<and>
    lookup f' = (lookup f)(d @ [n] := None) \<and> mounts f' = mounts f \<and> quiet f'"
  using remove_slot_at [OF assms(1,2) _ assms(4,5)] assms(3) by (simp add: quiet_def)

lemma drop_first_id: "map_of kvs k = None \<Longrightarrow> drop_first k kvs = kvs"
  by (induction k kvs rule: drop_first.induct) (auto split: if_splits)

lemma walk_entry:
  assumes "dir_ok cs d f" and "n \<noteq> ''..''" and "\<And>t. lookup f (d @ [n]) \<noteq> Some (Symlink t)"
  shows "walk (lookup f) True 40 [] (cs @ [n]) = Inr (d @ [n])"
  using walk_snoc [OF dir_ok_walk [OF assms(1)]] assms by (simp add: dir_ok_def)

end
