(* ===== verification/Container_Env.thy ===== *)
theory Container_Env
  imports Go_Files Go_Text Command_Context "HOL-Library.Multiset"
begin

text \<open>
  The session environment of a container: \<open>container/env/environment.go\<close>, and \<open>SymLinkRun\<close> of
  \<open>container/init.go\<close>. The order in which Go ranges over a map is a parameter \<open>range_order\<close>. The
  exported lines are the result. The path a \<open>PathError\<close> puts in front of the error text is left out.
\<close>

section \<open>container/init.go: SymLinkRun\<close>

definition SymLinkRun :: "'a fs_scheme \<Rightarrow> Context \<Rightarrow> 'a fs_scheme \<times> string option" where
  "SymLinkRun f ctx =
     (let source = ''/lxg/run/user/'' @ UID ctx;
          destination = run_user (UID ctx) ''lxg''
      in case Remove f destination of
           (f, err) \<Rightarrow>
             if blocking err then (f, Some (''symlink error: '' @ errno_text (the err)))
             else (case Symlink_at f source destination of
                     (f, Some e) \<Rightarrow> (f, Some (''symlink error: '' @ errno_text e))
                   | (f, None) \<Rightarrow> (f, None)))"

section \<open>environment.go\<close>

text \<open>Check if the destination is a symlink and matches the desired source.\<close>

definition symlinkMatch :: "'a fs_scheme \<Rightarrow> string \<Rightarrow> string \<Rightarrow> errno + bool" where
  "symlinkMatch f source destination =
     (case Lstat f destination of
        Inl e \<Rightarrow> if e = ENOENT then Inr False else Inl e
      | Inr (Symlink _) \<Rightarrow>
          (case Readlink f destination of Inl e \<Rightarrow> Inl e | Inr targetLink \<Rightarrow> Inr (targetLink = source))
      | Inr _ \<Rightarrow> Inr False)"

definition removeExisting :: "'a fs_scheme \<Rightarrow> string \<Rightarrow> 'a fs_scheme \<times> errno option" where
  "removeExisting f path =
     (case Stat f path of
        Inl e \<Rightarrow> if e = ENOENT then (f, None) else (f, Some e)
      | Inr _ \<Rightarrow>
          (case Remove f path of (f, err) \<Rightarrow> if blocking err then (f, err) else (f, None)))"

definition link_list :: "string \<Rightarrow> (string \<times> string) list" where
  "link_list uid =
     [(run_user uid ''lxg/pulse-native'', run_user uid ''pulse/native''),
      (run_user uid ''lxg/pipewire-0'', run_user uid ''pipewire-0''),
      (run_user uid ''lxg/wayland-0'', run_user uid ''wayland-0''),
      (run_user uid ''lxg/X11-X0'', ''/tmp/.X11-unix/X0''),
      (run_user uid ''lxg/X11-X1'', ''/tmp/.X11-unix/X1'')]"

text \<open>The body of the loop, for one source and destination; \<open>continue\<close> is a result without an error.\<close>

definition link_one :: "'a fs_scheme \<Rightarrow> string \<Rightarrow> string \<Rightarrow> 'a fs_scheme \<times> errno option" where
  "link_one f source destination =
     (case Stat f source of
        Inl e \<Rightarrow> if e \<noteq> ENOENT then (f, Some e) else (f, None)
      | Inr _ \<Rightarrow>
          (case symlinkMatch f source destination of
             Inl e \<Rightarrow> (f, Some e)
           | Inr True \<Rightarrow> (f, None)
           | Inr False \<Rightarrow>
               (case removeExisting f destination of
                  (f, Some e) \<Rightarrow> (f, Some e)
                | (f, None) \<Rightarrow> Symlink_at f source destination)))"

fun link_loop :: "'a fs_scheme \<Rightarrow> (string \<times> string) list \<Rightarrow> 'a fs_scheme \<times> errno option" where
  "link_loop f [] = (f, None)"
| "link_loop f ((source, destination) # rest) =
     (case link_one f source destination of
        (f, Some e) \<Rightarrow> (f, Some e)
      | (f, None) \<Rightarrow> link_loop f rest)"

text \<open>A variable that is set when a path exists.\<close>

definition set_if_exists ::
  "'a fs_scheme \<Rightarrow> string \<Rightarrow> string \<Rightarrow> string \<Rightarrow> (string \<times> string) list \<Rightarrow> errno + (string \<times> string) list" where
  "set_if_exists f path key value variables =
     (case Stat f path of
        Inl e \<Rightarrow> if e \<noteq> ENOENT then Inl e else Inr variables
      | Inr _ \<Rightarrow> Inr (AList.update key value variables))"

fun dbus_loop :: "'a fs_scheme \<Rightarrow> string list \<Rightarrow> (string \<times> string) list \<Rightarrow> errno + (string \<times> string) list" where
  "dbus_loop f [] variables = Inr variables"
| "dbus_loop f (dBusPath # rest) variables =
     (case Stat f dBusPath of
        Inl e \<Rightarrow> if e \<noteq> ENOENT then Inl e else dbus_loop f rest variables
      | Inr _ \<Rightarrow> Inr (AList.update ''DBUS_SESSION_BUS_ADDRESS'' (''unix:path='' @ dBusPath) variables))"

definition env_variables :: "'a fs_scheme \<Rightarrow> string \<Rightarrow> errno + (string \<times> string) list" where
  "env_variables f uid =
     (case set_if_exists f (run_user uid ''lxg/X11-Xauth'') ''XAUTHORITY'' (run_user uid ''lxg/X11-Xauth'')
        [(''DISPLAY'', '':0''), (''WAYLAND_DISPLAY'', ''wayland-0'')] of
        Inl e \<Rightarrow> Inl e
      | Inr variables \<Rightarrow>
          (case set_if_exists f (run_user uid ''pulse/native'') ''PULSE_SERVER''
             (''unix:'' @ run_user uid ''pulse/native'') variables of
             Inl e \<Rightarrow> Inl e
           | Inr variables \<Rightarrow>
               (case dbus_loop f [run_user uid ''lxg/router'', run_user uid ''lxg/bus'', run_user uid ''bus''] variables of
                  Inl e \<Rightarrow> Inl e
                | Inr variables \<Rightarrow>
                    Inr (AList.update ''XDG_MENU_PREFIX'' ''gnome-'' (AList.update ''XDG_CURRENT_DESKTOP'' ''GNOME''
                      (AList.update ''XDG_RUNTIME_DIR'' (run_user uid []) (AList.update ''XDG_SESSION_TYPE'' ''wayland''
                        variables)))))))"

definition export_line :: "string \<times> string \<Rightarrow> string" where
  "export_line kv = ''export '' @ fst kv @ ''='' @ quote (snd kv) @ [CHR 0x0A]"

definition InitEnvironment ::
  "((string \<times> string) list \<Rightarrow> (string \<times> string) list) \<Rightarrow> nat \<Rightarrow> 'a fs_scheme \<Rightarrow> 'a fs_scheme \<times> (errno + string list)" where
  "InitEnvironment range_order uid f =
     (if uid < 1000 then (f, Inr [])
      else let uid = show_nat uid
      in case MkdirAll f (run_user uid ''pulse'') of
           (f, Some e) \<Rightarrow> (f, Inl e)
         | (f, None) \<Rightarrow>
             (case MkdirAll f ''/tmp/.X11-unix'' of
                (f, Some e) \<Rightarrow> (f, Inl e)
              | (f, None) \<Rightarrow>
                  (case link_loop f (range_order (link_list uid)) of
                     (f, Some e) \<Rightarrow> (f, Inl e)
                   | (f, None) \<Rightarrow>
                       (case env_variables f uid of
                          Inl e \<Rightarrow> (f, Inl e)
                        | Inr variables \<Rightarrow> (f, Inr (map export_line (range_order variables)))))))"

lemma component_show_nat [simp]: "component_ok (show_nat n)"
proof -
  have "CHR ''/'' \<notin> set (show_nat n)" and dot: "CHR ''.'' \<notin> set (show_nat n)"
    using show_nat_digits [of "CHR ''/''" n] show_nat_digits [of "CHR ''.''" n] by auto
  moreover from dot have "show_nat n \<noteq> ''.''" "show_nat n \<noteq> ''..''" by auto
  ultimately show ?thesis by (simp add: component_ok_def show_nat_nonempty)
qed

section \<open>The layout of a container\<close>

text \<open>
  The runtime directory of the user holds the link \<open>lxg\<close> to the directory shared with the host,
  as \<open>SymLinkRun\<close> makes it.
\<close>

definition run_dir :: "string \<Rightarrow> path" where
  "run_dir uid = [''run'', ''user'', uid]"

definition shared_dir :: "string \<Rightarrow> path" where
  "shared_dir uid = [''lxg'', ''run'', ''user'', uid]"

definition lxg_path :: "string \<Rightarrow> path" where
  "lxg_path uid = [''run'', ''user'', uid, ''lxg'']"

definition container_layout :: "string \<Rightarrow> 'a fs_scheme \<Rightarrow> bool" where
  "container_layout uid f \<longleftrightarrow> fs_ok f \<and> lookup f (run_dir uid) = Some Dir \<and>
     lookup f (lxg_path uid) = Some (Symlink (''/lxg/run/user/'' @ uid)) \<and> lookup f (shared_dir uid) = Some Dir"

lemma comps_shared: "component_ok uid \<Longrightarrow> comps (''/lxg/run/user/'' @ uid) = shared_dir uid"
proof -
  assume uid: "component_ok uid"
  have "comps (''/lxg/run/user/'' @ uid) = comps (''lxg'' @ CHR ''/'' # ''run'' @ CHR ''/'' # ''user'' @ CHR ''/'' # uid)"
    by simp
  also have "\<dots> = ''lxg'' # ''run'' # ''user'' # comps uid"
    by (subst comps_append; (subst comps_append)?; (subst comps_append)?; simp)
  also have "comps uid = [uid]" using uid by (intro comps_word) (auto simp: component_ok_def)
  finally show ?thesis by (simp add: shared_dir_def)
qed

lemma fs_ok_prefixes:
  assumes "fs_ok f" and "lookup f d = Some Dir" and "prefix e d"
  shows "lookup f e = Some Dir"
  using assms plain_prefix by (auto simp: prefix_def)

lemma layout_dirs:
  assumes "container_layout uid f" and "component_ok uid"
  shows "dir_ok (run_dir uid) (run_dir uid) f" and "dir_ok (lxg_path uid) (shared_dir uid) f"
proof -
  have ok: "fs_ok f" and r: "lookup f (run_dir uid) = Some Dir" and s: "lookup f (shared_dir uid) = Some Dir"
    and l: "lookup f (lxg_path uid) = Some (Symlink (''/lxg/run/user/'' @ uid))"
    using assms(1) by (simp_all add: container_layout_def)
  have dots: "uid \<noteq> ''..''" using assms(2) by (simp add: component_ok_def)
  show "dir_ok (run_dir uid) (run_dir uid) f"
    using plain_dir [OF ok r] dots by (auto simp: run_dir_def)
  have "lookup f [''run''] = Some Dir" "lookup f [''run'', ''user''] = Some Dir"
    "lookup f [''lxg''] = Some Dir" "lookup f [''lxg'', ''run''] = Some Dir" "lookup f [''lxg'', ''run'', ''user''] = Some Dir"
    using fs_ok_prefixes [OF ok r] fs_ok_prefixes [OF ok s] by (simp_all add: run_dir_def shared_dir_def)
  moreover have "is_abs (''/lxg/run/user/'' @ uid)" by (simp add: is_abs_def HasPrefix_def)
  ultimately show "dir_ok (lxg_path uid) (shared_dir uid) f"
    using ok s r l dots comps_shared [OF assms(2)]
    by (simp add: dir_ok_def above_def lxg_path_def run_dir_def shared_dir_def numeral_eq_Suc del: split_on.simps)
qed

lemma comps_lxg: "component_ok uid \<Longrightarrow> comps (run_user uid ''lxg'') = run_dir uid @ [''lxg'']"
  by (simp add: comps_run_user run_dir_def) (simp add: comps_def)

lemma lxg_path_alt: "lxg_path uid = run_dir uid @ [''lxg'']"
  by (simp add: lxg_path_def run_dir_def)

text \<open>\<open>SymLinkRun\<close> replaces one entry of the runtime directory.\<close>

lemma SymLinkRun_replaces:
  assumes "component_ok (UID ctx)" and "dir_ok (run_dir (UID ctx)) (run_dir (UID ctx)) f"
    and "SymLinkRun f ctx = (f', None)"
  shows "fs_ok f'" and "lookup f' = (lookup f)(lxg_path (UID ctx) \<mapsto> Symlink (''/lxg/run/user/'' @ UID ctx))"
proof -
  let ?r = "run_dir (UID ctx)" and ?t = "''/lxg/run/user/'' @ UID ctx"
  obtain f1 err where rm: "remove_entry f (?r @ [''lxg'']) = (f1, err)" by force
  with assms(3) have "\<not> blocking err" and mk: "create_entry OpSymlink EEXIST (Symlink ?t) f1 (?r @ [''lxg'']) = (f', None)"
    by (auto simp: SymLinkRun_def comps_lxg [OF assms(1)] split: if_splits prod.splits option.splits)
  have lxg: "''lxg'' \<noteq> ''..''" by simp
  note rm' = remove_entry_done [OF assms(2) lxg rm]
  have f1: "lookup f1 = (lookup f)(lxg_path (UID ctx) := None)"
    using rm' \<open>\<not> blocking err\<close> by (cases err) (auto simp: not_blocking lxg_path_alt fun_upd_idem)
  then have "dir_ok ?r ?r f1" using dir_ok_change [OF assms(2) rm'(1)] by (simp add: lxg_path_alt)
  note mk' = create_entry_done [OF this lxg mk]
  show "fs_ok f'" by (rule mk'(1))
  show "lookup f' = (lookup f)(lxg_path (UID ctx) \<mapsto> Symlink ?t)" using mk'(2) f1 by (simp add: lxg_path_alt)
qed

lemma SymLinkRun_layout:
  assumes "component_ok (UID ctx)" and "fs_ok f" and "lookup f (run_dir (UID ctx)) = Some Dir"
    and "lookup f (shared_dir (UID ctx)) = Some Dir" and "SymLinkRun f ctx = (f', None)"
  shows "container_layout (UID ctx) f'"
proof -
  have "''..'' \<notin> set (run_dir (UID ctx))" using assms(1) by (auto simp: run_dir_def component_ok_def)
  from SymLinkRun_replaces [OF assms(1) plain_dir [OF assms(2,3) this] assms(5)] assms(3,4)
  show ?thesis by (simp add: container_layout_def lxg_path_def run_dir_def shared_dir_def)
qed

section \<open>The links\<close>

text \<open>The layout with the directories that hold the links.\<close>

definition env_layout :: "string \<Rightarrow> 'a fs_scheme \<Rightarrow> bool" where
  "env_layout uid f \<longleftrightarrow> container_layout uid f \<and> lookup f (run_dir uid @ [''pulse'']) = Some Dir \<and>
     lookup f [''tmp'', ''.X11-unix''] = Some Dir"

lemma link_list_comps:
  assumes "component_ok uid" and "(source, destination) \<in> set (link_list uid)"
  shows "\<exists>n d m. comps source = lxg_path uid @ [n] \<and> comps destination = d @ [m] \<and> n \<noteq> ''..'' \<and> m \<noteq> ''..'' \<and>
    d @ [m] \<notin> {run_dir uid, lxg_path uid, shared_dir uid, run_dir uid @ [''pulse''], [''tmp'', ''.X11-unix'']} \<and>
    hd (d @ [m]) \<noteq> ''lxg'' \<and> d \<in> {run_dir uid, run_dir uid @ [''pulse''], [''tmp'', ''.X11-unix'']}"
proof -
  let ?dirs = "{run_dir uid, run_dir uid @ [''pulse''], [''tmp'', ''.X11-unix'']}"
  have r: "comps (run_user uid s) = run_dir uid @ comps s" for s
    by (simp add: comps_run_user [OF assms(1)] run_dir_def)
  have l: "comps ''lxg/pulse-native'' = [''lxg'', ''pulse-native'']" "comps ''lxg/pipewire-0'' = [''lxg'', ''pipewire-0'']"
    "comps ''lxg/wayland-0'' = [''lxg'', ''wayland-0'']" "comps ''lxg/X11-X0'' = [''lxg'', ''X11-X0'']"
    "comps ''lxg/X11-X1'' = [''lxg'', ''X11-X1'']" "comps ''pulse/native'' = [''pulse'', ''native'']"
    "comps ''pipewire-0'' = [''pipewire-0'']" "comps ''wayland-0'' = [''wayland-0'']"
    "comps ''tmp/.X11-unix/X0'' = [''tmp'', ''.X11-unix'', ''X0'']" "comps ''tmp/.X11-unix/X1'' = [''tmp'', ''.X11-unix'', ''X1'']"
    by (simp_all add: comps_def)
  have intro: ?thesis if "comps source = lxg_path uid @ [n]" "comps destination = d @ [m]" "n \<noteq> ''..''" "m \<noteq> ''..''"
    "d @ [m] \<notin> {run_dir uid, lxg_path uid, shared_dir uid, run_dir uid @ [''pulse''], [''tmp'', ''.X11-unix'']}"
    "hd (d @ [m]) \<noteq> ''lxg''" "d \<in> ?dirs" for n d m
    using that by blast
  from assms(2) consider
      "source = run_user uid ''lxg/pulse-native'' \<and> destination = run_user uid ''pulse/native''"
    | "source = run_user uid ''lxg/pipewire-0'' \<and> destination = run_user uid ''pipewire-0''"
    | "source = run_user uid ''lxg/wayland-0'' \<and> destination = run_user uid ''wayland-0''"
    | "source = run_user uid ''lxg/X11-X0'' \<and> destination = ''/tmp/.X11-unix/X0''"
    | "source = run_user uid ''lxg/X11-X1'' \<and> destination = ''/tmp/.X11-unix/X1''"
    by (simp only: link_list_def list.set insert_iff empty_iff prod.inject) blast
  then show ?thesis
  proof cases
    case 1
    then show ?thesis
      by (intro intro [of "''pulse-native''" "run_dir uid @ [''pulse'']" "''native''"])
        (simp_all add: r l lxg_path_alt, simp_all add: run_dir_def shared_dir_def lxg_path_def)
  next
    case 2
    then show ?thesis
      by (intro intro [of "''pipewire-0''" "run_dir uid" "''pipewire-0''"])
        (simp_all add: r l lxg_path_alt, simp_all add: run_dir_def shared_dir_def lxg_path_def)
  next
    case 3
    then show ?thesis
      by (intro intro [of "''wayland-0''" "run_dir uid" "''wayland-0''"])
        (simp_all add: r l lxg_path_alt, simp_all add: run_dir_def shared_dir_def lxg_path_def)
  next
    case 4
    then show ?thesis
      by (intro intro [of "''X11-X0''" "[''tmp'', ''.X11-unix'']" "''X0''"])
        (simp_all add: r l lxg_path_alt, simp_all add: run_dir_def shared_dir_def lxg_path_def)
  next
    case 5
    then show ?thesis
      by (intro intro [of "''X11-X1''" "[''tmp'', ''.X11-unix'']" "''X1''"])
        (simp_all add: r l lxg_path_alt, simp_all add: run_dir_def shared_dir_def lxg_path_def)
  qed
qed

text \<open>The node a source stands for.\<close>

definition shared_node :: "string \<Rightarrow> 'a fs_scheme \<Rightarrow> string \<Rightarrow> node option" where
  "shared_node uid f source = lookup f (shared_dir uid @ [last (comps source)])"

definition is_file :: "node option \<Rightarrow> bool" where
  "is_file n \<longleftrightarrow> (case n of Some Sock \<Rightarrow> True | Some (Reg _) \<Rightarrow> True | _ \<Rightarrow> False)"

lemma env_dirs:
  assumes "env_layout uid f" and "component_ok uid" and "d \<in> {run_dir uid, run_dir uid @ [''pulse''], [''tmp'', ''.X11-unix'']}"
  shows "dir_ok d d f"
proof -
  have "fs_ok f" "lookup f d = Some Dir" using assms(1,3) by (auto simp: env_layout_def container_layout_def)
  moreover have "''..'' \<notin> set d" using assms(2,3) by (auto simp: run_dir_def component_ok_def)
  ultimately show ?thesis by (rule plain_dir)
qed

lemma env_layout_change:
  assumes "env_layout uid f" and "fs_ok f'" and "\<And>q. q \<noteq> p \<Longrightarrow> lookup f' q = lookup f q"
    and "p \<notin> {run_dir uid, lxg_path uid, shared_dir uid, run_dir uid @ [''pulse''], [''tmp'', ''.X11-unix'']}"
  shows "env_layout uid f'"
proof -
  have "lookup f' q = lookup f q"
    if "q \<in> {run_dir uid, lxg_path uid, shared_dir uid, run_dir uid @ [''pulse''], [''tmp'', ''.X11-unix'']}" for q
    using that assms(4) by (intro assms(3)) blast
  with assms(1,2) show ?thesis by (simp add: env_layout_def container_layout_def)
qed

lemma removeExisting_entry:
  assumes "dir_ok d d f" and "comps path = d @ [m]" and "m \<noteq> ''..''" and "removeExisting f path = (f', err)"
  shows "dir_ok d d f'" and "q \<noteq> d @ [m] \<Longrightarrow> lookup f' q = lookup f q"
proof -
  obtain f1 e1 where rm: "remove_entry f (d @ [m]) = (f1, e1)" by force
  have "f' = f \<or> f' = f1" using assms(2,4) rm
    by (auto simp: removeExisting_def split: sum.splits if_splits)
  moreover have "dir_ok d d f1 \<and> (\<forall>q. q \<noteq> d @ [m] \<longrightarrow> lookup f1 q = lookup f q)"
    using remove_entry_done [OF assms(1,3) rm] dir_ok_change [OF assms(1)] assms(1)
    by (cases e1) auto
  ultimately show "dir_ok d d f'" "q \<noteq> d @ [m] \<Longrightarrow> lookup f' q = lookup f q" using assms(1) by auto
qed

lemma symlinkMatch_True:
  assumes "dir_ok d d f" and "comps destination = d @ [m]" and "m \<noteq> ''..''" and "symlinkMatch f source destination = Inr True"
  shows "lookup f (d @ [m]) = Some (Symlink source)"
  using assms(4) by (auto simp: symlinkMatch_def assms(2) lstat_entry [OF assms(1,3)] readlink_entry [OF assms(1,3)]
      split: sum.splits option.splits node.splits if_splits)

lemma link_one_links:
  assumes uid: "component_ok uid" and lay: "env_layout uid f" and p: "(source, destination) \<in> set (link_list uid)"
    and run: "link_one f source destination = (f', None)"
  shows "env_layout uid f' \<and> (\<forall>q. q \<noteq> comps destination \<longrightarrow> lookup f' q = lookup f q) \<and>
    (shared_node uid f source = None \<longrightarrow> f' = f) \<and>
    (is_file (shared_node uid f source) \<longrightarrow> lookup f' (comps destination) = Some (Symlink source))"
proof -
  obtain n d m where s: "comps source = lxg_path uid @ [n]" and t: "comps destination = d @ [m]"
    and nm: "n \<noteq> ''..''" "m \<noteq> ''..''"
    and far: "d @ [m] \<notin> {run_dir uid, lxg_path uid, shared_dir uid, run_dir uid @ [''pulse''], [''tmp'', ''.X11-unix'']}"
    and d: "d \<in> {run_dir uid, run_dir uid @ [''pulse''], [''tmp'', ''.X11-unix'']}"
    using link_list_comps [OF uid p] by blast
  have D: "dir_ok d d f" by (rule env_dirs [OF lay uid d])
  have S: "dir_ok (lxg_path uid) (shared_dir uid) f" using lay by (intro layout_dirs(2) uid) (simp add: env_layout_def)
  have node: "shared_node uid f source = lookup f (shared_dir uid @ [n])" by (simp add: shared_node_def s)
  note stat = stat_entry [OF S nm(1), folded s]
  show ?thesis
  proof (cases "Stat f source")
    case (Inl e)
    with run have "f' = f" "e = ENOENT" by (auto simp: link_one_def split: if_splits)
    moreover from this Inl stat have "\<not> is_file (shared_node uid f source)"
      by (auto simp: node is_file_def split: option.splits node.splits)
    ultimately show ?thesis using lay by simp
  next
    case (Inr i)
    then have present: "shared_node uid f source \<noteq> None"
      using stat by (cases "lookup f (shared_dir uid @ [n])") (auto simp: node split: option.splits)
    consider (same) "symlinkMatch f source destination = Inr True" "f' = f"
      | (link) f1 where "removeExisting f destination = (f1, None)"
          "create_entry OpSymlink EEXIST (Symlink source) f1 (d @ [m]) = (f', None)"
      using run Inr by (auto simp: link_one_def t split: sum.splits bool.splits prod.splits option.splits)
    then show ?thesis
    proof cases
      case same
      with symlinkMatch_True [OF D t nm(2)] lay present show ?thesis by (simp add: t)
    next
      case link
      note rm = removeExisting_entry [OF D t nm(2) link(1)]
      note mk = create_entry_done [OF rm(1) nm(2) link(2)]
      have q: "lookup f' q = lookup f q" if "q \<noteq> d @ [m]" for q using that rm(2) mk(2) by simp
      moreover have "env_layout uid f'" by (rule env_layout_change [OF lay mk(1) q far])
      ultimately show ?thesis using present mk(2) by (auto simp: t)
    qed
  qed
qed

lemma link_list_distinct:
  assumes "component_ok uid"
  shows "distinct (map (\<lambda>p. comps (snd p)) (link_list uid))"
proof -
  have r: "comps (run_user uid s) = run_dir uid @ comps s" for s
    by (simp add: comps_run_user [OF assms] run_dir_def)
  show ?thesis
    by (simp add: link_list_def r) (simp add: comps_def run_dir_def)
qed

lemma shared_node_change:
  assumes "component_ok uid" and "(source, destination) \<in> set (link_list uid)"
    and "\<And>q. q \<noteq> comps destination \<Longrightarrow> lookup f' q = lookup f q"
  shows "shared_node uid f' s = shared_node uid f s"
proof -
  obtain d m where "comps destination = d @ [m]" "hd (d @ [m]) \<noteq> ''lxg''"
    using link_list_comps [OF assms(1,2)] by blast
  then have "shared_dir uid @ [last (comps s)] \<noteq> comps destination"
    by (auto simp: shared_dir_def)
  from assms(3) [OF this] show ?thesis by (simp add: shared_node_def)
qed

text \<open>The whole loop, in any order of the list.\<close>

lemma link_loop_links:
  assumes uid: "component_ok uid"
  shows "env_layout uid f \<Longrightarrow> set ps \<subseteq> set (link_list uid) \<Longrightarrow> distinct (map (\<lambda>p. comps (snd p)) ps) \<Longrightarrow>
    link_loop f ps = (f', None) \<Longrightarrow>
    env_layout uid f' \<and> (\<forall>q. q \<notin> (\<lambda>p. comps (snd p)) ` set ps \<longrightarrow> lookup f' q = lookup f q) \<and>
    (\<forall>(s, t) \<in> set ps. (shared_node uid f s = None \<longrightarrow> lookup f' (comps t) = lookup f (comps t)) \<and>
      (is_file (shared_node uid f s) \<longrightarrow> lookup f' (comps t) = Some (Symlink s)))"
proof (induction ps arbitrary: f)
  case (Cons p ps)
  obtain s t where p: "p = (s, t)" by force
  obtain f1 where one: "link_one f s t = (f1, None)" and rest: "link_loop f1 ps = (f', None)"
    using Cons.prems(4) by (auto simp: p split: prod.splits option.splits)
  have mem: "(s, t) \<in> set (link_list uid)" using Cons.prems(2) by (simp add: p)
  note l1 = link_one_links [OF uid Cons.prems(1) mem one]
  have same: "shared_node uid f1 x = shared_node uid f x" for x
    using l1 by (intro shared_node_change [OF uid mem]) blast
  have new: "comps t \<notin> (\<lambda>p. comps (snd p)) ` set ps" using Cons.prems(3) by (auto simp: p)
  have "env_layout uid f1" "set ps \<subseteq> set (link_list uid)" "distinct (map (\<lambda>p. comps (snd p)) ps)"
    using l1 Cons.prems by auto
  note l2 = Cons.IH [OF this rest]
  have head: "lookup f' (comps t) = lookup f1 (comps t)" using l2 new by blast
  have tail: "lookup f1 (comps b) = lookup f (comps b)" if "(a, b) \<in> set ps" for a b
    using l1 new that by (metis image_eqI snd_conv)
  have pair: "(shared_node uid f a = None \<longrightarrow> lookup f' (comps b) = lookup f (comps b)) \<and>
      (is_file (shared_node uid f a) \<longrightarrow> lookup f' (comps b) = Some (Symlink a))" if "(a, b) \<in> set (p # ps)" for a b
  proof (cases "(a, b) = p")
    case True
    with l1 head show ?thesis by (auto simp: p)
  next
    case False
    with that have ab: "(a, b) \<in> set ps" by simp
    from l2 ab have "(shared_node uid f1 a = None \<longrightarrow> lookup f' (comps b) = lookup f1 (comps b)) \<and>
      (is_file (shared_node uid f1 a) \<longrightarrow> lookup f' (comps b) = Some (Symlink a))" by fastforce
    with tail [OF ab] show ?thesis by (simp add: same)
  qed
  have "lookup f' q = lookup f q" if "q \<notin> (\<lambda>p. comps (snd p)) ` set (p # ps)" for q
    using that l1 l2 by (simp add: p)
  with pair l2 show ?case by blast
qed simp

text \<open>
  A dangling link in the place of a destination is not removed, since \<open>removeExisting\<close> asks
  \<open>Stat\<close>, which follows it; creating the link then fails.
\<close>

lemma dangling_link_blocks:
  assumes uid: "component_ok uid" and lay: "env_layout uid f" and p: "(source, destination) \<in> set (link_list uid)"
    and src: "Stat f source = Inr i"
    and dst: "lookup f (comps destination) = Some (Symlink old)" "old \<noteq> source" "Stat f destination = Inl ENOENT"
    and quiet: "\<And>op. faults f op (comps destination) = None"
  shows "link_loop f ((source, destination) # rest) = (f, Some EEXIST)"
proof -
  obtain d m where t: "comps destination = d @ [m]" and m: "m \<noteq> ''..''"
    and d: "d \<in> {run_dir uid, run_dir uid @ [''pulse''], [''tmp'', ''.X11-unix'']}"
    using link_list_comps [OF uid p] by blast
  have D: "dir_ok d d f" by (rule env_dirs [OF lay uid d])
  note q = quiet [unfolded t]
  note e = dst(1) [unfolded t]
  have "symlinkMatch f source destination = Inr False"
    using dst(2) by (simp add: symlinkMatch_def t lstat_entry [OF D m] readlink_entry [OF D m] q e)
  moreover have "removeExisting f destination = (f, None)" using dst(3) by (simp add: removeExisting_def)
  moreover have "create_entry OpSymlink EEXIST (Symlink source) f (comps destination) = (f, Some EEXIST)"
    by (simp add: create_entry_def t dir_ok_resolve [OF D m] q e)
  ultimately show ?thesis using src by (simp add: link_one_def)
qed

section \<open>The variables\<close>

definition exists_at :: "'a fs_scheme \<Rightarrow> string \<Rightarrow> bool" where
  "exists_at f s \<longleftrightarrow> \<not> isl (Stat f s)"

definition maybe :: "'k \<Rightarrow> 'v option \<Rightarrow> ('k \<Rightarrow> 'v option) \<Rightarrow> 'k \<Rightarrow> 'v option" where
  "maybe k v m = (case v of None \<Rightarrow> m | Some x \<Rightarrow> m(k \<mapsto> x))"

lemma map_of_update_maybe:
  "map_of (AList.update k v al) = maybe k (Some v) (map_of al)" "maybe k None m = m"
  by (simp_all add: maybe_def update_conv')

lemma set_if_exists_Inr:
  assumes "set_if_exists f path k v vars = Inr vars'"
  shows "map_of vars' = maybe k (if exists_at f path then Some v else None) (map_of vars)"
    and "distinct (map fst vars) \<Longrightarrow> distinct (map fst vars')"
  using assms
  by (auto simp: set_if_exists_def exists_at_def map_of_update_maybe distinct_update split: sum.splits if_splits)

text \<open>The bus address is that of the first socket that exists.\<close>

lemma dbus_loop_first:
  assumes "dbus_loop f ps vars = Inr vars'"
  shows "map_of vars' = maybe ''DBUS_SESSION_BUS_ADDRESS'' (map_option (\<lambda>p. ''unix:path='' @ p) (find (exists_at f) ps))
      (map_of vars)"
    and "distinct (map fst vars) \<Longrightarrow> distinct (map fst vars')"
  using assms
  by (induction ps) (auto simp: exists_at_def map_of_update_maybe distinct_update split: sum.splits if_splits)

definition session_variables :: "'a fs_scheme \<Rightarrow> string \<Rightarrow> string \<Rightarrow> string option" where
  "session_variables f uid =
     (maybe ''DBUS_SESSION_BUS_ADDRESS'' (map_option (\<lambda>p. ''unix:path='' @ p)
        (find (exists_at f) [run_user uid ''lxg/router'', run_user uid ''lxg/bus'', run_user uid ''bus'']))
      (maybe ''PULSE_SERVER'' (if exists_at f (run_user uid ''pulse/native'')
         then Some (''unix:'' @ run_user uid ''pulse/native'') else None)
      (maybe ''XAUTHORITY'' (if exists_at f (run_user uid ''lxg/X11-Xauth'')
         then Some (run_user uid ''lxg/X11-Xauth'') else None)
      [''WAYLAND_DISPLAY'' \<mapsto> ''wayland-0'', ''DISPLAY'' \<mapsto> '':0''])))
     (''XDG_SESSION_TYPE'' \<mapsto> ''wayland'', ''XDG_RUNTIME_DIR'' \<mapsto> run_user uid [],
      ''XDG_CURRENT_DESKTOP'' \<mapsto> ''GNOME'', ''XDG_MENU_PREFIX'' \<mapsto> ''gnome-'')"

lemma env_variables_map:
  assumes "env_variables f uid = Inr vars"
  shows "map_of vars = session_variables f uid" and "distinct (map fst vars)"
proof -
  obtain v1 v2 v3 where 1: "set_if_exists f (run_user uid ''lxg/X11-Xauth'') ''XAUTHORITY'' (run_user uid ''lxg/X11-Xauth'')
        [(''DISPLAY'', '':0''), (''WAYLAND_DISPLAY'', ''wayland-0'')] = Inr v1"
    and 2: "set_if_exists f (run_user uid ''pulse/native'') ''PULSE_SERVER'' (''unix:'' @ run_user uid ''pulse/native'') v1 = Inr v2"
    and 3: "dbus_loop f [run_user uid ''lxg/router'', run_user uid ''lxg/bus'', run_user uid ''bus''] v2 = Inr v3"
    and v: "vars = AList.update ''XDG_MENU_PREFIX'' ''gnome-'' (AList.update ''XDG_CURRENT_DESKTOP'' ''GNOME''
        (AList.update ''XDG_RUNTIME_DIR'' (run_user uid []) (AList.update ''XDG_SESSION_TYPE'' ''wayland'' v3)))"
    using assms unfolding env_variables_def by (force split: sum.splits)
  have "distinct (map fst [(''DISPLAY'', '':0''), (''WAYLAND_DISPLAY'', ''wayland-0'')])" by simp
  from dbus_loop_first(2) [OF 3 set_if_exists_Inr(2) [OF 2 set_if_exists_Inr(2) [OF 1 this]]]
  show "distinct (map fst vars)" unfolding v by (intro distinct_update)
  have base: "map_of [(''DISPLAY'', '':0''), (''WAYLAND_DISPLAY'', ''wayland-0'')] =
      [''WAYLAND_DISPLAY'' \<mapsto> ''wayland-0'', ''DISPLAY'' \<mapsto> '':0'']" by (rule ext) simp
  show "map_of vars = session_variables f uid"
    by (simp only: v update_conv' dbus_loop_first(1) [OF 3] set_if_exists_Inr(1) [OF 2] set_if_exists_Inr(1) [OF 1]
        base session_variables_def)
qed

section \<open>InitEnvironment\<close>

text \<open>What the function needs: the layout, and no files where its two directories go.\<close>

definition env_ready :: "string \<Rightarrow> 'a fs_scheme \<Rightarrow> bool" where
  "env_ready uid f \<longleftrightarrow> container_layout uid f \<and> lookup f [''tmp''] = Some Dir \<and>
     lookup f (run_dir uid @ [''pulse'']) \<in> {None, Some Dir} \<and> lookup f [''tmp'', ''.X11-unix''] \<in> {None, Some Dir}"

lemma InitEnvironment_dirs:
  assumes uid: "component_ok uid" and ready: "env_ready uid f"
    and 1: "MkdirAll f (run_user uid ''pulse'') = (f1, None)" and 2: "MkdirAll f1 ''/tmp/.X11-unix'' = (f2, None)"
  shows "env_layout uid f2"
    and "lookup f2 = (lookup f)(run_dir uid @ [''pulse''] \<mapsto> Dir, [''tmp'', ''.X11-unix''] \<mapsto> Dir)"
proof -
  have c1: "comps (run_user uid ''pulse'') = run_dir uid @ [''pulse'']"
    by (simp add: comps_run_user [OF uid] run_dir_def) (simp add: comps_def)
  have c2: "comps ''/tmp/.X11-unix'' = [''tmp''] @ [''.X11-unix'']" by (simp add: comps_def)
  have lay: "container_layout uid f" using ready by (simp add: env_ready_def)
  then have ok: "fs_ok f" and r: "lookup f (run_dir uid) = Some Dir" by (simp_all add: container_layout_def)
  have dots: "''..'' \<notin> set (run_dir uid @ [''pulse''])" using uid by (auto simp: run_dir_def component_ok_def)
  have free: "lookup f (run_dir uid @ [''pulse'']) \<in> {None, Some Dir}" using ready by (simp add: env_ready_def)
  note m1 = mkdir_all_last [OF ok r dots free 1 [unfolded c1]]
  have t: "lookup f1 [''tmp''] = Some Dir" "lookup f1 ([''tmp''] @ [''.X11-unix'']) \<in> {None, Some Dir}"
    using ready m1 by (simp_all add: env_ready_def run_dir_def)
  have "''..'' \<notin> set ([''tmp''] @ [''.X11-unix''])" by simp
  note m2 = mkdir_all_last [OF conjunct1 [OF m1] t(1) this t(2) 2 [unfolded c2]]
  show l: "lookup f2 = (lookup f)(run_dir uid @ [''pulse''] \<mapsto> Dir, [''tmp'', ''.X11-unix''] \<mapsto> Dir)"
    using m1 m2 by simp
  show "env_layout uid f2"
    using lay by (simp add: env_layout_def container_layout_def l conjunct1 [OF m2])
      (simp add: run_dir_def lxg_path_def shared_dir_def)
qed

lemma InitEnvironment_result:
  assumes uid: "1000 \<le> uid" and ready: "env_ready (show_nat uid) f"
    and order: "\<And>xs. mset (range_order xs) = mset xs"
    and run: "InitEnvironment range_order uid f = (f', Inr lines)"
  shows "env_layout (show_nat uid) f'"
    and "(s, t) \<in> set (link_list (show_nat uid)) \<Longrightarrow>
      (shared_node (show_nat uid) f s = None \<longrightarrow> lookup f' (comps t) = lookup f (comps t)) \<and>
      (is_file (shared_node (show_nat uid) f s) \<longrightarrow> lookup f' (comps t) = Some (Symlink s))"
    and "\<exists>vars. mset lines = mset (map export_line vars) \<and> distinct (map fst vars) \<and>
      map_of vars = session_variables f' (show_nat uid)"
proof -
  let ?u = "show_nat uid"
  obtain f1 f2 vars where 1: "MkdirAll f (run_user ?u ''pulse'') = (f1, None)" and 2: "MkdirAll f1 ''/tmp/.X11-unix'' = (f2, None)"
    and 3: "link_loop f2 (range_order (link_list ?u)) = (f', None)" and 4: "env_variables f' ?u = Inr vars"
    and 5: "lines = map export_line (range_order vars)"
    using run uid by (auto simp: InitEnvironment_def Let_def split: prod.splits option.splits sum.splits)
  note dirs = InitEnvironment_dirs [OF component_show_nat ready 1 2]
  have set_eq: "set (range_order (link_list ?u)) = set (link_list ?u)"
    using order by (metis mset_eq_setD)
  have "mset (map (\<lambda>p. comps (snd p)) (range_order (link_list ?u))) = mset (map (\<lambda>p. comps (snd p)) (link_list ?u))"
    using order by simp
  then have dist: "distinct (map (\<lambda>p. comps (snd p)) (range_order (link_list ?u)))"
    using link_list_distinct [of ?u] by (metis component_show_nat mset_eq_imp_distinct_iff)
  note loop = link_loop_links [OF component_show_nat dirs(1) _ dist 3, unfolded set_eq, OF order_refl]
  show "env_layout ?u f'" using loop by blast
  show "(shared_node ?u f s = None \<longrightarrow> lookup f' (comps t) = lookup f (comps t)) \<and>
      (is_file (shared_node ?u f s) \<longrightarrow> lookup f' (comps t) = Some (Symlink s))" if "(s, t) \<in> set (link_list ?u)"
  proof -
    have "comps t \<noteq> run_dir ?u @ [''pulse'']" "comps t \<noteq> [''tmp'', ''.X11-unix'']"
      using link_list_comps [OF component_show_nat that] by auto
    then have "lookup f2 (comps t) = lookup f (comps t)" by (simp add: dirs(2))
    moreover have "shared_node ?u f2 s = shared_node ?u f s"
      by (simp add: shared_node_def dirs(2)) (simp add: shared_dir_def run_dir_def)
    ultimately show ?thesis using loop that by fastforce
  qed
  show "\<exists>vars. mset lines = mset (map export_line vars) \<and> distinct (map fst vars) \<and> map_of vars = session_variables f' ?u"
    using env_variables_map [OF 4] order by (intro exI [of _ vars]) (simp add: 5)
qed

end
