(* ===== verification/Command_Exec.thy ===== *)
theory Command_Exec
  imports Command_Context
begin

text \<open>
  Running commands: \<open>command/command.go\<close> (\<open>Result\<close>, \<open>Execute\<close>) and the parts of \<open>os/exec\<close>
  the program uses. The programs themselves (\<open>lxc\<close>, \<open>systemctl\<close>, the user's command) are not
  part of the source: a \<open>runner\<close> is a parameter that says, in a world of its own type, how each
  process ends and what the world is then. A \<open>host\<close> is that world with the log of the processes
  that were run, in order.

  A process is its program and arguments with its standard input (\<open>None\<close> when it inherits the
  caller's). A Go error is its text.
\<close>

section \<open>Processes\<close>

record process =
  prog :: string
  pargs :: "string list"
  pstdin :: "string option"

text \<open>
  How \<open>Wait\<close> ends: the process exited by itself (code 0), it failed with an \<open>ExitError\<close> (its
  code, \<open>-1\<close> if a signal killed it, and the text of the error), or waiting failed otherwise.
\<close>

datatype wait_end = ExitedOk | Failed int string | WaitFails string

datatype outcome = StartFails string | Ran int string string wait_end

type_synonym 'w runner = "'w \<Rightarrow> process \<Rightarrow> 'w \<times> outcome"

record 'w host =
  runs :: "process list"
  world :: 'w

section \<open>Execute\<close>

record Result =
  PID :: int
  ExitCode :: int
  Error :: string
  Output :: string

definition execute_result :: "outcome \<Rightarrow> Result \<times> string option" where
  "execute_result oc =
     (case oc of
        StartFails err \<Rightarrow> (\<lparr>PID = 0, ExitCode = - 1, Error = [], Output = []\<rparr>, Some err)
      | Ran pid stdout stderr w \<Rightarrow>
          let result = \<lparr>PID = pid, ExitCode = 0, Error = stderr, Output = stdout\<rparr>
          in (case w of
                WaitFails err \<Rightarrow> (result\<lparr>ExitCode := - 1\<rparr>, Some err)
              | _ \<Rightarrow>
                  let result = (case w of Failed code _ \<Rightarrow> result\<lparr>ExitCode := code\<rparr> | _ \<Rightarrow> result);
                      result = (if Error result = [] \<and> 1 \<le> ExitCode result
                        then result\<lparr>Error := Output result\<rparr> else result)
                  in (result, None)))"

definition run_process :: "'w runner \<Rightarrow> 'w host \<Rightarrow> process \<Rightarrow> 'w host \<times> outcome" where
  "run_process run h p =
     (let (w, oc) = run (world h) p in (\<lparr>runs = runs h @ [p], world = w\<rparr>, oc))"

definition Execute :: "'w runner \<Rightarrow> 'w host \<Rightarrow> process \<Rightarrow> 'w host \<times> Result \<times> string option" where
  "Execute run h p = (let (h, oc) = run_process run h p in (h, execute_result oc))"

text \<open>\<open>cmd.Run\<close>, with the three standard streams inherited: only the error is of interest.\<close>

definition cmd_Run :: "'w runner \<Rightarrow> 'w host \<Rightarrow> process \<Rightarrow> 'w host \<times> string option" where
  "cmd_Run run h p =
     (let (h, oc) = run_process run h p
      in (h, case oc of StartFails err \<Rightarrow> Some err
           | Ran _ _ _ ExitedOk \<Rightarrow> None
           | Ran _ _ _ (Failed _ err) \<Rightarrow> Some err
           | Ran _ _ _ (WaitFails err) \<Rightarrow> Some err))"

section \<open>What a result says\<close>

lemma runs_run_process [simp]: "runs (fst (run_process run h p)) = runs h @ [p]"
  by (simp add: run_process_def split: prod.splits)

lemma Execute_cases:
  assumes "Execute run h p = (h', r, err)"
  obtains w oc where "run (world h) p = (w, oc)" and "h' = \<lparr>runs = runs h @ [p], world = w\<rparr>"
    and "execute_result oc = (r, err)"
  using assms by (auto simp: Execute_def run_process_def split: prod.splits)

lemma Execute_runs: "Execute run h p = (h', r, err) \<Longrightarrow> runs h' = runs h @ [p]"
  by (erule Execute_cases) simp

lemma cmd_Run_runs: "cmd_Run run h p = (h', err) \<Longrightarrow> runs h' = runs h @ [p]"
  by (auto simp: cmd_Run_def run_process_def split: prod.splits)

text \<open>An error means that the process did not start or could not be waited for.\<close>

lemma execute_result_error:
  "execute_result oc = (r, Some e) \<Longrightarrow> ExitCode r = - 1 \<and>
     (oc = StartFails e \<or> (\<exists>pid out err. oc = Ran pid out err (WaitFails e)))"
  by (auto simp: execute_result_def Let_def split: outcome.splits wait_end.splits)

text \<open>A positive code means failure, and then there is an error text whenever there is any output.\<close>

lemma execute_result_simps [simp]:
  "execute_result (StartFails e) = (\<lparr>PID = 0, ExitCode = - 1, Error = [], Output = []\<rparr>, Some e)"
  "execute_result (Ran pid out err ExitedOk) = (\<lparr>PID = pid, ExitCode = 0, Error = err, Output = out\<rparr>, None)"
  "execute_result (Ran pid out err (Failed c t)) =
     (\<lparr>PID = pid, ExitCode = c, Error = (if err = [] \<and> 1 \<le> c then out else err), Output = out\<rparr>, None)"
  "execute_result (Ran pid out err (WaitFails e)) =
     (\<lparr>PID = pid, ExitCode = - 1, Error = err, Output = out\<rparr>, Some e)"
  by (simp_all add: execute_result_def Let_def)

text \<open>How a process ended, as the callers of \<open>Execute\<close> see it.\<close>

lemma execute_result_ok:
  assumes "execute_result oc = (r, None)"
  obtains out err w where "oc = Ran (PID r) out err w" and "Output r = out"
    and "w = ExitedOk \<and> ExitCode r = 0 \<and> Error r = err \<or>
      (\<exists>t. w = Failed (ExitCode r) t) \<and> Error r = (if err = [] \<and> 1 \<le> ExitCode r then out else err)"
proof (cases oc)
  case (Ran pid out err w)
  with assms that show ?thesis by (cases w) auto
qed (use assms in simp)

end
