(* ===== verification/Container_Daemon.thy ===== *)
theory Container_Daemon
  imports Container_Env Command_Exec Dbus_Session
begin

text \<open>
  The router as a daemon: \<open>container/dbus/daemon.go\<close> and \<open>Router.Start\<close> of
  \<open>container/dbus/router.go\<close>, with \<open>Init\<close> of \<open>container/init.go\<close>, which composes them with the
  environment.

  The state is the file system with the processes that may be signalled (\<open>pids\<close>) and those
  \<open>EnsureRouter\<close> has started. What happens while it waits is a list of polls: how the rest of the
  system has changed the state when the poll is made, and whether the started process has been
  seen to exit by then. The list ends at the deadline.
\<close>

record sys = fs +
  pids :: "int list"
  started :: "process list"

section \<open>daemon.go\<close>

definition routerPaths :: "string \<Rightarrow> string \<times> string" where
  "routerPaths uid = (let socket = run_user uid ''lxg/router'' in (socket, socket @ ''.pid''))"

definition pidAlive :: "'a sys_scheme \<Rightarrow> int \<Rightarrow> bool" where
  "pidAlive s pid \<longleftrightarrow> pid \<in> set (pids s)"

definition readPidFile :: "'a fs_scheme \<Rightarrow> string \<Rightarrow> string + int" where
  "readPidFile s path =
     (case ReadFile s path of
        Inl e \<Rightarrow> Inl (errno_text e)
      | Inr data \<Rightarrow>
          (case Atoi (TrimSpace data) of
             None \<Rightarrow> Inl ''invalid pid file''
           | Some pid \<Rightarrow> if pid \<le> 0 then Inl ''invalid pid file'' else Inr pid))"

definition routerRunning :: "'a sys_scheme \<Rightarrow> string \<Rightarrow> string \<Rightarrow> bool" where
  "routerRunning s socket pidFile \<longleftrightarrow>
     (case readPidFile s pidFile of
        Inl _ \<Rightarrow> False
      | Inr pid \<Rightarrow> pidAlive s pid \<and> \<not> isl (Stat s socket))"

type_synonym 'a poll = "('a sys_scheme \<Rightarrow> 'a sys_scheme) \<times> string option option"

fun poll_loop :: "string \<Rightarrow> string \<Rightarrow> 'a poll list \<Rightarrow> 'a sys_scheme \<Rightarrow> 'a sys_scheme \<times> string option" where
  "poll_loop socket pidFile [] s = (s, Some ''dbus router did not become ready'')"
| "poll_loop socket pidFile ((evolve, exited) # polls) s =
     (let s = evolve s
      in case exited of
           Some (Some err) \<Rightarrow> (s, Some (''dbus router exited: '' @ err))
         | Some None \<Rightarrow> (s, Some ''dbus router exited before becoming ready'')
         | None \<Rightarrow> if routerRunning s socket pidFile then (s, None) else poll_loop socket pidFile polls s)"

text \<open>
  \<open>exe\<close> is the result of \<open>os.Executable\<close>, \<open>start\<close> the error, if any, of starting a process.
\<close>

definition EnsureRouter ::
  "string option \<Rightarrow> (process \<Rightarrow> string option) \<Rightarrow> 'a poll list \<Rightarrow> 'a sys_scheme \<Rightarrow> Context
     \<Rightarrow> 'a sys_scheme \<times> string option" where
  "EnsureRouter exe start polls s ctx =
     (case Stat s (run_user (UID ctx) ''lxg/bus'') of
        Inl e \<Rightarrow> if e \<noteq> ENOENT then (s, Some (''start dbus socket error: '' @ errno_text e)) else (s, None)
      | Inr _ \<Rightarrow>
          let (routerSocket, pidFile) = routerPaths (UID ctx)
          in if routerRunning s routerSocket pidFile then (s, None)
             else case Remove s routerSocket of
               (s, err) \<Rightarrow>
                 if blocking err then (s, Some (''remove dbus socket error: '' @ errno_text (the err)))
                 else let s = fst (Remove s pidFile);
                          binaryPath = (case exe of Some p \<Rightarrow> p | None \<Rightarrow> ''/usr/local/bin/lxg'');
                          cmd = \<lparr>prog = binaryPath, pargs = [''container'', ''router''], pstdin = None\<rparr>
                      in case start cmd of
                           Some e \<Rightarrow> (s, Some (''start dbus router error: '' @ e))
                         | None \<Rightarrow> poll_loop routerSocket pidFile polls (s\<lparr>started := started s @ [cmd]\<rparr>))"

section \<open>router.go: Start\<close>

text \<open>The deferred calls: the pid file, the socket, and closing the listener, which unlinks it too.\<close>

definition stop_listening :: "'a fs_scheme \<Rightarrow> router \<Rightarrow> 'a fs_scheme" where
  "stop_listening f r = fst (Remove (fst (Remove f (RouterSocket r))) (RouterSocket r))"

definition Router_cleanup :: "'a fs_scheme \<Rightarrow> router \<Rightarrow> 'a fs_scheme" where
  "Router_cleanup f r = stop_listening (fst (Remove f (PidFile r))) r"

definition Router_prepare :: "nat \<Rightarrow> 'a fs_scheme \<Rightarrow> router \<Rightarrow> 'a fs_scheme \<times> string option" where
  "Router_prepare pid f r =
     (case Remove f (RouterSocket r) of
        (f, err) \<Rightarrow>
          if blocking err then (f, Some (''remove old router socket error: '' @ errno_text (the err)))
          else case MkdirAll f (filepath_Dir (RouterSocket r)) of
            (f, Some e) \<Rightarrow> (f, Some (''create router directory error: '' @ errno_text e))
          | (f, None) \<Rightarrow>
              (case Listen f (RouterSocket r) of
                 (f, Some e) \<Rightarrow> (f, Some (''listen router socket error: '' @ errno_text e))
               | (f, None) \<Rightarrow>
                   (case WriteFile f (PidFile r) (show_nat pid @ [CHR 0x0A]) of
                      (f, Some e) \<Rightarrow> (stop_listening f r, Some (''write router pid file error: '' @ errno_text e))
                    | (f, None) \<Rightarrow>
                        (case Chmod f (RouterSocket r) 384 of
                           (f, Some e) \<Rightarrow> (Router_cleanup f r, Some (''chmod router socket error: '' @ errno_text e))
                         | (f, None) \<Rightarrow> (f, None)))))"

text \<open>
  The accept loop over the results of \<open>Accept\<close>: a connection, a connection that is not a unix
  socket, or an error, which ends the loop when the listener is closed.
\<close>

datatype 'c accept = Conn 'c | NotUnix | AcceptFailed bool

fun accept_loop :: "'c accept list \<Rightarrow> 'c list \<times> bool" where
  "accept_loop [] = ([], False)"
| "accept_loop (a # rest) =
     (case a of
        AcceptFailed closed \<Rightarrow> if closed then ([], True) else accept_loop rest
      | NotUnix \<Rightarrow> accept_loop rest
      | Conn c \<Rightarrow> (let (handled, stopped) = accept_loop rest in (c # handled, stopped)))"

text \<open>
  \<open>Start\<close>: the clients handed to \<open>handleClient\<close>, and the result once it has returned (\<open>None\<close> while
  it is accepting).
\<close>

definition Router_Start ::
  "nat \<Rightarrow> 'a fs_scheme \<Rightarrow> router \<Rightarrow> 'c accept list \<Rightarrow> 'a fs_scheme \<times> 'c list \<times> string option option" where
  "Router_Start pid f r accepts =
     (case Router_prepare pid f r of
        (f, Some e) \<Rightarrow> (f, [], Some (Some e))
      | (f, None) \<Rightarrow>
          let (handled, stopped) = accept_loop accepts
          in if stopped then (Router_cleanup (fst (Remove f (RouterSocket r))) r, handled, Some None)
             else (f, handled, None))"

text \<open>\<open>StartRouter\<close> of \<open>daemon.go\<close>; the signals that cancel it end the results of \<open>Accept\<close>.\<close>

definition StartRouter ::
  "nat \<Rightarrow> 'a fs_scheme \<Rightarrow> Context \<Rightarrow> 'c accept list \<Rightarrow> 'a fs_scheme \<times> 'c list \<times> string option option" where
  "StartRouter pid f ctx accepts = Router_Start pid f (NewRouter ctx) accepts"

section \<open>container/init.go: Init\<close>

definition container_Init ::
  "((string \<times> string) list \<Rightarrow> (string \<times> string) list) \<Rightarrow> nat \<Rightarrow> string option \<Rightarrow> (process \<Rightarrow> string option)
     \<Rightarrow> 'a poll list \<Rightarrow> 'a sys_scheme \<Rightarrow> Context \<Rightarrow> 'a sys_scheme \<times> (string + string list)" where
  "container_Init range_order uid exe start polls s ctx =
     (case SymLinkRun s ctx of
        (s, Some err) \<Rightarrow> (s, Inl err)
      | (s, None) \<Rightarrow>
          (case EnsureRouter exe start polls s ctx of
             (s, Some err) \<Rightarrow> (s, Inl err)
           | (s, None) \<Rightarrow>
               (case InitEnvironment range_order uid s of
                  (s, Inl e) \<Rightarrow> (s, Inl (errno_text e))
                | (s, Inr lines) \<Rightarrow> (s, Inr lines))))"

section \<open>The files of the router\<close>

definition socket_file :: "string \<Rightarrow> path" where
  "socket_file uid = shared_dir uid @ [''router'']"

definition pid_file :: "string \<Rightarrow> path" where
  "pid_file uid = shared_dir uid @ [''router.pid'']"

lemma router_names:
  "RouterSocket (NewRouter ctx) = run_user (UID ctx) ''lxg/router''"
  "PidFile (NewRouter ctx) = run_user (UID ctx) ''lxg/router.pid''"
  "routerPaths uid = (run_user uid ''lxg/router'', run_user uid ''lxg/router.pid'')"
  by (simp_all add: NewRouter_def PidFile_def routerPaths_def run_user_def)

lemma router_comps:
  assumes "component_ok uid"
  shows "comps (run_user uid ''lxg/router'') = lxg_path uid @ [''router'']"
    and "comps (run_user uid ''lxg/router.pid'') = lxg_path uid @ [''router.pid'']"
    and "comps (run_user uid ''lxg/bus'') = lxg_path uid @ [''bus'']"
    and "comps (filepath_Dir (run_user uid ''lxg/router'')) = lxg_path uid"
proof -
  have d: "comps (filepath_Dir (run_user uid (''lxg'' @ ''/'' @ ''router''))) = ''run'' # ''user'' # uid # comps ''lxg''"
    by (rule Dir_run_user [OF assms]) (simp_all add: comps_def)
  show "comps (run_user uid ''lxg/router'') = lxg_path uid @ [''router'']"
    "comps (run_user uid ''lxg/router.pid'') = lxg_path uid @ [''router.pid'']"
    "comps (run_user uid ''lxg/bus'') = lxg_path uid @ [''bus'']"
    by (simp_all add: comps_run_user [OF assms] lxg_path_def) (simp_all add: comps_def)
  have "comps ''lxg'' = [''lxg'']" by (simp add: comps_def)
  with d show "comps (filepath_Dir (run_user uid ''lxg/router'')) = lxg_path uid"
    by (simp add: lxg_path_def)
qed

text \<open>What \<open>Router.Start\<close> leaves when it goes on to accept clients.\<close>

definition router_files :: "string \<Rightarrow> nat \<Rightarrow> 'a fs_scheme \<Rightarrow> bool" where
  "router_files uid pid f \<longleftrightarrow> lookup f (socket_file uid) = Some Sock \<and>
     lookup f (pid_file uid) = Some (Reg (show_nat pid @ [CHR 0x0A]))"

lemma Router_prepare_done:
  assumes uid: "component_ok (UID ctx)" and D: "dir_ok (lxg_path (UID ctx)) (shared_dir (UID ctx)) f"
    and nolink: "\<And>t. lookup f (pid_file (UID ctx)) \<noteq> Some (Symlink t)"
    and run: "Router_prepare pid f (NewRouter ctx) = (f', None)"
  shows "dir_ok (lxg_path (UID ctx)) (shared_dir (UID ctx)) f'" and "router_files (UID ctx) pid f'"
proof -
  let ?cs = "lxg_path (UID ctx)" and ?d = "shared_dir (UID ctx)" and ?t = "show_nat pid @ [CHR 0x0A]"
  note names = router_names(1,2) router_comps [OF uid]
  obtain f1 err where rm: "remove_entry f (?cs @ [''router'']) = (f1, err)" by force
  obtain f2 where md: "mkdir_all f1 (rev ?cs) = (f2, None)"
    and rest: "(case create_entry OpListen EADDRINUSE Sock f2 (?cs @ [''router'']) of
        (f, None) \<Rightarrow> (case write_at f (?cs @ [''router.pid'']) ?t of (f, None) \<Rightarrow>
          (case chmod_at f (?cs @ [''router'']) 384 of (f, None) \<Rightarrow> f = f' | _ \<Rightarrow> False) | _ \<Rightarrow> False) | _ \<Rightarrow> False)"
    using run rm by (auto simp: Router_prepare_def names split: prod.splits option.splits if_splits)
  obtain f3 f4 where li: "create_entry OpListen EADDRINUSE Sock f2 (?cs @ [''router'']) = (f3, None)"
    and wr: "write_at f3 (?cs @ [''router.pid'']) ?t = (f4, None)"
    and ch: "chmod_at f4 (?cs @ [''router'']) 384 = (f', None)"
    using rest by (auto split: prod.splits option.splits)
  have n: "''router'' \<noteq> ''..''" "''router.pid'' \<noteq> ''..''" by simp_all
  have D1: "dir_ok ?cs ?d f1" and e1: "lookup f1 (pid_file (UID ctx)) = lookup f (pid_file (UID ctx))"
    using dir.remove_elsewhere [OF D n(1) rm] by (auto simp: pid_file_def)
  have D2: "dir_ok ?cs ?d f2" by (rule mkdir_all_keeps_dir [OF md D1])
  have e2: "lookup f2 (pid_file (UID ctx)) = lookup f1 (pid_file (UID ctx)) \<or> lookup f2 (pid_file (UID ctx)) = Some Dir"
    using mkdir_all_adds [OF md] by blast
  note l = create_entry_done [OF D2 n(1) li]
  have D3: "dir_ok ?cs ?d f3" using dir_ok_change [OF D2 l(1)] l(2) by simp
  have "lookup f3 (?d @ [''router.pid'']) \<noteq> Some (Symlink t)" for t
    using l(2) e1 e2 nolink [of t] by (auto simp: pid_file_def)
  note w = write_entry [OF D3 n(2) this wr]
  have D4: "dir_ok ?cs ?d f4" using dir_ok_change [OF D3 w(1)] w(2) by simp
  have "lookup f' = lookup f4" "fs_ok f'"
    using ch chmod_kept [of f4] fs_ok_chmod [OF w(1)] by (metis fst_conv)+
  with D4 show "dir_ok ?cs ?d f'" by (simp add: dir_ok_def)
  show "router_files (UID ctx) pid f'"
    using \<open>lookup f' = lookup f4\<close> w(2) l(2) by (simp add: router_files_def socket_file_def pid_file_def)
qed

text \<open>The router is seen to run by its two files and its process.\<close>

lemma routerRunning_files:
  assumes "component_ok uid" and "dir_ok (lxg_path uid) (shared_dir uid) s" and "router_files uid pid s"
    and "0 < pid" and "int pid < 2 ^ 63" and "int pid \<in> set (pids s)" and "quiet s"
  shows "routerRunning s (run_user uid ''lxg/router'') (run_user uid ''lxg/router.pid'')"
proof -
  have n: "''router'' \<noteq> ''..''" "''router.pid'' \<noteq> ''..''" by simp_all
  have "ReadFile s (run_user uid ''lxg/router.pid'') = Inr (show_nat pid @ [CHR 0x0A])"
    using assms(3,7) read_entry [OF assms(2) n(2)] by (simp add: router_comps [OF assms(1)] router_files_def pid_file_def)
  then have "readPidFile s (run_user uid ''lxg/router.pid'') = Inr (int pid)"
    using assms(4,5) by (simp add: readPidFile_def TrimSpace_line show_nat_nonempty is_digit_show_nat Atoi_show_nat)
  moreover have "Stat s (run_user uid ''lxg/router'') = Inr Sock"
    using assms(3,7) stat_entry [OF assms(2) n(1)] by (simp add: router_comps [OF assms(1)] router_files_def socket_file_def)
  ultimately show ?thesis using assms(6) by (simp add: routerRunning_def pidAlive_def)
qed

lemma poll_loop_ready:
  "poll_loop socket pidFile polls s = (s', None) \<Longrightarrow> routerRunning s' socket pidFile"
  by (induction polls arbitrary: s) (auto simp: Let_def split: option.splits if_splits prod.splits)

text \<open>
  What \<open>routerRunning\<close> finds in a layout without faults: the pid that the file records is the one of
  some process, and there is a socket. It cannot tell the router from another process.
\<close>

definition recorded_pid :: "string \<Rightarrow> 'a fs_scheme \<Rightarrow> int option" where
  "recorded_pid uid f =
     (case lookup f (pid_file uid) of
        Some (Reg data) \<Rightarrow>
          (case Atoi (TrimSpace data) of Some pid \<Rightarrow> if 0 < pid then Some pid else None | None \<Rightarrow> None)
      | _ \<Rightarrow> None)"

definition router_seen :: "string \<Rightarrow> 'a sys_scheme \<Rightarrow> bool" where
  "router_seen uid s \<longleftrightarrow>
     (case recorded_pid uid s of None \<Rightarrow> False | Some pid \<Rightarrow> pid \<in> set (pids s)) \<and> lookup s (socket_file uid) \<noteq> None"

lemma routerRunning_seen:
  assumes "component_ok uid" and "dir_ok (lxg_path uid) (shared_dir uid) s" and "quiet s"
    and "\<And>t. lookup s (socket_file uid) \<noteq> Some (Symlink t)" and "\<And>t. lookup s (pid_file uid) \<noteq> Some (Symlink t)"
  shows "routerRunning s (run_user uid ''lxg/router'') (run_user uid ''lxg/router.pid'') \<longleftrightarrow> router_seen uid s"
proof -
  have n: "''router'' \<noteq> ''..''" "''router.pid'' \<noteq> ''..''" by simp_all
  show ?thesis
    using assms(3) read_entry [OF assms(2) n(2)] stat_entry [OF assms(2) n(1)] assms(4,5)
    by (auto simp: routerRunning_def readPidFile_def pidAlive_def router_seen_def recorded_pid_def router_comps [OF assms(1)]
        pid_file_def socket_file_def split: option.splits node.splits)
qed

section \<open>The router becomes ready\<close>

lemma sys_lookup [simp]: "lookup (s\<lparr>pids := p\<rparr>) = lookup s" "lookup (s\<lparr>started := c\<rparr>) = lookup s"
  by (simp_all add: lookup_def fun_eq_iff)

lemma sys_fields [simp]:
  "fs_ok (s\<lparr>pids := p\<rparr>) = fs_ok s" "fs_ok (s\<lparr>started := c\<rparr>) = fs_ok s"
  "quiet (s\<lparr>pids := p\<rparr>) = quiet s" "quiet (s\<lparr>started := c\<rparr>) = quiet s"
  by (simp_all add: fs_ok_def quiet_def)

lemma sys_dir_ok [simp]: "dir_ok cs d (s\<lparr>pids := p\<rparr>) = dir_ok cs d s" "dir_ok cs d (s\<lparr>started := c\<rparr>) = dir_ok cs d s"
  by (simp_all add: dir_ok_def)

lemma sys_router_files [simp]: "router_files uid pid (s\<lparr>pids := p\<rparr>) = router_files uid pid s"
  by (simp add: router_files_def)

text \<open>The file operations leave the processes alone.\<close>

lemma more_kept [simp]:
  "fs.more (set_node p n f) = fs.more f" "fs.more (drop_node p f) = fs.more f"
  "fs.more (fst (remove_entry f cs)) = fs.more f" "fs.more (fst (create_entry op taken n f cs)) = fs.more f"
  "fs.more (fst (write_at f cs content)) = fs.more f" "fs.more (fst (chmod_at f cs mode)) = fs.more f"
  by (auto simp: set_node_def drop_node_def remove_entry_def create_entry_def write_at_def chmod_at_def
      split: sum.split option.split node.split)

lemma more_result:
  "remove_entry f cs = (f', e) \<Longrightarrow> fs.more f' = fs.more f"
  "create_entry op taken n f cs = (f', e) \<Longrightarrow> fs.more f' = fs.more f"
  "write_at f cs content = (f', e) \<Longrightarrow> fs.more f' = fs.more f"
  "chmod_at f cs mode = (f', e) \<Longrightarrow> fs.more f' = fs.more f"
  using more_kept(3) [of f cs] more_kept(4) [of op taken n f cs] more_kept(5) [of f cs content] more_kept(6) [of f cs mode]
  by simp_all

lemma more_mkdir_all: "mkdir_all f rcs = (f', e) \<Longrightarrow> fs.more f' = fs.more f"
proof (induction f rcs arbitrary: f' e rule: mkdir_all.induct)
  case (2 f c up)
  then show ?case
    by (auto dest!: more_result(2) split: sum.splits node.splits option.splits prod.splits)
qed simp

text \<open>A state whose file system part alone has changed.\<close>

lemma pids_more: "fs.more t = fs.more s \<Longrightarrow> pids t = pids s"
  by (cases s; cases t) simp

lemma started_more: "fs.more t = fs.more s \<Longrightarrow> started t = started s"
  by (cases s; cases t) simp

lemma Router_prepare_succeeds:
  assumes uid: "component_ok (UID ctx)" and D: "dir_ok (lxg_path (UID ctx)) (shared_dir (UID ctx)) f" and q: "quiet f"
    and free: "lookup f (socket_file (UID ctx)) = None" "lookup f (pid_file (UID ctx)) = None"
  shows "\<exists>f'. Router_prepare pid f (NewRouter ctx) = (f', None) \<and> quiet f' \<and> mounts f' = mounts f \<and> fs.more f' = fs.more f \<and>
    lookup f' = (lookup f)(socket_file (UID ctx) \<mapsto> Sock, pid_file (UID ctx) \<mapsto> Reg (show_nat pid @ [CHR 0x0A]))"
proof -
  let ?cs = "lxg_path (UID ctx)" and ?d = "shared_dir (UID ctx)" and ?t = "show_nat pid @ [CHR 0x0A]"
  have n: "''router'' \<noteq> ''..''" "''router.pid'' \<noteq> ''..''" by simp_all
  have rm: "remove_entry f (?cs @ [''router'']) = (f, Some ENOENT)"
    using free by (simp add: remove_entry_def dir_ok_resolve [OF D n(1)] q socket_file_def)
  have md: "mkdir_all f (rev ?cs) = (f, None)"
    using dir_ok_stat [OF D] q by (cases "?cs" rule: rev_cases) auto
  let ?f1 = "set_node (?d @ [''router'']) Sock f"
  have li: "create_entry OpListen EADDRINUSE Sock f (?cs @ [''router'']) = (?f1, None)"
    using free by (simp add: create_entry_def dir_ok_resolve [OF D n(1)] q socket_file_def)
  have q1: "quiet ?f1" using q by (simp add: quiet_def)
  have D1: "dir_ok ?cs ?d ?f1"
    using create_entry_done(1) [OF D n(1) li] by (intro dir_ok_change [OF D]) simp_all
  let ?f2 = "set_node (?d @ [''router.pid'']) (Reg ?t) ?f1"
  have pidn: "lookup ?f1 (?d @ [''router.pid'']) = None" using free by (simp add: pid_file_def)
  then have wr: "write_at ?f1 (?cs @ [''router.pid'']) ?t = (?f2, None)"
    by (simp add: write_at_def dir_ok_resolve [OF D1 n(2)] q)
  have q2: "quiet ?f2" using q1 by (simp add: quiet_def)
  have D2: "dir_ok ?cs ?d ?f2"
    using write_entry(1) [OF D1 n(2) _ wr] pidn by (intro dir_ok_change [OF D1]) simp_all
  obtain f3 where ch: "chmod_at ?f2 (?cs @ [''router'']) 384 = (f3, None)"
    by (simp add: chmod_at_def dir_ok_resolve [OF D2 n(1)] q)
  have "quiet f3" using q2 ch faults_kept(4) [of ?f2 "?cs @ [''router'']" 384] by (simp add: quiet_def)
  moreover have "mounts f3 = mounts f" using ch chmod_mounts [of ?f2 "?cs @ [''router'']" 384] by simp
  moreover have "fs.more f3 = fs.more f" using more_result(4) [OF ch] by simp
  moreover have "lookup f3 = (lookup f)(socket_file (UID ctx) \<mapsto> Sock, pid_file (UID ctx) \<mapsto> Reg ?t)"
    using ch chmod_kept [of ?f2 "?cs @ [''router'']" 384] by (simp add: socket_file_def pid_file_def)
  ultimately show ?thesis
    by (simp add: Router_prepare_def router_names(1,2) router_comps [OF uid] rm md li wr ch blocking_def)
qed

text \<open>
  \<open>EnsureRouter\<close> returns without an error as soon as the process it started has prepared its
  files, however many polls before find it not ready.
\<close>

definition router_comes_up :: "nat \<Rightarrow> Context \<Rightarrow> 'a sys_scheme \<Rightarrow> 'a sys_scheme" where
  "router_comes_up pid ctx s = (fst (Router_prepare pid s (NewRouter ctx)))\<lparr>pids := int pid # pids s\<rparr>"

lemma poll_loop_up:
  assumes uid: "component_ok (UID ctx)" and pid: "0 < pid" "int pid < 2 ^ 63"
    and D: "dir_ok (lxg_path (UID ctx)) (shared_dir (UID ctx)) s" and q: "quiet s"
    and free: "lookup s (socket_file (UID ctx)) = None" "lookup s (pid_file (UID ctx)) = None"
  shows "\<exists>s'. poll_loop (run_user (UID ctx) ''lxg/router'') (run_user (UID ctx) ''lxg/router.pid'')
    (replicate k (\<lambda>s. s, None) @ (router_comes_up pid ctx, None) # rest) s = (s', None) \<and>
    quiet s' \<and> mounts s' = mounts s \<and> dir_ok (lxg_path (UID ctx)) (shared_dir (UID ctx)) s' \<and>
    started s' = started s \<and> int pid \<in> set (pids s') \<and>
    lookup s' = (lookup s)(socket_file (UID ctx) \<mapsto> Sock, pid_file (UID ctx) \<mapsto> Reg (show_nat pid @ [CHR 0x0A]))"
proof (induction k)
  case 0
  obtain f' where up: "Router_prepare pid s (NewRouter ctx) = (f', None)" and q': "quiet f'" "mounts f' = mounts s" "fs.more f' = fs.more s"
    "lookup f' = (lookup s)(socket_file (UID ctx) \<mapsto> Sock, pid_file (UID ctx) \<mapsto> Reg (show_nat pid @ [CHR 0x0A]))"
    using Router_prepare_succeeds [OF uid D q free] by blast
  have "lookup s (pid_file (UID ctx)) \<noteq> Some (Symlink t)" for t using free by simp
  note prep = Router_prepare_done [OF uid D this up]
  have "routerRunning (router_comes_up pid ctx s) (run_user (UID ctx) ''lxg/router'') (run_user (UID ctx) ''lxg/router.pid'')"
    using prep q' pid by (intro routerRunning_files [OF uid, where pid = pid]) (simp_all add: router_comes_up_def up)
  with prep(1) q' started_more [OF q'(3)] show ?case by (auto simp: router_comes_up_def up fun_eq_iff)
next
  case (Suc k)
  have "ReadFile s (run_user (UID ctx) ''lxg/router.pid'') = Inl ENOENT"
    using read_entry [OF D, of "''router.pid''"] free(2) q by (simp add: router_comps [OF uid] pid_file_def)
  then have "\<not> routerRunning s (run_user (UID ctx) ''lxg/router'') (run_user (UID ctx) ''lxg/router.pid'')"
    by (simp add: routerRunning_def readPidFile_def)
  with Suc show ?case by simp
qed

definition router_command :: "string option \<Rightarrow> process" where
  "router_command exe =
     \<lparr>prog = (case exe of Some p \<Rightarrow> p | None \<Rightarrow> ''/usr/local/bin/lxg''), pargs = [''container'', ''router''], pstdin = None\<rparr>"

lemma EnsureRouter_up:
  assumes uid: "component_ok (UID ctx)" and pid: "0 < pid" "int pid < 2 ^ 63"
    and D: "dir_ok (lxg_path (UID ctx)) (shared_dir (UID ctx)) s" and q: "quiet s"
    and bus: "lookup s (shared_dir (UID ctx) @ [''bus'']) = Some Sock"
    and slots: "lookup s (socket_file (UID ctx)) \<noteq> Some Dir" "map_of (mounts s) (socket_file (UID ctx)) = None"
      "lookup s (pid_file (UID ctx)) \<noteq> Some Dir" "map_of (mounts s) (pid_file (UID ctx)) = None"
    and start: "\<And>cmd. start cmd = None"
  shows "\<exists>s'. EnsureRouter exe start (replicate k (\<lambda>s. s, None) @ (router_comes_up pid ctx, None) # rest) s ctx = (s', None) \<and>
    routerRunning s' (run_user (UID ctx) ''lxg/router'') (run_user (UID ctx) ''lxg/router.pid'') \<and>
    quiet s' \<and> mounts s' = mounts s \<and> dir_ok (lxg_path (UID ctx)) (shared_dir (UID ctx)) s' \<and>
    (\<forall>q. q \<noteq> socket_file (UID ctx) \<and> q \<noteq> pid_file (UID ctx) \<longrightarrow> lookup s' q = lookup s q) \<and>
    (if routerRunning s (run_user (UID ctx) ''lxg/router'') (run_user (UID ctx) ''lxg/router.pid'') then s' = s
     else router_files (UID ctx) pid s' \<and> started s' = started s @ [router_command exe] \<and> int pid \<in> set (pids s'))"
proof -
  let ?cs = "lxg_path (UID ctx)" and ?d = "shared_dir (UID ctx)"
  have n: "''router'' \<noteq> ''..''" "''router.pid'' \<noteq> ''..''" "''bus'' \<noteq> ''..''" by simp_all
  have st: "stat_at s (?cs @ [''bus'']) = Inr Sock"
    using stat_entry [OF D n(3)] bus q by simp
  obtain s1 err1 where r1: "remove_entry s (?cs @ [''router'']) = (s1, err1)" "\<not> blocking err1" "dir_ok ?cs ?d s1"
    "lookup s1 = (lookup s)(socket_file (UID ctx) := None)" "mounts s1 = mounts s" "quiet s1"
    using remove_slot [OF D n(1) q] slots by (auto simp: socket_file_def)
  have ne: "pid_file (UID ctx) \<noteq> socket_file (UID ctx)" by (simp add: pid_file_def socket_file_def)
  have p1: "lookup s1 (?d @ [''router.pid'']) \<noteq> Some Dir" "map_of (mounts s1) (?d @ [''router.pid'']) = None"
    using slots(3,4) r1(4,5) ne by (simp_all add: pid_file_def)
  obtain s2 err2 where r2: "remove_entry s1 (?cs @ [''router.pid'']) = (s2, err2)" "dir_ok ?cs ?d s2"
    "lookup s2 = (lookup s1)(pid_file (UID ctx) := None)" "mounts s2 = mounts s1" "quiet s2"
    using remove_slot [OF r1(3) n(2) r1(6) p1] by (auto simp: pid_file_def)
  have free: "lookup s2 (socket_file (UID ctx)) = None" "lookup s2 (pid_file (UID ctx)) = None"
    using r1(4) r2(3) by simp_all
  show ?thesis
  proof (cases "routerRunning s (run_user (UID ctx) ''lxg/router'') (run_user (UID ctx) ''lxg/router.pid'')")
    case True
    with st q D show ?thesis by (simp add: EnsureRouter_def router_names(3) router_comps [OF uid])
  next
    case False
    let ?cmd = "router_command exe"
    have D2: "dir_ok ?cs ?d (s2\<lparr>started := started s2 @ [?cmd]\<rparr>)" "quiet (s2\<lparr>started := started s2 @ [?cmd]\<rparr>)"
      "lookup (s2\<lparr>started := started s2 @ [?cmd]\<rparr>) (socket_file (UID ctx)) = None"
      "lookup (s2\<lparr>started := started s2 @ [?cmd]\<rparr>) (pid_file (UID ctx)) = None"
      using r2(2,5) free by simp_all
    obtain s' where up: "poll_loop (run_user (UID ctx) ''lxg/router'') (run_user (UID ctx) ''lxg/router.pid'')
        (replicate k (\<lambda>s. s, None) @ (router_comes_up pid ctx, None) # rest) (s2\<lparr>started := started s2 @ [?cmd]\<rparr>) = (s', None)"
      "quiet s'" "mounts s' = mounts s2" "dir_ok ?cs ?d s'" "started s' = started s2 @ [?cmd]" "int pid \<in> set (pids s')"
      "lookup s' = (lookup s2)(socket_file (UID ctx) \<mapsto> Sock, pid_file (UID ctx) \<mapsto> Reg (show_nat pid @ [CHR 0x0A]))"
      using poll_loop_up [OF uid pid D2] by fastforce
    have "EnsureRouter exe start (replicate k (\<lambda>s. s, None) @ (router_comes_up pid ctx, None) # rest) s ctx = (s', None)"
      using st r1(1,2) r2(1) up(1) start False
      by (simp add: EnsureRouter_def router_names(3) router_comps [OF uid] Let_def router_command_def)
    moreover have "started s2 = started s" using more_result(1) [OF r1(1)] more_result(1) [OF r2(1)] started_more by metis
    ultimately show ?thesis
      using False up poll_loop_ready [OF up(1)] r1(4,5) r2(3,4) ne
      by (auto simp: router_files_def)
  qed
qed

end
