(* ===== verification/Container_Start.thy ===== *)
theory Container_Start
  imports Container_Daemon
begin

text \<open>
  \<open>Init\<close> of a container succeeds: from a container whose shared directory has been filled by the
  host, with whatever an earlier start has left, to the linked sockets, the running router and the
  lines that the shell evaluates.
\<close>

section \<open>Operations that cannot fail\<close>

lemma create_slot:
  assumes "dir_ok cs d f" and "n \<noteq> ''..''" and "quiet f" and "lookup f (d @ [n]) = None"
  shows "create_entry op taken m f (cs @ [n]) = (set_node (d @ [n]) m f, None)"
  using assms by (simp add: create_entry_def dir_ok_resolve)

lemma quiet_set_node [simp]: "quiet (set_node p n f) = quiet f"
  by (simp add: quiet_def)

lemma SymLinkRun_succeeds:
  assumes uid: "component_ok (UID ctx)" and ok: "fs_ok f" "lookup f (run_dir (UID ctx)) = Some Dir" and q: "quiet f"
    and slot: "lookup f (lxg_path (UID ctx)) \<noteq> Some Dir" "mounts f = []"
  shows "\<exists>f'. SymLinkRun f ctx = (f', None) \<and> quiet f' \<and> mounts f' = [] \<and> fs_ok f' \<and> fs.more f' = fs.more f \<and>
    lookup f' = (lookup f)(lxg_path (UID ctx) \<mapsto> Symlink (''/lxg/run/user/'' @ UID ctx))"
proof -
  let ?r = "run_dir (UID ctx)"
  have D: "dir_ok ?r ?r f" using plain_dir [OF ok] uid by (auto simp: run_dir_def component_ok_def)
  have n: "''lxg'' \<noteq> ''..''" by simp
  obtain f1 err where r: "remove_entry f (?r @ [''lxg'']) = (f1, err)" "\<not> blocking err" "dir_ok ?r ?r f1"
    "lookup f1 = (lookup f)(?r @ [''lxg''] := None)" "mounts f1 = mounts f" "quiet f1"
    using remove_slot [OF D n q] slot by (auto simp: lxg_path_alt)
  have "lookup f1 (?r @ [''lxg'']) = None" by (simp add: r(4))
  note c = create_slot [OF r(3) n r(6) this]
  have run: "SymLinkRun f ctx = (set_node (?r @ [''lxg'']) (Symlink (''/lxg/run/user/'' @ UID ctx)) f1, None)"
    using r(1,2) by (simp add: SymLinkRun_def comps_lxg [OF uid] c)
  have "fs_ok (set_node (?r @ [''lxg'']) (Symlink (''/lxg/run/user/'' @ UID ctx)) f1)"
    by (rule SymLinkRun_replaces(1) [OF uid D run])
  with run r slot more_result(1) [OF r(1)] show ?thesis by (simp add: lxg_path_alt)
qed

text \<open>The place of a link is free when there is nothing, a file, or the link itself.\<close>

definition place_ok :: "'a fs_scheme \<Rightarrow> string \<Rightarrow> string \<Rightarrow> bool" where
  "place_ok f source destination \<longleftrightarrow>
     lookup f (comps destination) = None \<or> is_file (lookup f (comps destination)) \<or>
     lookup f (comps destination) = Some (Symlink source)"

definition source_ok :: "node option \<Rightarrow> bool" where
  "source_ok n \<longleftrightarrow> n = None \<or> is_file n"

lemma is_file_simps [simp]: "is_file (Some n) \<longleftrightarrow> n = Sock \<or> (\<exists>c. n = Reg c)" "\<not> is_file None"
  by (auto simp: is_file_def split: node.split)

lemma link_one_succeeds:
  assumes uid: "component_ok uid" and lay: "env_layout uid f" and p: "(source, destination) \<in> set (link_list uid)"
    and q: "quiet f" and m: "mounts f = []" and src: "source_ok (shared_node uid f source)" and dst: "place_ok f source destination"
  shows "\<exists>f'. link_one f source destination = (f', None) \<and> quiet f' \<and> mounts f' = []"
proof -
  obtain n d m' where s: "comps source = lxg_path uid @ [n]" and t: "comps destination = d @ [m']"
    and nm: "n \<noteq> ''..''" "m' \<noteq> ''..''"
    and d: "d \<in> {run_dir uid, run_dir uid @ [''pulse''], [''tmp'', ''.X11-unix'']}"
    using link_list_comps [OF uid p] by blast
  have D: "dir_ok d d f" by (rule env_dirs [OF lay uid d])
  have S: "dir_ok (lxg_path uid) (shared_dir uid) f" using lay by (intro layout_dirs(2) uid) (simp add: env_layout_def)
  have node: "shared_node uid f source = lookup f (shared_dir uid @ [n])" by (simp add: shared_node_def s)
  have stat: "Stat f source = (case shared_node uid f source of None \<Rightarrow> Inl ENOENT | Some x \<Rightarrow> Inr x)"
    using src stat_entry [OF S nm(1)] q by (auto simp: s node source_ok_def is_file_def split: option.splits node.splits)
  have new: ?thesis if none: "lookup f1 (d @ [m']) = None" and rm: "removeExisting f destination = (f1, None)"
    and f1: "dir_ok d d f1" "quiet f1" "mounts f1 = []" and mt: "symlinkMatch f source destination = Inr False"
    and st: "Stat f source = Inr x" for f1 x
    using create_slot [OF f1(1) nm(2) f1(2) none] rm mt st f1 by (simp add: link_one_def t)
  show ?thesis
  proof (cases "shared_node uid f source")
    case None
    then show ?thesis using q m by (simp add: link_one_def stat)
  next
    case (Some x)
    with stat have st: "Stat f source = Inr x" by simp
    note l = lstat_entry [OF D nm(2)] readlink_entry [OF D nm(2)]
    consider (vacant) "lookup f (d @ [m']) = None" | (occupied) y where "lookup f (d @ [m']) = Some y" "is_file (Some y)"
      | (linked) "lookup f (d @ [m']) = Some (Symlink source)"
      using dst by (cases "lookup f (d @ [m'])") (auto simp: place_ok_def t)
    then show ?thesis
    proof cases
      case vacant
      then have "symlinkMatch f source destination = Inr False" "removeExisting f destination = (f, None)"
        using stat_entry [OF D nm(2)] q by (simp_all add: symlinkMatch_def removeExisting_def l t)
      with vacant D q m st show ?thesis by (intro new)
    next
      case occupied
      have ns: "lookup f (d @ [m']) \<noteq> Some (Symlink z)" for z using occupied by auto
      have mt: "symlinkMatch f source destination = Inr False"
        using occupied q by (auto simp: symlinkMatch_def l t)
      obtain f1 err where r: "remove_entry f (d @ [m']) = (f1, err)" "\<not> blocking err" "dir_ok d d f1"
        "lookup f1 = (lookup f)(d @ [m'] := None)" "mounts f1 = mounts f" "quiet f1"
        using remove_slot [OF D nm(2) q] occupied m by fastforce
      have "removeExisting f destination = (f1, None)"
        using stat_entry [OF D nm(2) ns] occupied q r(1,2) by (simp add: removeExisting_def t)
      with r m mt st show ?thesis by (intro new) simp_all
    next
      case linked
      then have "symlinkMatch f source destination = Inr True" using q by (simp add: symlinkMatch_def l t)
      with st q m show ?thesis by (simp add: link_one_def)
    qed
  qed
qed

lemma mkdir_succeeds:
  assumes ok: "fs_ok f" "lookup f d = Some Dir" and dots: "''..'' \<notin> set (d @ [n])" and q: "quiet f"
    and free: "lookup f (d @ [n]) \<in> {None, Some Dir}"
  shows "\<exists>f'. mkdir_all f (rev (d @ [n])) = (f', None) \<and> quiet f' \<and> mounts f' = mounts f"
proof -
  have n: "n \<noteq> ''..''" and D: "dir_ok d d f" using plain_dir [OF ok] dots by auto
  have ns: "lookup f (d @ [n]) \<noteq> Some (Symlink t)" for t using free by auto
  have up: "mkdir_all f (rev d) = (f, None)"
    using dir_ok_stat [OF D] q by (cases d rule: rev_cases) auto
  show ?thesis
  proof (cases "lookup f (d @ [n])")
    case None
    then show ?thesis
      using stat_entry [OF D n ns] create_slot [OF D n q None, of OpMkdir EEXIST Dir] q up by simp
  next
    case (Some m)
    then show ?thesis using free stat_entry [OF D n ns] q by simp
  qed
qed

section \<open>The loop over the links\<close>

lemma link_loop_succeeds:
  assumes uid: "component_ok uid"
  shows "env_layout uid f \<Longrightarrow> set ps \<subseteq> set (link_list uid) \<Longrightarrow> distinct (map (\<lambda>p. comps (snd p)) ps) \<Longrightarrow> quiet f \<Longrightarrow>
    mounts f = [] \<Longrightarrow> \<forall>(s, t) \<in> set ps. source_ok (shared_node uid f s) \<and> place_ok f s t \<Longrightarrow>
    \<exists>f'. link_loop f ps = (f', None) \<and> quiet f' \<and> mounts f' = []"
proof (induction ps arbitrary: f)
  case (Cons p ps)
  obtain s t where p: "p = (s, t)" by force
  have mem: "(s, t) \<in> set (link_list uid)" and ok: "source_ok (shared_node uid f s)" "place_ok f s t"
    using Cons.prems(2,6) by (auto simp: p)
  obtain f1 where one: "link_one f s t = (f1, None)" "quiet f1" "mounts f1 = []"
    using link_one_succeeds [OF uid Cons.prems(1) mem Cons.prems(4,5) ok] by blast
  note l1 = link_one_links [OF uid Cons.prems(1) mem one(1)]
  have same: "shared_node uid f1 x = shared_node uid f x" for x
    using l1 by (intro shared_node_change [OF uid mem]) blast
  have "source_ok (shared_node uid f1 a) \<and> place_ok f1 a b" if "(a, b) \<in> set ps" for a b
  proof -
    have "comps b \<in> (\<lambda>p. comps (snd p)) ` set ps" using that by (metis image_eqI snd_conv)
    moreover have "comps t \<notin> (\<lambda>p. comps (snd p)) ` set ps" using Cons.prems(3) by (simp add: p)
    ultimately have "comps b \<noteq> comps t" by metis
    with l1 have "lookup f1 (comps b) = lookup f (comps b)" by simp
    moreover have "source_ok (shared_node uid f a) \<and> place_ok f a b" using Cons.prems(6) that by auto
    ultimately show ?thesis by (simp add: place_ok_def same)
  qed
  then have "\<forall>(s, t) \<in> set ps. source_ok (shared_node uid f1 s) \<and> place_ok f1 s t" by blast
  moreover have "env_layout uid f1" "set ps \<subseteq> set (link_list uid)" "distinct (map (\<lambda>p. comps (snd p)) ps)"
    using l1 Cons.prems by auto
  ultimately obtain f' where "link_loop f1 ps = (f', None)" "quiet f'" "mounts f' = []"
    using Cons.IH one(2,3) by blast
  with one(1) show ?case by (auto simp: p)
qed simp

section \<open>The variables\<close>

text \<open>A link of the runtime directory into the shared one is followed through both links.\<close>

lemma stat_native:
  assumes lay: "env_layout uid f" and uid: "component_ok uid" and q: "quiet f"
    and link: "lookup f (run_dir uid @ [''pulse'', ''native'']) = Some (Symlink (run_user uid ''lxg/pulse-native''))"
    and src: "source_ok (lookup f (shared_dir uid @ [''pulse-native'']))"
  shows "stat_at f (run_dir uid @ [''pulse'', ''native'']) =
    (case lookup f (shared_dir uid @ [''pulse-native'']) of None \<Rightarrow> Inl ENOENT | Some n \<Rightarrow> Inr n)"
proof -
  have ok: "fs_ok f" and dirs: "lookup f (run_dir uid @ [''pulse'']) = Some Dir" "lookup f (shared_dir uid) = Some Dir"
    and lxg: "lookup f (lxg_path uid) = Some (Symlink (''/lxg/run/user/'' @ uid))"
    using lay by (simp_all add: env_layout_def container_layout_def)
  have up: "lookup f [''run''] = Some Dir" "lookup f [''run'', ''user''] = Some Dir" "lookup f [''run'', ''user'', uid] = Some Dir"
    "lookup f [''lxg''] = Some Dir" "lookup f [''lxg'', ''run''] = Some Dir" "lookup f [''lxg'', ''run'', ''user''] = Some Dir"
    using fs_ok_prefixes [OF ok dirs(1)] fs_ok_prefixes [OF ok dirs(2)] by (simp_all add: run_dir_def shared_dir_def)
  have c: "comps (run_user uid ''lxg/pulse-native'') = [''run'', ''user'', uid, ''lxg'', ''pulse-native'']"
    by (simp add: comps_run_user [OF uid]) (simp add: comps_def)
  have a: "is_abs (run_user uid ''lxg/pulse-native'')" "is_abs (''/lxg/run/user/'' @ uid)" "uid \<noteq> ''..''"
    using uid by (simp_all add: run_user_def is_abs_def HasPrefix_def component_ok_def)
  have "walk (lookup f) True 40 [] (run_dir uid @ [''pulse'', ''native'']) = Inr (shared_dir uid @ [''pulse-native''])"
    using up dirs lxg link src a comps_shared [OF uid]
    by (cases "lookup f (shared_dir uid @ [''pulse-native''])")
      (auto simp: run_dir_def shared_dir_def lxg_path_def c numeral_eq_Suc source_ok_def simp del: split_on.simps)
  then show ?thesis using q by (simp add: stat_at_def resolve_def)
qed

lemma env_variables_succeed:
  assumes lay: "env_layout uid f" and uid: "component_ok uid" and q: "quiet f"
    and x11: "source_ok (lookup f (shared_dir uid @ [''X11-Xauth'']))"
    and pulse: "source_ok (lookup f (shared_dir uid @ [''pulse-native'']))"
    and native: "place_ok f (run_user uid ''lxg/pulse-native'') (run_user uid ''pulse/native'')"
    and router: "is_file (lookup f (socket_file uid))"
  shows "\<exists>vars. env_variables f uid = Inr vars"
proof -
  have S: "dir_ok (lxg_path uid) (shared_dir uid) f" using lay by (intro layout_dirs(2) uid) (simp add: env_layout_def)
  have D: "dir_ok (run_dir uid @ [''pulse'']) (run_dir uid @ [''pulse'']) f" by (rule env_dirs [OF lay uid]) simp
  have c: "comps (run_user uid ''lxg/X11-Xauth'') = lxg_path uid @ [''X11-Xauth'']"
    "comps (run_user uid ''pulse/native'') = (run_dir uid @ [''pulse'']) @ [''native'']"
    by (simp_all add: comps_run_user [OF uid] lxg_path_def run_dir_def) (simp_all add: comps_def)
  have n: "''X11-Xauth'' \<noteq> ''..''" "''native'' \<noteq> ''..''" "''router'' \<noteq> ''..''" by simp_all
  have benign: "stat_at f cs = Inl ENOENT \<or> (\<exists>m. stat_at f cs = Inr m)"
    if "stat_at f cs = (case v of None \<Rightarrow> Inl ENOENT | Some m \<Rightarrow> Inr m)" for cs v
    using that by (cases v) auto
  have nolink: "m \<noteq> Some (Symlink t)" if "source_ok m" for m t using that by (auto simp: source_ok_def)
  have 1: "Stat f (run_user uid ''lxg/X11-Xauth'') = Inl ENOENT \<or> (\<exists>m. Stat f (run_user uid ''lxg/X11-Xauth'') = Inr m)"
    using stat_entry [OF S n(1) nolink [OF x11]] q benign by (simp add: c)
  have 2: "Stat f (run_user uid ''pulse/native'') = Inl ENOENT \<or> (\<exists>m. Stat f (run_user uid ''pulse/native'') = Inr m)"
  proof (cases "lookup f (run_dir uid @ [''pulse'', ''native'']) = Some (Symlink (run_user uid ''lxg/pulse-native''))")
    case True
    from stat_native [OF lay uid q True pulse] show ?thesis using benign by (simp add: c)
  next
    case False
    then have "lookup f ((run_dir uid @ [''pulse'']) @ [''native'']) \<noteq> Some (Symlink t)" for t
      using native by (auto simp: place_ok_def c)
    from stat_entry [OF D n(2) this] show ?thesis using q benign by (simp add: c)
  qed
  have 3: "\<exists>m. Stat f (run_user uid ''lxg/router'') = Inr m"
  proof -
    have "source_ok (lookup f (shared_dir uid @ [''router'']))" using router by (simp add: source_ok_def socket_file_def)
    from stat_entry [OF S n(3) nolink [OF this]] router q show ?thesis
      by (cases "lookup f (shared_dir uid @ [''router''])") (simp_all add: router_comps [OF uid] socket_file_def)
  qed
  have s1: "\<exists>v'. set_if_exists f (run_user uid ''lxg/X11-Xauth'') k v vars = Inr v'" for k v vars
    using 1 by (auto simp: set_if_exists_def)
  have s2: "\<exists>v'. set_if_exists f (run_user uid ''pulse/native'') k v vars = Inr v'" for k v vars
    using 2 by (auto simp: set_if_exists_def)
  have s3: "\<exists>v'. dbus_loop f (run_user uid ''lxg/router'' # ps) vars = Inr v'" for ps vars
    using 3 by auto
  show ?thesis
    unfolding env_variables_def using s1 s2 s3 by (metis (no_types, lifting) sum.case(2))
qed

section \<open>What the file operations leave alone\<close>

lemma more_link_one: "link_one f s t = (f', e) \<Longrightarrow> fs.more f' = fs.more f"
  by (auto simp: link_one_def removeExisting_def dest!: more_result
      split: sum.splits bool.splits prod.splits option.splits if_splits)

lemma more_link_loop: "link_loop f ps = (f', e) \<Longrightarrow> fs.more f' = fs.more f"
proof (induction f ps arbitrary: f' e rule: link_loop.induct)
  case (2 f s t rest)
  then show ?case by (auto dest!: more_link_one split: prod.splits option.splits)
qed simp

section \<open>The environment is set up\<close>

definition links_ready :: "string \<Rightarrow> 'a fs_scheme \<Rightarrow> bool" where
  "links_ready uid f \<longleftrightarrow> (\<forall>(s, t) \<in> set (link_list uid). source_ok (shared_node uid f s) \<and> place_ok f s t)"

lemma links_ready_change:
  assumes "component_ok uid" and "links_ready uid f"
    and "\<And>n. lookup f' (shared_dir uid @ [n]) = lookup f (shared_dir uid @ [n]) \<or> n = ''router'' \<or> n = ''router.pid''"
    and "\<And>s t. (s, t) \<in> set (link_list uid) \<Longrightarrow> lookup f' (comps t) = lookup f (comps t)"
  shows "links_ready uid f'"
proof -
  have n: "last (comps s) \<noteq> ''router'' \<and> last (comps s) \<noteq> ''router.pid''" if "(s, t) \<in> set (link_list uid)" for s t
    using that by (auto simp: link_list_def comps_run_user [OF assms(1)]) (simp_all add: comps_def)
  have "shared_node uid f' s = shared_node uid f s" if "(s, t) \<in> set (link_list uid)" for s t
    using assms(3) [of "last (comps s)"] n [OF that] by (auto simp: shared_node_def)
  with assms(2,4) show ?thesis by (fastforce simp: links_ready_def place_ok_def)
qed

lemma InitEnvironment_succeeds:
  assumes uid: "1000 \<le> uid" and ready: "env_ready (show_nat uid) f" and order: "\<And>xs. mset (range_order xs) = mset xs"
    and q: "quiet f" and m: "mounts f = []" and links: "links_ready (show_nat uid) f"
    and x11: "source_ok (lookup f (shared_dir (show_nat uid) @ [''X11-Xauth'']))"
    and router: "is_file (lookup f (socket_file (show_nat uid)))"
  shows "\<exists>f' lines. InitEnvironment range_order uid f = (f', Inr lines) \<and> quiet f' \<and> fs.more f' = fs.more f \<and>
    (\<forall>n. lookup f' (shared_dir (show_nat uid) @ [n]) = lookup f (shared_dir (show_nat uid) @ [n]))"
proof -
  let ?u = "show_nat uid"
  have uc: "component_ok ?u" by simp
  have c1: "comps (run_user ?u ''pulse'') = run_dir ?u @ [''pulse'']"
    by (simp add: comps_run_user [OF uc] run_dir_def) (simp add: comps_def)
  have c2: "comps ''/tmp/.X11-unix'' = [''tmp''] @ [''.X11-unix'']" by (simp add: comps_def)
  have ok: "fs_ok f" and r: "lookup f (run_dir ?u) = Some Dir" and tmp: "lookup f [''tmp''] = Some Dir"
    and free: "lookup f (run_dir ?u @ [''pulse'']) \<in> {None, Some Dir}" "lookup f [''tmp'', ''.X11-unix''] \<in> {None, Some Dir}"
    using ready by (simp_all add: env_ready_def container_layout_def)
  have dots: "''..'' \<notin> set (run_dir ?u @ [''pulse''])" "''..'' \<notin> set ([''tmp''] @ [''.X11-unix''])"
    using uc by (auto simp: run_dir_def component_ok_def)
  obtain f1 where 1: "MkdirAll f (run_user ?u ''pulse'') = (f1, None)" "quiet f1" "mounts f1 = mounts f"
    using mkdir_succeeds [OF ok r dots(1) q free(1)] unfolding c1 by blast
  note l1 = mkdir_all_last [OF ok r dots(1) free(1) 1(1) [unfolded c1]]
  have t1: "lookup f1 [''tmp''] = Some Dir" "lookup f1 ([''tmp''] @ [''.X11-unix'']) \<in> {None, Some Dir}"
    using l1 tmp free(2) by (simp_all add: run_dir_def)
  obtain f2 where 2: "MkdirAll f1 ''/tmp/.X11-unix'' = (f2, None)" "quiet f2" "mounts f2 = mounts f1"
    using mkdir_succeeds [OF conjunct1 [OF l1] t1(1) dots(2) 1(2) t1(2)] unfolding c2 by blast
  note dirs = InitEnvironment_dirs [OF uc ready 1(1) 2(1)]
  have shared2: "lookup f2 (shared_dir ?u @ [n]) = lookup f (shared_dir ?u @ [n])" for n
    by (simp add: dirs(2)) (simp add: shared_dir_def run_dir_def)
  have dest2: "lookup f2 (comps t) = lookup f (comps t)" if "(s, t) \<in> set (link_list ?u)" for s t
  proof -
    have "comps t \<noteq> run_dir ?u @ [''pulse'']" "comps t \<noteq> [''tmp'', ''.X11-unix'']"
      using link_list_comps [OF uc that] by auto
    then show ?thesis by (simp add: dirs(2))
  qed
  have ready2: "links_ready ?u f2" by (rule links_ready_change [OF uc links]) (auto simp: shared2 dest2)
  have set_eq: "set (range_order (link_list ?u)) = set (link_list ?u)" using order by (metis mset_eq_setD)
  have "mset (map (\<lambda>p. comps (snd p)) (range_order (link_list ?u))) = mset (map (\<lambda>p. comps (snd p)) (link_list ?u))"
    using order by simp
  then have dist: "distinct (map (\<lambda>p. comps (snd p)) (range_order (link_list ?u)))"
    using link_list_distinct [OF uc] by (metis mset_eq_imp_distinct_iff)
  have sub: "set (range_order (link_list ?u)) \<subseteq> set (link_list ?u)" by (simp add: set_eq)
  obtain f3 where 3: "link_loop f2 (range_order (link_list ?u)) = (f3, None)" "quiet f3" "mounts f3 = []"
    using link_loop_succeeds [OF uc dirs(1) sub dist 2(2)] 1(3) 2(3) m ready2 by (auto simp: set_eq links_ready_def)
  note loop = link_loop_links [OF uc dirs(1) sub dist 3(1), unfolded set_eq]
  have shared3: "lookup f3 (shared_dir ?u @ [n]) = lookup f (shared_dir ?u @ [n])" for n
  proof -
    have "hd (comps t) \<noteq> ''lxg''" if "(s, t) \<in> set (link_list ?u)" for s t using link_list_comps [OF uc that] by auto
    moreover have "hd (shared_dir ?u @ [n]) = ''lxg''" by (simp add: shared_dir_def)
    ultimately have "shared_dir ?u @ [n] \<notin> (\<lambda>p. comps (snd p)) ` set (link_list ?u)"
      by (metis (no_types, lifting) image_iff prod.collapse)
    with loop shared2 show ?thesis by simp
  qed
  have pulse: "(run_user ?u ''lxg/pulse-native'', run_user ?u ''pulse/native'') \<in> set (link_list ?u)"
    by (simp add: link_list_def)
  have node: "shared_node ?u g (run_user ?u ''lxg/pulse-native'') = lookup g (shared_dir ?u @ [''pulse-native''])" for g :: "'a fs_scheme"
    by (simp add: shared_node_def comps_run_user [OF uc]) (simp add: comps_def)
  have src: "source_ok (lookup f2 (shared_dir ?u @ [''pulse-native'']))" and
    place: "place_ok f2 (run_user ?u ''lxg/pulse-native'') (run_user ?u ''pulse/native'')"
    using ready2 pulse by (auto simp: links_ready_def node)
  have "place_ok f3 (run_user ?u ''lxg/pulse-native'') (run_user ?u ''pulse/native'')"
  proof (cases "lookup f2 (shared_dir ?u @ [''pulse-native''])")
    case None
    with loop pulse place show ?thesis by (fastforce simp: node place_ok_def)
  next
    case (Some x)
    with src have "is_file (shared_node ?u f2 (run_user ?u ''lxg/pulse-native''))" by (simp add: node source_ok_def)
    with loop pulse show ?thesis by (fastforce simp: place_ok_def)
  qed
  then obtain vars where 4: "env_variables f3 ?u = Inr vars"
    using env_variables_succeed [OF conjunct1 [OF loop] uc 3(2)] x11 src router shared2 by (auto simp: shared3 socket_file_def)
  have "InitEnvironment range_order uid f = (f3, Inr (map export_line (range_order vars)))"
    using uid by (simp add: InitEnvironment_def 1(1) 2(1) [unfolded comps_slash] 3(1) 4)
  moreover have "fs.more f3 = fs.more f"
    using more_mkdir_all [OF 1(1)] more_mkdir_all [OF 2(1)] more_link_loop [OF 3(1)] by simp
  ultimately show ?thesis using 3(2) shared3 by blast
qed

section \<open>Init\<close>

text \<open>A container that can be started, with whatever an earlier start has left.\<close>

definition container_ready :: "string \<Rightarrow> 'a fs_scheme \<Rightarrow> bool" where
  "container_ready uid f \<longleftrightarrow> fs_ok f \<and> quiet f \<and> mounts f = [] \<and>
     lookup f (run_dir uid) = Some Dir \<and> lookup f (lxg_path uid) \<noteq> Some Dir \<and> lookup f [''tmp''] = Some Dir \<and>
     lookup f (run_dir uid @ [''pulse'']) \<in> {None, Some Dir} \<and> lookup f [''tmp'', ''.X11-unix''] \<in> {None, Some Dir} \<and>
     lookup f (shared_dir uid) = Some Dir \<and> lookup f (shared_dir uid @ [''bus'']) = Some Sock \<and>
     source_ok (lookup f (shared_dir uid @ [''X11-Xauth''])) \<and>
     source_ok (lookup f (socket_file uid)) \<and> source_ok (lookup f (pid_file uid)) \<and> links_ready uid f"

lemma routerRunning_cong:
  "ReadFile t p = ReadFile s p \<Longrightarrow> Stat t q = Stat s q \<Longrightarrow> fs.more t = fs.more s \<Longrightarrow>
     routerRunning t q p \<longleftrightarrow> routerRunning s q p"
  using pids_more [of t s] by (simp add: routerRunning_def readPidFile_def pidAlive_def split: sum.split)

lemma links_far:
  assumes "component_ok uid" and "(s, t) \<in> set (link_list uid)"
  shows "comps t \<noteq> lxg_path uid" and "comps t \<noteq> socket_file uid" and "comps t \<noteq> pid_file uid"
proof -
  obtain d m where "comps t = d @ [m]" "d @ [m] \<noteq> lxg_path uid" "hd (d @ [m]) \<noteq> ''lxg''"
    using link_list_comps [OF assms] by blast
  then have t: "comps t \<noteq> lxg_path uid" "hd (comps t) \<noteq> ''lxg''" by simp_all
  have "hd (socket_file uid) = ''lxg''" "hd (pid_file uid) = ''lxg''"
    by (simp_all add: socket_file_def pid_file_def shared_dir_def)
  with t show "comps t \<noteq> lxg_path uid" "comps t \<noteq> socket_file uid" "comps t \<noteq> pid_file uid" by auto
qed

lemma container_Init_succeeds:
  assumes uid: "1000 \<le> uid" "UID ctx = show_nat uid" and ready: "container_ready (show_nat uid) s"
    and order: "\<And>xs. mset (range_order xs) = mset xs"
    and pid: "0 < pid" "int pid < 2 ^ 63" and start: "\<And>cmd. start cmd = None"
  obtains s1 s2 s' lines where
    "container_Init range_order uid exe start (replicate k (\<lambda>s. s, None) @ (router_comes_up pid ctx, None) # rest) s ctx = (s', Inr lines)"
    and "routerRunning s' (run_user (show_nat uid) ''lxg/router'') (run_user (show_nat uid) ''lxg/router.pid'')"
    and "SymLinkRun s ctx = (s1, None)" and "InitEnvironment range_order uid s2 = (s', Inr lines)"
    and "env_ready (show_nat uid) s2" and "\<And>q. q \<notin> {lxg_path (show_nat uid), socket_file (show_nat uid), pid_file (show_nat uid)} \<Longrightarrow> lookup s2 q = lookup s q"
    and "is_file (lookup s' (socket_file (show_nat uid)))" and "quiet s'"
    and "if router_seen (show_nat uid) s
      then started s' = started s \<and> lookup s' (socket_file (show_nat uid)) = lookup s (socket_file (show_nat uid)) \<and>
        lookup s' (pid_file (show_nat uid)) = lookup s (pid_file (show_nat uid))
      else started s' = started s @ [router_command exe] \<and> router_files (show_nat uid) pid s' \<and> int pid \<in> set (pids s')"
proof -
  let ?u = "show_nat uid"
  have uc: "component_ok ?u" by simp
  note R = ready [unfolded container_ready_def]
  obtain s1 where 1: "SymLinkRun s ctx = (s1, None)" "quiet s1" "mounts s1 = []" "fs_ok s1" "fs.more s1 = fs.more s"
    "lookup s1 = (lookup s)(lxg_path ?u \<mapsto> Symlink (''/lxg/run/user/'' @ ?u))"
    using SymLinkRun_succeeds [of ctx s] R by (auto simp: uid(2))
  have far: "run_dir ?u \<noteq> lxg_path ?u" "shared_dir ?u \<noteq> lxg_path ?u" "shared_dir ?u @ [n] \<noteq> lxg_path ?u"
    "[''tmp''] \<noteq> lxg_path ?u" "run_dir ?u @ [''pulse''] \<noteq> lxg_path ?u" "[''tmp'', ''.X11-unix''] \<noteq> lxg_path ?u"
    "socket_file ?u \<noteq> lxg_path ?u" "pid_file ?u \<noteq> lxg_path ?u" for n
    by (simp_all add: run_dir_def lxg_path_def shared_dir_def socket_file_def pid_file_def)
  have lay1: "container_layout ?u s1" using R 1(4,6) far by (simp add: container_layout_def)
  note D1 = layout_dirs(2) [OF lay1 uc]
  have nolink: "m \<noteq> Some (Symlink t)" if "source_ok m" for m t using that by (auto simp: source_ok_def)
  have nodir: "m \<noteq> Some Dir" if "source_ok m" for m using that by (auto simp: source_ok_def)
  have same1: "lookup s1 (shared_dir ?u @ [''bus'']) = Some Sock" "lookup s1 (socket_file ?u) = lookup s (socket_file ?u)"
    "lookup s1 (pid_file ?u) = lookup s (pid_file ?u)"
    using R 1(6) far by simp_all
  have slots: "lookup s1 (socket_file ?u) \<noteq> Some Dir" "map_of (mounts s1) (socket_file ?u) = None"
      "lookup s1 (pid_file ?u) \<noteq> Some Dir" "map_of (mounts s1) (pid_file ?u) = None"
    using nodir R same1 1(3) by auto
  obtain s2 where 2: "EnsureRouter exe start (replicate k (\<lambda>s. s, None) @ (router_comes_up pid ctx, None) # rest) s1 ctx = (s2, None)"
    "routerRunning s2 (run_user ?u ''lxg/router'') (run_user ?u ''lxg/router.pid'')"
    "quiet s2" "mounts s2 = mounts s1" "dir_ok (lxg_path ?u) (shared_dir ?u) s2"
    "\<And>q. q \<noteq> socket_file ?u \<Longrightarrow> q \<noteq> pid_file ?u \<Longrightarrow> lookup s2 q = lookup s1 q"
    "if routerRunning s1 (run_user ?u ''lxg/router'') (run_user ?u ''lxg/router.pid'') then s2 = s1
     else router_files ?u pid s2 \<and> started s2 = started s1 @ [router_command exe] \<and> int pid \<in> set (pids s2)"
    using EnsureRouter_up [of ctx pid s1 start exe k rest, unfolded uid(2), OF uc pid D1 1(2) same1(1) slots start] by metis
  have "routerRunning s1 (run_user ?u ''lxg/router'') (run_user ?u ''lxg/router.pid'') \<longleftrightarrow> router_seen ?u s1"
    using R same1 nolink by (intro routerRunning_seen [OF uc D1 1(2)]) metis+
  also have "router_seen ?u s1 \<longleftrightarrow> router_seen ?u s"
    using same1 pids_more [OF 1(5)] by (simp add: router_seen_def recorded_pid_def cong: option.case_cong)
  finally have seen: "routerRunning s1 (run_user ?u ''lxg/router'') (run_user ?u ''lxg/router.pid'') \<longleftrightarrow> router_seen ?u s" .
  have frame: "lookup s2 q = lookup s q" if "q \<notin> {lxg_path ?u, socket_file ?u, pid_file ?u}" for q
    using that 1(6) 2(6) by auto
  have far2: "q \<noteq> socket_file ?u \<and> q \<noteq> pid_file ?u"
    if "q \<in> {run_dir ?u, lxg_path ?u, shared_dir ?u, [''tmp''], run_dir ?u @ [''pulse''], [''tmp'', ''.X11-unix''], shared_dir ?u @ [''X11-Xauth'']}" for q
    using that by (auto simp: run_dir_def lxg_path_def shared_dir_def socket_file_def pid_file_def)
  have ready2: "env_ready ?u s2"
    using lay1 R dir_ok_fs_ok [OF 2(5)] far2 1(6) far by (simp add: env_ready_def container_layout_def 2(6))
  have links2: "links_ready ?u s2"
  proof (rule links_ready_change [OF uc, of s])
    show "links_ready ?u s" using R by blast
    show "lookup s2 (shared_dir ?u @ [n]) = lookup s (shared_dir ?u @ [n]) \<or> n = ''router'' \<or> n = ''router.pid''" for n
      using frame [of "shared_dir ?u @ [n]"] far(3) by (auto simp: socket_file_def pid_file_def)
    show "lookup s2 (comps t) = lookup s (comps t)" if "(a, t) \<in> set (link_list ?u)" for a t
      using frame links_far [OF uc that] by simp
  qed
  have ok: "source_ok (lookup s2 (socket_file ?u))" "source_ok (lookup s2 (pid_file ?u))"
    using 2(7) R same1 by (auto simp: router_files_def source_ok_def split: if_splits)
  have n: "''router'' \<noteq> ''..''" "''router.pid'' \<noteq> ''..''" by simp_all
  have router: "is_file (lookup s2 (socket_file ?u))"
    using 2(2,3) ok(1) stat_entry [OF 2(5) n(1) nolink [OF ok(1) [unfolded socket_file_def]]]
    by (auto simp: routerRunning_def router_comps [OF uc] socket_file_def source_ok_def split: sum.splits)
  have x11: "source_ok (lookup s2 (shared_dir ?u @ [''X11-Xauth'']))"
    using R far(3) far2 by (simp add: 2(6) 1(6))
  have m2: "mounts s2 = []" using 1(3) 2(4) by simp
  obtain s' lines where 3: "InitEnvironment range_order uid s2 = (s', Inr lines)" "quiet s'" "fs.more s' = fs.more s2"
    "\<And>n. lookup s' (shared_dir ?u @ [n]) = lookup s2 (shared_dir ?u @ [n])"
    using InitEnvironment_succeeds [OF uid(1) ready2 order 2(3) m2 links2 x11 router] by blast
  have lay3: "container_layout ?u s'"
    using InitEnvironment_result(1) [OF uid(1) ready2 order 3(1)] by (simp add: env_layout_def)
  note D3 = layout_dirs(2) [OF lay3 uc]
  have ok3: "source_ok (lookup s' (shared_dir ?u @ [''router'']))" "source_ok (lookup s' (shared_dir ?u @ [''router.pid'']))"
    using ok 3(4) by (simp_all add: socket_file_def pid_file_def)
  have "routerRunning s' (run_user ?u ''lxg/router'') (run_user ?u ''lxg/router.pid'')"
    using 2(2) routerRunning_cong [of s' "run_user ?u ''lxg/router.pid''" s2 "run_user ?u ''lxg/router''"]
      read_entry [OF 2(5) n(2) nolink [OF ok(2) [unfolded pid_file_def]]] read_entry [OF D3 n(2) nolink [OF ok3(2)]]
      stat_entry [OF 2(5) n(1) nolink [OF ok(1) [unfolded socket_file_def]]] stat_entry [OF D3 n(1) nolink [OF ok3(1)]]
    by (simp add: router_comps [OF uc] 3(2,3,4) 2(3))
  moreover have "container_Init range_order uid exe start (replicate k (\<lambda>s. s, None) @ (router_comes_up pid ctx, None) # rest) s ctx = (s', Inr lines)"
    by (simp add: container_Init_def 1(1) 2(1) 3(1))
  moreover have "is_file (lookup s' (socket_file ?u))" using router by (simp add: 3(4) socket_file_def)
  moreover have "lookup s' (socket_file ?u) = lookup s2 (socket_file ?u)" "lookup s' (pid_file ?u) = lookup s2 (pid_file ?u)"
    by (simp_all add: 3(4) socket_file_def pid_file_def)
  then have "if router_seen ?u s
      then started s' = started s \<and> lookup s' (socket_file ?u) = lookup s (socket_file ?u) \<and>
        lookup s' (pid_file ?u) = lookup s (pid_file ?u)
      else started s' = started s @ [router_command exe] \<and> router_files ?u pid s' \<and> int pid \<in> set (pids s')"
    using 2(7) same1 seen started_more [OF 1(5)] started_more [OF 3(3)] pids_more [OF 3(3)]
    by (simp add: router_files_def split: if_splits)
  ultimately show thesis using that 1(1) 3(1,2) ready2 frame by blast
qed

section \<open>What the shell evaluates\<close>

lemma router_address:
  assumes "routerRunning s (run_user uid ''lxg/router'') pidFile"
  shows "session_variables s uid ''DBUS_SESSION_BUS_ADDRESS'' = Some (''unix:path='' @ run_user uid ''lxg/router'')"
  using assms by (auto simp: routerRunning_def session_variables_def exists_at_def maybe_def split: sum.splits)

lemma shared_node_links:
  assumes "component_ok uid" and "(s, t) \<in> set (link_list uid)"
    and "\<And>q. q \<notin> {lxg_path uid, socket_file uid, pid_file uid} \<Longrightarrow> lookup f' q = lookup f q"
  shows "shared_node uid f' s = shared_node uid f s"
proof -
  have "last (comps s) \<noteq> ''router'' \<and> last (comps s) \<noteq> ''router.pid''"
    using assms(2) by (auto simp: link_list_def comps_run_user [OF assms(1)]) (simp_all add: comps_def)
  moreover have "shared_dir uid @ [n] \<noteq> lxg_path uid" for n
    by (simp add: shared_dir_def lxg_path_def)
  ultimately show ?thesis
    using assms(3) by (auto simp: shared_node_def socket_file_def pid_file_def)
qed

lemma printed_line:
  assumes "mset lines = mset (map export_line vars)" and "map_of vars k = Some v"
  shows "export_line (k, v) \<in> set lines"
  using assms mset_eq_setD [OF assms(1)] map_of_SomeD by fastforce

end
