(* ===== verification/Container_Router.thy ===== *)
theory Container_Router
  imports Container_Daemon
begin

text \<open>
  The files of the router over its whole life: what \<open>Router.Start\<close> (\<open>container/dbus/router.go\<close>)
  has left behind while it accepts clients, when it has stopped, and when one of the system calls
  that set its socket up has failed.
\<close>

section \<open>The place of the router\<close>

text \<open>
  The shared directory is there, whatever an earlier router has left in it, and a fault can only
  come from binding the socket, from writing the pid file and from the mode of the socket.
\<close>

definition router_place :: "string \<Rightarrow> 'a fs_scheme \<Rightarrow> bool" where
  "router_place uid f \<longleftrightarrow> dir_ok (lxg_path uid) (shared_dir uid) f \<and>
     lookup f (socket_file uid) \<noteq> Some Dir \<and>
     (lookup f (pid_file uid) = None \<or> (\<exists>c. lookup f (pid_file uid) = Some (Reg c))) \<and>
     map_of (mounts f) (socket_file uid) = None \<and> map_of (mounts f) (pid_file uid) = None \<and>
     (\<forall>op cs. op \<notin> {OpListen, OpWrite, OpChmod} \<longrightarrow> faults f op cs = None)"

lemma place_remove:
  assumes "router_place uid f" and "n = ''router'' \<or> n = ''router.pid''"
  shows "\<exists>f' err. remove_entry f (lxg_path uid @ [n]) = (f', err) \<and> \<not> blocking err \<and> router_place uid f' \<and>
    lookup f' = (lookup f)(shared_dir uid @ [n] := None) \<and> mounts f' = mounts f \<and> faults f' = faults f"
proof -
  have D: "dir_ok (lxg_path uid) (shared_dir uid) f" and n: "n \<noteq> ''..''" and fault: "faults f OpRemove (lxg_path uid @ [n]) = None"
    and slot: "lookup f (shared_dir uid @ [n]) \<noteq> Some Dir" "map_of (mounts f) (shared_dir uid @ [n]) = None"
    using assms by (auto simp: router_place_def socket_file_def pid_file_def)
  from remove_slot_at [OF D n fault slot] show ?thesis
    using assms by (auto simp: router_place_def socket_file_def pid_file_def)
qed

section \<open>The deferred calls\<close>

lemma stop_listening_gone:
  assumes "component_ok (UID ctx)" and "router_place (UID ctx) f"
  shows "router_place (UID ctx) (stop_listening f (NewRouter ctx))"
    and "lookup (stop_listening f (NewRouter ctx)) = (lookup f)(socket_file (UID ctx) := None)"
    and "mounts (stop_listening f (NewRouter ctx)) = mounts f" and "faults (stop_listening f (NewRouter ctx)) = faults f"
proof -
  obtain f1 e1 where 1: "remove_entry f (lxg_path (UID ctx) @ [''router'']) = (f1, e1)" "router_place (UID ctx) f1"
    "lookup f1 = (lookup f)(shared_dir (UID ctx) @ [''router''] := None)" "mounts f1 = mounts f" "faults f1 = faults f"
    using place_remove [OF assms(2)] by blast
  obtain f2 e2 where 2: "remove_entry f1 (lxg_path (UID ctx) @ [''router'']) = (f2, e2)" "router_place (UID ctx) f2"
    "lookup f2 = (lookup f1)(shared_dir (UID ctx) @ [''router''] := None)" "mounts f2 = mounts f1" "faults f2 = faults f1"
    using place_remove [OF 1(2)] by blast
  have "stop_listening f (NewRouter ctx) = f2"
    by (simp add: stop_listening_def router_names router_comps [OF assms(1)] 1(1) 2(1))
  with 1 2 show "router_place (UID ctx) (stop_listening f (NewRouter ctx))"
    "lookup (stop_listening f (NewRouter ctx)) = (lookup f)(socket_file (UID ctx) := None)"
    "mounts (stop_listening f (NewRouter ctx)) = mounts f" "faults (stop_listening f (NewRouter ctx)) = faults f"
    by (simp_all add: socket_file_def)
qed

lemma Router_cleanup_gone:
  assumes "component_ok (UID ctx)" and "router_place (UID ctx) f"
  shows "lookup (Router_cleanup f (NewRouter ctx)) = (lookup f)(socket_file (UID ctx) := None, pid_file (UID ctx) := None)"
    and "mounts (Router_cleanup f (NewRouter ctx)) = mounts f"
proof -
  obtain f1 e1 where 1: "remove_entry f (lxg_path (UID ctx) @ [''router.pid'']) = (f1, e1)" "router_place (UID ctx) f1"
    "lookup f1 = (lookup f)(shared_dir (UID ctx) @ [''router.pid''] := None)" "mounts f1 = mounts f" "faults f1 = faults f"
    using place_remove [OF assms(2)] by blast
  have "Router_cleanup f (NewRouter ctx) = stop_listening f1 (NewRouter ctx)"
    by (simp add: Router_cleanup_def router_names router_comps [OF assms(1)] 1(1))
  with 1 stop_listening_gone [OF assms(1) 1(2)]
  show "lookup (Router_cleanup f (NewRouter ctx)) = (lookup f)(socket_file (UID ctx) := None, pid_file (UID ctx) := None)"
    "mounts (Router_cleanup f (NewRouter ctx)) = mounts f"
    by (simp_all add: pid_file_def socket_file_def fun_upd_twist)
qed

section \<open>The preparation\<close>

text \<open>What it leaves, by the call that fails.\<close>

definition prepare_fails :: "string \<Rightarrow> 'a fs_scheme \<Rightarrow> bool" where
  "prepare_fails uid f \<longleftrightarrow>
     faults f OpListen (lxg_path uid @ [''router'']) \<noteq> None \<or> faults f OpWrite (lxg_path uid @ [''router.pid'']) \<noteq> None \<or>
     faults f OpChmod (lxg_path uid @ [''router'']) \<noteq> None"

lemma Router_prepare_exact:
  assumes uid: "component_ok (UID ctx)" and place: "router_place (UID ctx) f"
  obtains (fails) f' e where "Router_prepare pid f (NewRouter ctx) = (f', Some e)" and "prepare_fails (UID ctx) f"
      and "mounts f' = mounts f" and "lookup f' (socket_file (UID ctx)) = None"
      and "lookup f' (pid_file (UID ctx)) \<in> {None, lookup f (pid_file (UID ctx))}"
      and "\<And>q. q \<noteq> socket_file (UID ctx) \<Longrightarrow> q \<noteq> pid_file (UID ctx) \<Longrightarrow> lookup f' q = lookup f q"
  | (works) f' where "Router_prepare pid f (NewRouter ctx) = (f', None)" and "\<not> prepare_fails (UID ctx) f"
      and "router_place (UID ctx) f'" and "mounts f' = mounts f"
      and "lookup f' = (lookup f)(socket_file (UID ctx) \<mapsto> Sock, pid_file (UID ctx) \<mapsto> Reg (show_nat pid @ [CHR 0x0A]))"
proof -
  let ?cs = "lxg_path (UID ctx)" and ?d = "shared_dir (UID ctx)" and ?t = "show_nat pid @ [CHR 0x0A]"
  let ?S = "?cs @ [''router'']" and ?P = "?cs @ [''router.pid'']"
  have n: "''router'' \<noteq> ''..''" "''router.pid'' \<noteq> ''..''" by simp_all
  have ne: "?d @ [''router''] \<noteq> ?d @ [''router.pid'']" by simp
  obtain f1 e1 where 1: "remove_entry f ?S = (f1, e1)" "\<not> blocking e1" "router_place (UID ctx) f1"
    "lookup f1 = (lookup f)(?d @ [''router''] := None)" "mounts f1 = mounts f" "faults f1 = faults f"
    using place_remove [OF place] by blast
  have D1: "dir_ok ?cs ?d f1" using 1(3) by (simp add: router_place_def)
  have md: "mkdir_all f1 (rev ?cs) = (f1, None)"
    using dir_ok_stat [OF D1] 1(3) by (cases "?cs" rule: rev_cases) (auto simp: router_place_def)
  note run = Router_prepare_def router_names(1,2) router_comps [OF uid] 1(1,2) md
  let ?f2 = "set_node (?d @ [''router'']) Sock f1"
  show thesis
  proof (cases "faults f OpListen ?S")
    case (Some t)
    then have li: "create_entry OpListen EADDRINUSE Sock f1 ?S = (f1, Some (Fault t))"
      by (simp add: create_entry_def dir_ok_resolve [OF D1 n(1)] 1(6))
    show thesis
      by (rule fails [of f1 "''listen router socket error: '' @ t"])
        (use Some li in \<open>simp_all add: run prepare_fails_def 1(4,5) socket_file_def pid_file_def\<close>)
  next
    case None
    then have li: "create_entry OpListen EADDRINUSE Sock f1 ?S = (?f2, None)"
      by (simp add: create_entry_def dir_ok_resolve [OF D1 n(1)] 1(4,6))
    have D2: "dir_ok ?cs ?d ?f2"
      using create_entry_done(1) [OF D1 n(1) li] by (intro dir_ok_change [OF D1]) simp_all
    have place2: "router_place (UID ctx) ?f2"
      using 1(3) D2 by (simp add: router_place_def socket_file_def pid_file_def)
    have pidn: "lookup ?f2 (?d @ [''router.pid'']) = None \<or> (\<exists>c. lookup ?f2 (?d @ [''router.pid'']) = Some (Reg c))"
      using place2 by (simp add: router_place_def pid_file_def)
    then have nolink: "lookup ?f2 (?d @ [''router.pid'']) \<noteq> Some (Symlink t)" for t by auto
    let ?f3 = "set_node (?d @ [''router.pid'']) (Reg ?t) ?f2"
    show thesis
    proof (cases "faults f OpWrite ?P")
      case (Some t)
      then have wr: "write_at ?f2 ?P ?t = (?f2, Some (Fault t))"
        using nolink by (simp add: write_at_def dir_ok_resolve [OF D2 n(2)] 1(6) del: lookup_set_node)
      note gone = stop_listening_gone [OF uid place2]
      show thesis
        by (rule fails [of "stop_listening ?f2 (NewRouter ctx)" "''write router pid file error: '' @ t"])
          (use Some li wr gone in \<open>simp_all add: run prepare_fails_def 1(4,5) socket_file_def pid_file_def\<close>)
    next
      case wok: None
      then have wr: "write_at ?f2 ?P ?t = (?f3, None)"
        using nolink pidn by (auto simp: write_at_def dir_ok_resolve [OF D2 n(2)] 1(6) simp del: lookup_set_node)
      have D3: "dir_ok ?cs ?d ?f3"
        using write_entry(1) [OF D2 n(2) nolink wr] by (intro dir_ok_change [OF D2]) simp_all
      have place3: "router_place (UID ctx) ?f3"
        using place2 D3 by (simp add: router_place_def socket_file_def pid_file_def)
      have l3: "lookup ?f3 = (lookup f)(?d @ [''router''] \<mapsto> Sock, ?d @ [''router.pid''] \<mapsto> Reg ?t)"
        using 1(4) by simp
      obtain f4 e4 where ch: "chmod_at ?f3 ?S 384 = (f4, e4)" by force
      have e4: "e4 = None \<longleftrightarrow> faults f OpChmod ?S = None"
        using ch by (auto simp: chmod_at_def dir_ok_resolve [OF D3 n(1)] 1(6) split: option.splits)
      have l4: "lookup f4 = lookup ?f3" "mounts f4 = mounts ?f3" "faults f4 = faults ?f3"
        using chmod_kept [of ?f3 ?S 384] chmod_mounts [of ?f3 ?S 384] faults_kept(4) [of ?f3 ?S 384] ch by simp_all
      have "fs_ok f4" using fs_ok_chmod [OF dir_ok_fs_ok [OF D3], of ?S 384] ch by simp
      with D3 l4(1) have D4: "dir_ok ?cs ?d f4" by (simp add: dir_ok_def)
      have place4: "router_place (UID ctx) f4"
        using place3 D4 l4 unfolding router_place_def by simp
      note gone = Router_cleanup_gone [OF uid place4]
      show thesis
      proof (cases e4)
        case ok: None
        show thesis
          by (rule works [of f4])
            (use ok None wok li wr ch e4 place4 l3 l4 in \<open>simp_all add: run prepare_fails_def 1(5) socket_file_def pid_file_def\<close>)
      next
        case (Some e)
        show thesis
          by (rule fails [of "Router_cleanup f4 (NewRouter ctx)" "''chmod router socket error: '' @ errno_text e"])
            (use Some None wok li wr ch e4 gone l3 l4 in \<open>simp_all add: run prepare_fails_def 1(5) socket_file_def pid_file_def\<close>)
      qed
    qed
  qed
qed

section \<open>The accept loop\<close>

definition connections :: "'c accept list \<Rightarrow> 'c list" where
  "connections accepts = concat (map (\<lambda>a. case a of Conn c \<Rightarrow> [c] | _ \<Rightarrow> []) accepts)"

lemma accept_loop_result:
  "accept_loop accepts =
     (connections (takeWhile (\<lambda>a. a \<noteq> AcceptFailed True) accepts), AcceptFailed True \<in> set accepts)"
  by (induction accepts) (auto simp: connections_def split: accept.split)

end
