(* ===== verification/Host_Lxc.thy ===== *)
theory Host_Lxc
  imports Command_Exec Go_Text
begin

text \<open>
  The \<open>lxc\<close> front end of \<open>host/lxc\<close>: the status of a container and the loops that start, stop
  and restart it (\<open>instance.go\<close>), profiles (\<open>profile.go\<close>), \<open>lxg run\<close> (\<open>command.go\<close>) and the set-up
  of a container (\<open>setup.go\<close>). The \<open>lxc\<close> program is the runner. The loops have no bound in the
  source, so they are partial functions: \<open>None\<close> means that they never return. Sleeping between
  two polls and progress messages are not modelled.
\<close>

definition lxc :: "string list \<Rightarrow> process" where
  "lxc args = \<lparr>prog = ''lxc'', pargs = args, pstdin = None\<rparr>"

section \<open>instance.go\<close>

text \<open>
  \<open>regexp.MustCompile(`Status:\s+([a-zA-Z]+)`)\<close> with \<open>FindStringSubmatch\<close>: the first group of the
  leftmost match. The three parts of the pattern have no character in common where they meet,
  so greedy matching needs no backtracking.
\<close>

definition is_blank :: "char \<Rightarrow> bool" where
  "is_blank c \<longleftrightarrow> c \<in> {CHR 0x09, CHR 0x0A, CHR 0x0C, CHR 0x0D, CHR '' ''}"

definition is_letter :: "char \<Rightarrow> bool" where
  "is_letter c \<longleftrightarrow> (let n = of_char c :: nat in 97 \<le> n \<and> n \<le> 122 \<or> 65 \<le> n \<and> n \<le> 90)"

definition status_here :: "string \<Rightarrow> string option" where
  "status_here s =
     (if HasPrefix s ''Status:'' then
        let rest = drop 7 s; name = takeWhile is_letter (dropWhile is_blank rest)
        in if takeWhile is_blank rest \<noteq> [] \<and> name \<noteq> [] then Some name else None
      else None)"

fun find_status :: "string \<Rightarrow> string option" where
  "find_status [] = None"
| "find_status (c # s) = (case status_here (c # s) of Some n \<Rightarrow> Some n | None \<Rightarrow> find_status s)"

definition ContainerStatus :: "'w runner \<Rightarrow> 'w host \<Rightarrow> Context \<Rightarrow> 'w host \<times> (string + string)" where
  "ContainerStatus run h ctx =
     (case Execute run h (lxc [''info'', Container ctx]) of
        (h, result, Some err) \<Rightarrow> (h, Inl (''status error: '' @ err))
      | (h, result, None) \<Rightarrow>
          if Contains (Error result) ''Instance not found''
          then (h, Inl (''status error: container '' @ Container ctx @ '' not found''))
          else if 1 \<le> ExitCode result then (h, Inl (''status error: '' @ Error result))
          else (case find_status (Output result) of
                  Some name \<Rightarrow> (h, Inr (map upper name))
                | None \<Rightarrow> (h, Inr ''UNKNOWN'')))"

text \<open>
  \<open>StartContainer\<close> and \<open>StopContainer\<close> are the same loop with other words: poll the status,
  return if it is the wanted one, else run the verb and poll again.
\<close>

partial_function (option) power_loop ::
  "string \<Rightarrow> string \<Rightarrow> string \<Rightarrow> 'w runner \<Rightarrow> 'w host \<Rightarrow> Context \<Rightarrow> ('w host \<times> string option) option" where
  [code]: "power_loop verb wanted err_prefix run h ctx =
     (case ContainerStatus run h ctx of
        (h, Inl err) \<Rightarrow> Some (h, Some (err_prefix @ err))
      | (h, Inr status) \<Rightarrow>
          if status = wanted then Some (h, None)
          else (case Execute run h (lxc [verb, Container ctx]) of
                  (h, result, Some err) \<Rightarrow> Some (h, Some (err_prefix @ err))
                | (h, result, None) \<Rightarrow>
                    if 1 \<le> ExitCode result then Some (h, Some (err_prefix @ Error result))
                    else power_loop verb wanted err_prefix run h ctx))"

definition StartContainer :: "'w runner \<Rightarrow> 'w host \<Rightarrow> Context \<Rightarrow> ('w host \<times> string option) option" where
  "StartContainer = power_loop ''start'' ''RUNNING'' ''start error: ''"

definition StopContainer :: "'w runner \<Rightarrow> 'w host \<Rightarrow> Context \<Rightarrow> ('w host \<times> string option) option" where
  "StopContainer = power_loop ''stop'' ''STOPPED'' ''stop error: ''"

definition RestartContainer :: "'w runner \<Rightarrow> 'w host \<Rightarrow> Context \<Rightarrow> ('w host \<times> string option) option" where
  "RestartContainer run h ctx =
     do {
       (h, err) \<leftarrow> StopContainer run h ctx;
       (case err of
          Some e \<Rightarrow> Some (h, Some (''restart error: '' @ e))
        | None \<Rightarrow> do {
            (h, err) \<leftarrow> StartContainer run h ctx;
            Some (h, map_option (\<lambda>e. ''restart error: '' @ e) err)
          })
     }"

section \<open>profile.go\<close>

text \<open>\<open>bytes.ReplaceAll\<close> for a search text that is not empty.\<close>

function ReplaceAll :: "string \<Rightarrow> string \<Rightarrow> string \<Rightarrow> string" where
  "ReplaceAll [] old new = []"
| "ReplaceAll (c # s) old new =
     (if old \<noteq> [] \<and> HasPrefix (c # s) old then new @ ReplaceAll (drop (length old) (c # s)) old new
      else c # ReplaceAll s old new)"
  by pat_completeness auto
termination
  by (relation "measure (\<lambda>(s, old, new). length s)") auto

definition profile_text :: "Context \<Rightarrow> string \<Rightarrow> string" where
  "profile_text ctx profileSpec =
     (let profileSpec = ReplaceAll profileSpec '':UID'' (UID ctx);
          profileSpec = ReplaceAll profileSpec '':USER'' (User ctx)
      in ReplaceAll profileSpec '':HOME'' (Home ctx))"

text \<open>
  The embedded directory \<open>profiles\<close> is a parameter: the text of a file, or the error of reading it.
\<close>

definition SetupProfile ::
  "(string \<Rightarrow> string + string) \<Rightarrow> 'w runner \<Rightarrow> 'w host \<Rightarrow> Context \<Rightarrow> 'w host \<times> (string + bool)" where
  "SetupProfile profiles run h ctx =
     (case Execute run h (lxc [''profile'', ''show'', Profile ctx]) of
        (h, result, Some err) \<Rightarrow> (h, Inl (''profile show error: '' @ err))
      | (h, result, None) \<Rightarrow>
          if 1 < ExitCode result then (h, Inl (''profile show error: '' @ Error result))
          else if ExitCode result = 0 then (h, Inr False)
          else (case profiles (''profiles/'' @ Profile ctx @ ''.yml'') of
                  Inl err \<Rightarrow> (h, Inl (''profile read error: '' @ err))
                | Inr profileSpec \<Rightarrow>
                    (case Execute run h \<lparr>prog = ''lxc'', pargs = [''profile'', ''create'', Profile ctx],
                         pstdin = Some (profile_text ctx profileSpec)\<rparr> of
                       (h, result, Some err) \<Rightarrow> (h, Inl (''profile create error: '' @ err))
                     | (h, result, None) \<Rightarrow>
                         if 1 \<le> ExitCode result then (h, Inl (''profile create error: '' @ Error result))
                         else (h, Inr True))))"

definition AttachProfile :: "'w runner \<Rightarrow> 'w host \<Rightarrow> Context \<Rightarrow> 'w host \<times> (string + bool)" where
  "AttachProfile run h ctx =
     (case Execute run h (lxc [''profile'', ''show'', Profile ctx]) of
        (h, result, Some err) \<Rightarrow> (h, Inl (''profile show error: '' @ err))
      | (h, result, None) \<Rightarrow>
          if 1 \<le> ExitCode result then (h, Inl (''profile show error: '' @ Error result))
          else if Contains (Output result) (''/1.0/instances/'' @ Container ctx) then (h, Inr False)
          else (case Execute run h (lxc [''profile'', ''add'', Container ctx, Profile ctx]) of
                  (h, result, Some err) \<Rightarrow> (h, Inl (''profile add error: '' @ err))
                | (h, result, None) \<Rightarrow>
                    if 1 \<le> ExitCode result then (h, Inl (''profile add error: '' @ Error result))
                    else (h, Inr True)))"

section \<open>command.go and setup.go\<close>

definition RunCommand :: "'w runner \<Rightarrow> 'w host \<Rightarrow> Context \<Rightarrow> ('w host \<times> string option) option" where
  "RunCommand run h ctx =
     do {
       (h, err) \<leftarrow> StartContainer run h ctx;
       (case err of
          Some e \<Rightarrow> Some (h, Some (''container error: '' @ e))
        | None \<Rightarrow>
            let (h, err) = cmd_Run run h (lxc ([''exec'', Container ctx, ''--'', ''sudo'', ''-i'', ''-u'',
              ''#'' @ UID ctx] @ Args ctx))
            in Some (h, map_option (\<lambda>e. ''run command error: '' @ e) err))
     }"

definition setup_command :: "Context \<Rightarrow> process" where
  "setup_command ctx = lxc [''exec'', Container ctx, ''--'', ''/usr/local/bin/lxg'', ''container'', ''setup'',
     ''--from-host'', ''--'' @ Profile ctx]"

definition lxc_Setup ::
  "(string \<Rightarrow> string + string) \<Rightarrow> 'w runner \<Rightarrow> 'w host \<Rightarrow> Context \<Rightarrow> ('w host \<times> string option) option" where
  "lxc_Setup profiles run h ctx =
     (case SetupProfile profiles run h ctx of
        (h, Inl err) \<Rightarrow> Some (h, Some (''profile setup error: '' @ err))
      | (h, Inr created) \<Rightarrow>
          (case AttachProfile run h ctx of
             (h, Inl err) \<Rightarrow> Some (h, Some (''profile attach error: '' @ err))
           | (h, Inr attached) \<Rightarrow> do {
               (h, err) \<leftarrow> (if attached then StopContainer run h ctx else Some (h, None));
               (case err of
                  Some e \<Rightarrow> Some (h, Some (''profile attach error: '' @ e))
                | None \<Rightarrow> do {
                    (h, err) \<leftarrow> StartContainer run h ctx;
                    (case err of
                       Some e \<Rightarrow> Some (h, Some (''container error: '' @ e))
                     | None \<Rightarrow>
                         (case cmd_Run run h (setup_command ctx) of
                            (h, Some e) \<Rightarrow> Some (h, Some (''container error: '' @ e))
                          | (h, None) \<Rightarrow> do {
                              (h, err) \<leftarrow> RestartContainer run h ctx;
                              Some (h, map_option (\<lambda>e. ''container error: '' @ e) err)
                            }))
                  })
             }))"

section \<open>What a status poll says\<close>

text \<open>\<open>ContainerStatus\<close> as a function of how \<open>lxc info\<close> ended.\<close>

definition status_of :: "string \<Rightarrow> outcome \<Rightarrow> string + string" where
  "status_of name oc =
     (case execute_result oc of
        (result, Some err) \<Rightarrow> Inl (''status error: '' @ err)
      | (result, None) \<Rightarrow>
          if Contains (Error result) ''Instance not found''
          then Inl (''status error: container '' @ name @ '' not found'')
          else if 1 \<le> ExitCode result then Inl (''status error: '' @ Error result)
          else Inr (case find_status (Output result) of Some n \<Rightarrow> map upper n | None \<Rightarrow> ''UNKNOWN''))"

text \<open>A verb succeeded: the process was waited for and its code is at most 0.\<close>

definition succeeded :: "outcome \<Rightarrow> bool" where
  "succeeded oc \<longleftrightarrow> (case execute_result oc of (result, err) \<Rightarrow> err = None \<and> ExitCode result < 1)"

definition failure_text :: "outcome \<Rightarrow> string" where
  "failure_text oc = (case execute_result oc of (result, Some err) \<Rightarrow> err | (result, None) \<Rightarrow> Error result)"

lemma ContainerStatus_of:
  "ContainerStatus run h ctx =
     (let (h, oc) = run_process run h (lxc [''info'', Container ctx]) in (h, status_of (Container ctx) oc))"
  by (auto simp: ContainerStatus_def status_of_def Execute_def Let_def split: prod.splits option.splits)

text \<open>One turn of a power loop, over what the two processes did.\<close>

definition power_turn ::
  "string \<Rightarrow> string \<Rightarrow> string \<Rightarrow> ('w host \<Rightarrow> ('w host \<times> string option) option) \<Rightarrow> 'w runner \<Rightarrow> 'w host \<Rightarrow> string
     \<Rightarrow> ('w host \<times> string option) option" where
  "power_turn verb wanted pre again run h c =
     (let (h1, oc) = run_process run h (lxc [''info'', c])
      in case status_of c oc of
           Inl err \<Rightarrow> Some (h1, Some (pre @ err))
         | Inr status \<Rightarrow>
             if status = wanted then Some (h1, None)
             else (let (h2, oc) = run_process run h1 (lxc [verb, c])
                   in if succeeded oc then again h2 else Some (h2, Some (pre @ failure_text oc))))"

lemma power_turn_body:
  "(case ContainerStatus run h ctx of
        (h, Inl err) \<Rightarrow> Some (h, Some (pre @ err))
      | (h, Inr status) \<Rightarrow>
          if status = wanted then Some (h, None)
          else (case Execute run h (lxc [verb, Container ctx]) of
                  (h, result, Some err) \<Rightarrow> Some (h, Some (pre @ err))
                | (h, result, None) \<Rightarrow>
                    if 1 \<le> ExitCode result then Some (h, Some (pre @ Error result)) else again h))
   = power_turn verb wanted pre again run h (Container ctx)"
  by (auto simp: ContainerStatus_of power_turn_def Execute_def succeeded_def failure_text_def Let_def not_le
      split: prod.splits sum.splits option.splits)

lemma power_loop_step:
  "power_loop verb wanted pre run h ctx =
     power_turn verb wanted pre (\<lambda>h. power_loop verb wanted pre run h ctx) run h (Container ctx)"
  by (subst power_loop.simps) (rule power_turn_body)

text \<open>The status text is the first word after \<open>Status:\<close> and some space.\<close>

lemma status_here_sound:
  assumes "status_here s = Some n"
  obtains ws post where "s = ''Status:'' @ ws @ n @ post" and "ws \<noteq> []" and "n \<noteq> []"
    and "list_all is_blank ws" and "list_all is_letter n"
proof -
  obtain rest where s: "s = ''Status:'' @ rest"
    using assms by (auto simp: status_here_def HasPrefix_iff prefix_def split: if_splits)
  define ws where "ws = takeWhile is_blank rest"
  have n: "n = takeWhile is_letter (dropWhile is_blank rest)" and ne: "ws \<noteq> []" "n \<noteq> []"
    using assms by (auto simp: status_here_def s ws_def Let_def split: if_splits)
  have "rest = ws @ n @ dropWhile is_letter (dropWhile is_blank rest)"
    by (simp add: n ws_def)
  moreover have "list_all is_blank ws" "list_all is_letter n"
    by (auto simp: n ws_def list_all_iff dest: set_takeWhileD)
  ultimately show thesis using that ne s by metis
qed

lemma find_status_sound:
  "find_status s = Some n \<Longrightarrow> \<exists>pre ws post. s = pre @ ''Status:'' @ ws @ n @ post \<and> ws \<noteq> [] \<and> n \<noteq> []
     \<and> list_all is_blank ws \<and> list_all is_letter n"
proof (induction s)
  case (Cons c s)
  show ?case
  proof (cases "status_here (c # s)")
    case None
    with Cons.prems have "find_status s = Some n" by simp
    from Cons.IH [OF this] show ?thesis by (metis append_Cons)
  next
    case (Some m)
    with Cons.prems have "status_here (c # s) = Some n" by simp
    then show ?thesis by (elim status_here_sound) (metis append_Nil)
  qed
qed simp

section \<open>The power loops\<close>

text \<open>
  What a loop runs: rounds of a poll and the verb, then a last poll, and the verb once more only
  if it failed. The loop returns without an error only after a poll that reported the wanted
  status.
\<close>

definition loop_trace :: "string \<Rightarrow> string \<Rightarrow> 'w runner \<Rightarrow> string \<Rightarrow> 'w host \<Rightarrow> 'w host \<times> string option \<Rightarrow> bool" where
  "loop_trace verb wanted run c h r \<longleftrightarrow>
     (\<exists>n tail. runs (fst r) = runs h @ concat (replicate n [lxc [''info'', c], lxc [verb, c]]) @ tail \<and>
        (if snd r = None
         then tail = [lxc [''info'', c]] \<and>
           (\<exists>w oc. run w (lxc [''info'', c]) = (world (fst r), oc) \<and> status_of c oc = Inr wanted)
         else tail = [lxc [''info'', c]] \<or> tail = [lxc [''info'', c], lxc [verb, c]]))"

lemma loop_traceI:
  assumes "runs (fst r) = runs h @ concat (replicate n [lxc [''info'', c], lxc [verb, c]]) @ tail"
    and "if snd r = None
         then tail = [lxc [''info'', c]] \<and>
           (\<exists>w oc. run w (lxc [''info'', c]) = (world (fst r), oc) \<and> status_of c oc = Inr wanted)
         else tail = [lxc [''info'', c]] \<or> tail = [lxc [''info'', c], lxc [verb, c]]"
  shows "loop_trace verb wanted run c h r"
  using assms unfolding loop_trace_def by blast

lemma loop_trace_round:
  assumes "loop_trace verb wanted run c h2 r" and r2: "runs h2 = runs h @ [lxc [''info'', c], lxc [verb, c]]"
  shows "loop_trace verb wanted run c h r"
  using assms(1) unfolding loop_trace_def
proof (elim exE conjE)
  fix n tail
  assume "runs (fst r) = runs h2 @ concat (replicate n [lxc [''info'', c], lxc [verb, c]]) @ tail"
  then have "runs (fst r) = runs h @ concat (replicate (Suc n) [lxc [''info'', c], lxc [verb, c]]) @ tail"
    by (simp add: r2)
  moreover assume "if snd r = None
     then tail = [lxc [''info'', c]] \<and>
       (\<exists>w oc. run w (lxc [''info'', c]) = (world (fst r), oc) \<and> status_of c oc = Inr wanted)
     else tail = [lxc [''info'', c]] \<or> tail = [lxc [''info'', c], lxc [verb, c]]"
  ultimately show "\<exists>n tail. runs (fst r) = runs h @ concat (replicate n [lxc [''info'', c], lxc [verb, c]]) @ tail \<and>
     (if snd r = None
      then tail = [lxc [''info'', c]] \<and>
        (\<exists>w oc. run w (lxc [''info'', c]) = (world (fst r), oc) \<and> status_of c oc = Inr wanted)
      else tail = [lxc [''info'', c]] \<or> tail = [lxc [''info'', c], lxc [verb, c]])"
    by (intro exI conjI)
qed

lemma loop_trace_turn:
  assumes "power_turn verb wanted pre again run h c = Some r"
    and IH: "\<And>h1 r. again h1 = Some r \<Longrightarrow> loop_trace verb wanted run c h1 r"
  shows "loop_trace verb wanted run c h r"
proof -
  obtain h1 oc1 where poll: "run_process run h (lxc [''info'', c]) = (h1, oc1)" by force
  obtain h2 oc2 where act: "run_process run h1 (lxc [verb, c]) = (h2, oc2)" by force
  have r1: "runs h1 = runs h @ [lxc [''info'', c]]" and w1: "run (world h) (lxc [''info'', c]) = (world h1, oc1)"
    using poll by (auto simp: run_process_def split: prod.splits)
  have r2: "runs h2 = runs h @ [lxc [''info'', c], lxc [verb, c]]"
    using runs_run_process [of run h1 "lxc [verb, c]"] act r1 by simp
  note turn = assms(1) [unfolded power_turn_def poll Let_def prod.case act]
  consider (poll_err) e where "r = (h1, Some (pre @ e))"
    | (done_) "status_of c oc1 = Inr wanted" "r = (h1, None)"
    | (act_err) "r = (h2, Some (pre @ failure_text oc2))"
    | (again) "again h2 = Some r"
  proof (cases "status_of c oc1")
    case (Inl e)
    with turn that(1) show thesis by auto
  next
    case (Inr status)
    note turn = turn [unfolded Inr sum.case]
    show thesis
    proof (cases "status = wanted")
      case True
      with turn Inr show thesis by (intro that(2)) auto
    next
      case False
      with turn show thesis by (cases "succeeded oc2") (auto intro: that(3,4))
    qed
  qed
  then show ?thesis
  proof cases
    case poll_err
    then show ?thesis by (intro loop_traceI [where n = 0 and tail = "[lxc [''info'', c]]"]) (simp_all add: r1)
  next
    case done_
    have "\<exists>w oc. run w (lxc [''info'', c]) = (world h1, oc) \<and> status_of c oc = Inr wanted"
      using w1 done_(1) by blast
    with done_(2) show ?thesis
      by (intro loop_traceI [where n = 0 and tail = "[lxc [''info'', c]]"]) (simp_all add: r1)
  next
    case act_err
    then show ?thesis
      by (intro loop_traceI [where n = 0 and tail = "[lxc [''info'', c], lxc [verb, c]]"]) (simp_all add: r2)
  next
    case again
    from IH [OF this] r2 show ?thesis by (rule loop_trace_round)
  qed
qed

lemma power_loop_trace:
  "power_loop verb wanted pre run h ctx = Some r \<Longrightarrow> loop_trace verb wanted run (Container ctx) h r"
  by (erule power_loop.raw_induct [rotated])
    (rule loop_trace_turn, simp only: power_turn_body, blast)

text \<open>
  The loops end when a rank of the world says how far the container is from the wanted status: a
  poll does not raise it, a successful verb lowers it or brings it to 0, and at 0 a poll that
  reports a status reports the wanted one.
\<close>

definition power_rank :: "string \<Rightarrow> string \<Rightarrow> 'w runner \<Rightarrow> string \<Rightarrow> ('w \<Rightarrow> nat) \<Rightarrow> bool" where
  "power_rank verb wanted run c rank \<longleftrightarrow>
     (\<forall>w w' oc. run w (lxc [''info'', c]) = (w', oc) \<longrightarrow>
        rank w' \<le> rank w \<and> (rank w = 0 \<longrightarrow> (\<forall>s. status_of c oc = Inr s \<longrightarrow> s = wanted))) \<and>
     (\<forall>w w' oc. run w (lxc [verb, c]) = (w', oc) \<longrightarrow> succeeded oc \<longrightarrow> rank w' < rank w \<or> rank w' = 0)"

lemma not_Inl: "(\<forall>a. x \<noteq> Inl a) \<longleftrightarrow> (\<exists>b. x = Inr b)"
  by (cases x) auto

text \<open>No process of the loop fails.\<close>

definition power_works :: "string \<Rightarrow> 'w runner \<Rightarrow> string \<Rightarrow> bool" where
  "power_works verb run c \<longleftrightarrow>
     (\<forall>w. \<not> isl (status_of c (snd (run w (lxc [''info'', c])))) \<and> succeeded (snd (run w (lxc [verb, c]))))"

lemma power_loop_returns:
  assumes "power_rank verb wanted run (Container ctx) rank"
  shows "\<exists>h' err. power_loop verb wanted pre run h ctx = Some (h', err) \<and>
    (power_works verb run (Container ctx) \<longrightarrow> err = None)"
proof (induction "rank (world h)" arbitrary: h rule: less_induct)
  case less
  let ?c = "Container ctx"
  obtain w1 oc1 where poll: "run (world h) (lxc [''info'', ?c]) = (w1, oc1)" by force
  obtain w2 oc2 where act: "run w1 (lxc [verb, ?c]) = (w2, oc2)" by force
  let ?h1 = "\<lparr>runs = runs h @ [lxc [''info'', ?c]], world = w1\<rparr>"
  let ?h2 = "\<lparr>runs = runs ?h1 @ [lxc [verb, ?c]], world = w2\<rparr>"
  have step: "power_loop verb wanted pre run h ctx =
     (case status_of ?c oc1 of
        Inl err \<Rightarrow> Some (?h1, Some (pre @ err))
      | Inr status \<Rightarrow>
          if status = wanted then Some (?h1, None)
          else if succeeded oc2 then power_loop verb wanted pre run ?h2 ctx
          else Some (?h2, Some (pre @ failure_text oc2)))"
    by (subst power_loop_step) (simp add: power_turn_def run_process_def poll act split: sum.split)
  have works: "power_works verb run ?c \<Longrightarrow> (\<exists>s. status_of ?c oc1 = Inr s) \<and> succeeded oc2"
    using poll act
    unfolding power_works_def isl_def by (metis not_Inl snd_conv)
  have ranks: "rank w1 \<le> rank (world h)" "succeeded oc2 \<Longrightarrow> rank w2 < rank w1 \<or> rank w2 = 0"
    "\<And>s. rank (world h) = 0 \<Longrightarrow> status_of ?c oc1 = Inr s \<Longrightarrow> s = wanted"
    using assms [unfolded power_rank_def, THEN conjunct1] assms [unfolded power_rank_def, THEN conjunct2] poll act
    by metis+
  show ?case
  proof (cases "status_of ?c oc1")
    case (Inl e)
    show ?thesis unfolding step using works Inl by auto
  next
    case (Inr s)
    consider "s = wanted" | "s \<noteq> wanted" "succeeded oc2" | "s \<noteq> wanted" "\<not> succeeded oc2" by blast
    then show ?thesis
    proof cases
      case 1
      then show ?thesis unfolding step Inr by simp
    next
      case 2
      with ranks Inr have "rank (world ?h2) < rank (world h)" by fastforce
      from less [OF this] 2 show ?thesis unfolding step Inr by simp
    next
      case 3
      then show ?thesis unfolding step Inr using works by auto
    qed
  qed
qed

lemma RestartContainer_cases:
  assumes "StopContainer run h ctx = Some (h1, err1)"
    and "err1 = None \<Longrightarrow> StartContainer run h1 ctx = Some (h2, err2)"
  shows "RestartContainer run h ctx =
    (case err1 of Some e \<Rightarrow> Some (h1, Some (''restart error: '' @ e))
     | None \<Rightarrow> Some (h2, map_option (\<lambda>e. ''restart error: '' @ e) err2))"
  using assms by (cases err1) (auto simp: RestartContainer_def)

section \<open>Running a command\<close>

definition exec_command :: "Context \<Rightarrow> process" where
  "exec_command ctx = lxc ([''exec'', Container ctx, ''--'', ''sudo'', ''-i'', ''-u'', ''#'' @ UID ctx] @ Args ctx)"

lemma RunCommand_cases:
  "RunCommand run h ctx =
     (case StartContainer run h ctx of
        None \<Rightarrow> None
      | Some (h, Some e) \<Rightarrow> Some (h, Some (''container error: '' @ e))
      | Some (h, None) \<Rightarrow> Some (let (h, err) = cmd_Run run h (exec_command ctx)
          in (h, map_option (\<lambda>e. ''run command error: '' @ e) err)))"
  by (auto simp: RunCommand_def exec_command_def Let_def split: option.splits prod.splits Option.bind_splits)

lemma power_loop_done:
  assumes "power_loop verb wanted pre run h ctx = Some (h', None)"
  shows "\<exists>n w oc. runs h' = runs h @ concat (replicate n [lxc [''info'', Container ctx], lxc [verb, Container ctx]])
      @ [lxc [''info'', Container ctx]] \<and>
    run w (lxc [''info'', Container ctx]) = (world h', oc) \<and> status_of (Container ctx) oc = Inr wanted"
  using power_loop_trace [OF assms] by (auto simp: loop_trace_def)

lemma RestartContainer_done:
  assumes "RestartContainer run h ctx = Some (h', None)"
  obtains h1 where "StopContainer run h ctx = Some (h1, None)" and "StartContainer run h1 ctx = Some (h', None)"
  using assms by (auto simp: RestartContainer_def split: option.splits Option.bind_splits)

section \<open>Profile templates\<close>

text \<open>
  A profile file as its author means it: literal text with the three holes. In literal text a
  colon is never followed by \<open>U\<close> or \<open>H\<close>, and never ends the text.
\<close>

datatype segment = Lit string | UidHole | UserHole | HomeHole

fun colons_ok :: "string \<Rightarrow> bool" where
  "colons_ok [] = True"
| "colons_ok (c # s) = ((c = CHR '':'' \<longrightarrow> s \<noteq> [] \<and> hd s \<noteq> CHR ''U'' \<and> hd s \<noteq> CHR ''H'') \<and> colons_ok s)"

definition segment_ok :: "segment \<Rightarrow> bool" where
  "segment_ok s = (case s of Lit l \<Rightarrow> colons_ok l | _ \<Rightarrow> True)"

fun render :: "string \<Rightarrow> string \<Rightarrow> string \<Rightarrow> segment list \<Rightarrow> string" where
  "render u n h [] = []"
| "render u n h (Lit l # t) = l @ render u n h t"
| "render u n h (UidHole # t) = u @ render u n h t"
| "render u n h (UserHole # t) = n @ render u n h t"
| "render u n h (HomeHole # t) = h @ render u n h t"

lemma colons_ok_no_colon: "CHR '':'' \<notin> set s \<Longrightarrow> colons_ok s"
  by (induction s) auto

lemma ReplaceAll_literal:
  assumes "colons_ok l" and "d = CHR ''U'' \<or> d = CHR ''H''"
  shows "ReplaceAll (l @ s) (CHR '':'' # d # w) new = l @ ReplaceAll s (CHR '':'' # d # w) new"
  using assms(1)
proof (induction l)
  case (Cons c l)
  have "\<not> HasPrefix (c # l @ s) (CHR '':'' # d # w)"
    using Cons.prems assms(2) by (cases l) auto
  with Cons show ?case by auto
qed simp

lemma ReplaceAll_holes:
  "ReplaceAll ('':UID'' @ s) '':UID'' new = new @ ReplaceAll s '':UID'' new"
  "ReplaceAll ('':USER'' @ s) '':UID'' new = '':USER'' @ ReplaceAll s '':UID'' new"
  "ReplaceAll ('':HOME'' @ s) '':UID'' new = '':HOME'' @ ReplaceAll s '':UID'' new"
  "ReplaceAll ('':USER'' @ s) '':USER'' new = new @ ReplaceAll s '':USER'' new"
  "ReplaceAll ('':HOME'' @ s) '':USER'' new = '':HOME'' @ ReplaceAll s '':USER'' new"
  "ReplaceAll ('':HOME'' @ s) '':HOME'' new = new @ ReplaceAll s '':HOME'' new"
  by simp_all

lemma render_UID:
  "list_all segment_ok t \<Longrightarrow>
     ReplaceAll (render '':UID'' '':USER'' '':HOME'' t) '':UID'' u = render u '':USER'' '':HOME'' t"
proof (induction t)
  case (Cons s t)
  then show ?case
    by (cases s) (simp_all only: render.simps ReplaceAll_holes ReplaceAll_literal segment_ok_def segment.case
        list.pred_inject simp_thms)
qed simp

lemma render_USER:
  "list_all segment_ok t \<Longrightarrow> colons_ok u \<Longrightarrow>
     ReplaceAll (render u '':USER'' '':HOME'' t) '':USER'' n = render u n '':HOME'' t"
proof (induction t)
  case (Cons s t)
  then show ?case
    by (cases s) (simp_all only: render.simps ReplaceAll_holes ReplaceAll_literal segment_ok_def segment.case
        list.pred_inject simp_thms)
qed simp

lemma render_HOME:
  "list_all segment_ok t \<Longrightarrow> colons_ok u \<Longrightarrow> colons_ok n \<Longrightarrow>
     ReplaceAll (render u n '':HOME'' t) '':HOME'' h = render u n h t"
proof (induction t)
  case (Cons s t)
  then show ?case
    by (cases s) (simp_all only: render.simps ReplaceAll_holes ReplaceAll_literal segment_ok_def segment.case
        list.pred_inject simp_thms)
qed simp

lemma profile_text_render:
  assumes "list_all segment_ok t" and "CHR '':'' \<notin> set (UID ctx)" and "CHR '':'' \<notin> set (User ctx)"
  shows "profile_text ctx (render '':UID'' '':USER'' '':HOME'' t) = render (UID ctx) (User ctx) (Home ctx) t"
  using assms by (simp add: profile_text_def Let_def render_UID render_USER render_HOME colons_ok_no_colon del: ReplaceAll.simps)

section \<open>Attaching a profile\<close>

text \<open>
  The check for an existing attachment is a search for the container's name, so it also finds a
  container whose name only starts with it: with \<open>web2\<close> attached, \<open>web\<close> never is.
\<close>

lemma AttachProfile_by_prefix:
  assumes "run (world h) (lxc [''profile'', ''show'', Profile ctx]) = (w, Ran pid out err ExitedOk)"
    and "out = pre @ ''/1.0/instances/'' @ Container ctx @ suf"
  shows "AttachProfile run h ctx =
    (\<lparr>runs = runs h @ [lxc [''profile'', ''show'', Profile ctx]], world = w\<rparr>, Inr False)"
proof -
  have "out = pre @ (''/1.0/instances/'' @ Container ctx) @ suf" by (simp only: assms(2) append.assoc)
  then have "Contains out (''/1.0/instances/'' @ Container ctx)"
    by (simp only: Contains_iff sublist_appendI)
  then show ?thesis
    using assms(1) by (simp only: AttachProfile_def Execute_def run_process_def Let_def prod.case execute_result_simps
        option.case Result.select_convs if_True) simp
qed

end
