(* ===== verification/Host_Systemd.thy ===== *)
theory Host_Systemd
  imports Host_Lxc Go_Files
begin

text \<open>
  The listen service of the host: \<open>host/systemd/service.go\<close>, \<open>host/systemd/install.go\<close>, and
  \<open>Setup\<close> of \<open>host/setup.go\<close>, which installs it before it sets a container up. The world of the
  runner is a file system, so that \<open>systemctl\<close> and \<open>lxc\<close> may change it. The embedded unit file
  is a parameter, like the profiles.
\<close>

section \<open>service.go\<close>

definition systemctl :: "string list \<Rightarrow> process" where
  "systemctl args = \<lparr>prog = ''systemctl'', pargs = ''--user'' # args, pstdin = None\<rparr>"

definition ServicePath :: "string \<Rightarrow> string" where
  "ServicePath home = filepath_Join [home, ''.config'', ''systemd'', ''user'']"

definition IsServiceActive :: "'w runner \<Rightarrow> 'w host \<Rightarrow> string \<Rightarrow> 'w host \<times> (string + bool)" where
  "IsServiceActive run h serviceName =
     (case Execute run h (systemctl [''is-active'', ''--quiet'', serviceName]) of
        (h, result, Some err) \<Rightarrow> (h, Inl (''systemd service check error: '' @ err))
      | (h, result, None) \<Rightarrow> if ExitCode result = 0 then (h, Inr True) else (h, Inr False))"

definition EnableService :: "'w runner \<Rightarrow> 'w host \<Rightarrow> string \<Rightarrow> 'w host \<times> string option" where
  "EnableService run h serviceName =
     (case Execute run h (systemctl [''daemon-reload'']) of
        (h, result, Some err) \<Rightarrow> (h, Some (''systemd daemon reload error: '' @ err))
      | (h, result, None) \<Rightarrow>
          if 1 < ExitCode result then (h, Some (''systemd daemon reload error: '' @ Error result))
          else (case Execute run h (systemctl [''enable'', ''--now'', serviceName]) of
                  (h, result, Some err) \<Rightarrow> (h, Some (''systemd enable service error: '' @ err))
                | (h, result, None) \<Rightarrow>
                    if 1 < ExitCode result then (h, Some (''systemd enable service error: '' @ Error result))
                    else (h, None)))"

definition AddService ::
  "('a fs_scheme) runner \<Rightarrow> ('a fs_scheme) host \<Rightarrow> string \<Rightarrow> string \<Rightarrow> string \<Rightarrow> ('a fs_scheme) host \<times> string option" where
  "AddService run h serviceName path specs =
     (case MkdirAll (world h) (filepath_Dir path) of
        (f, Some e) \<Rightarrow> (h\<lparr>world := f\<rparr>, Some (''systemd create directory error: '' @ errno_text e))
      | (f, None) \<Rightarrow>
          (case WriteFile f path specs of
             (f, Some e) \<Rightarrow> (h\<lparr>world := f\<rparr>, Some (''systemd service write error: '' @ errno_text e))
           | (f, None) \<Rightarrow> EnableService run (h\<lparr>world := f\<rparr>) serviceName))"

section \<open>install.go and setup.go\<close>

definition listen_service :: string where
  "listen_service = ''lxg-listen.service''"

definition InstallListenService ::
  "(string \<Rightarrow> string + string) \<Rightarrow> ('a fs_scheme) runner \<Rightarrow> ('a fs_scheme) host \<Rightarrow> Context \<Rightarrow> ('a fs_scheme) host \<times> string option" where
  "InstallListenService services run h ctx =
     (case IsServiceActive run h listen_service of
        (h, Inl err) \<Rightarrow> (h, Some (''systemd service check error: '' @ err))
      | (h, Inr active) \<Rightarrow>
          if active then (h, None)
          else (case services ''services/listen.ini'' of
                  Inl err \<Rightarrow> (h, Some (''systemd service read error: '' @ err))
                | Inr serviceSpec \<Rightarrow>
                    let serviceFile = filepath_Join [ServicePath (Home ctx), listen_service]
                    in case AddService run h listen_service serviceFile serviceSpec of
                         (h, Some err) \<Rightarrow> (h, Some (''systemd error: '' @ err))
                       | (h, None) \<Rightarrow> (h, None)))"

definition host_Setup ::
  "(string \<Rightarrow> string + string) \<Rightarrow> (string \<Rightarrow> string + string) \<Rightarrow> ('a fs_scheme) runner \<Rightarrow> ('a fs_scheme) host
     \<Rightarrow> Context \<Rightarrow> (('a fs_scheme) host \<times> string option) option" where
  "host_Setup services profiles run h ctx =
     (case InstallListenService services run h ctx of
        (h, Some err) \<Rightarrow> Some (h, Some (''setup error: '' @ err))
      | (h, None) \<Rightarrow> do {
          (h, err) \<leftarrow> lxc_Setup profiles run h ctx;
          Some (h, map_option (\<lambda>e. ''setup error: '' @ e) err)
        })"

section \<open>What success means\<close>

text \<open>
  \<open>EnableService\<close> succeeds exactly when both calls ended with a code of at most 1, so a
  \<open>systemctl enable\<close> that fails with code 1 counts as a success.
\<close>

definition tolerated :: "outcome \<Rightarrow> bool" where
  "tolerated oc \<longleftrightarrow> (case execute_result oc of (result, err) \<Rightarrow> err = None \<and> ExitCode result \<le> 1)"

lemma EnableService_iff:
  assumes "run (world h) (systemctl [''daemon-reload'']) = (w1, oc1)"
    and "run w1 (systemctl [''enable'', ''--now'', name]) = (w2, oc2)"
  shows "snd (EnableService run h name) = None \<longleftrightarrow> tolerated oc1 \<and> tolerated oc2"
  using assms by (auto simp: EnableService_def Execute_def run_process_def tolerated_def split: prod.split option.split)

lemma enable_failure_ignored:
  assumes "run (world h) (systemctl [''daemon-reload'']) = (w1, Ran p1 o1 e1 ExitedOk)"
    and "run w1 (systemctl [''enable'', ''--now'', name]) = (w2, Ran p2 o2 e2 (Failed 1 t))"
  shows "snd (EnableService run h name) = None"
  using EnableService_iff [OF assms] by (simp add: tolerated_def)

end
