(* ===== verification/Host_Power.thy ===== *)
theory Host_Power
  imports Host_Lxc
begin

text \<open>
  What processes a function of the host runs, and in which worlds, as a relation: \<open>R w ps w'\<close> says
  that the processes \<open>ps\<close>, run in this order from the world \<open>w\<close>, have ended in the ways \<open>R\<close>
  asks for and left \<open>w'\<close>. The relations are composed like the functions that run them, and the
  runs of a power loop are an inductive relation, so a function can be shown to succeed exactly
  when such a run exists.
\<close>

section \<open>Runs of processes\<close>

type_synonym 'w script = "'w \<Rightarrow> process list \<Rightarrow> 'w \<Rightarrow> bool"

definition one_run :: "'w runner \<Rightarrow> process \<Rightarrow> (outcome \<Rightarrow> bool) \<Rightarrow> 'w script" where
  "one_run run p good w ps w' \<longleftrightarrow> (\<exists>oc. run w p = (w', oc) \<and> good oc \<and> ps = [p])"

definition then_run :: "'w script \<Rightarrow> 'w script \<Rightarrow> 'w script" where
  "then_run A B w ps w' \<longleftrightarrow> (\<exists>qs v rs. A w qs v \<and> B v rs w' \<and> ps = qs @ rs)"

text \<open>A host has gone through such a run.\<close>

definition goes :: "'w script \<Rightarrow> 'w host \<Rightarrow> 'w host \<Rightarrow> bool" where
  "goes R h h' \<longleftrightarrow> (\<exists>ps. R (world h) ps (world h') \<and> runs h' = runs h @ ps)"

lemma goes_then: "goes (then_run A B) h h' \<longleftrightarrow> (\<exists>g. goes A h g \<and> goes B g h')"
proof
  assume "goes (then_run A B) h h'"
  then obtain qs v rs where "A (world h) qs v" "B v rs (world h')" "runs h' = (runs h @ qs) @ rs"
    by (auto simp: goes_def then_run_def)
  then have "goes A h \<lparr>runs = runs h @ qs, world = v\<rparr> \<and> goes B \<lparr>runs = runs h @ qs, world = v\<rparr> h'"
    by (auto simp: goes_def)
  then show "\<exists>g. goes A h g \<and> goes B g h'" by blast
next
  assume "\<exists>g. goes A h g \<and> goes B g h'"
  then obtain g where "goes A h g" "goes B g h'" by blast
  then obtain qs rs where "A (world h) qs (world g)" "B (world g) rs (world h')" "runs h' = runs h @ qs @ rs"
    unfolding goes_def by (metis append.assoc)
  then show "goes (then_run A B) h h'" unfolding goes_def then_run_def by blast
qed

lemma goes_one: "goes (one_run run p good) h h' \<longleftrightarrow> (\<exists>oc. run_process run h p = (h', oc) \<and> good oc)"
  by (cases h') (auto simp: goes_def one_run_def run_process_def split: prod.splits)

text \<open>Ways to end, as the callers of \<open>Execute\<close> and of \<open>cmd.Run\<close> see them.\<close>

definition exits :: "outcome \<Rightarrow> int \<Rightarrow> bool" where
  "exits oc code \<longleftrightarrow> (\<exists>r. execute_result oc = (r, None) \<and> ExitCode r = code)"

definition output_text :: "outcome \<Rightarrow> string" where
  "output_text oc = Output (fst (execute_result oc))"

definition clean :: "outcome \<Rightarrow> bool" where
  "clean oc \<longleftrightarrow> (\<exists>pid out err. oc = Ran pid out err ExitedOk)"

lemma cmd_Run_clean: "cmd_Run run h p = (h', None) \<longleftrightarrow> goes (one_run run p clean) h h'"
  by (auto simp: goes_one cmd_Run_def clean_def split: prod.splits outcome.splits wait_end.splits)

lemma cmd_Run_error:
  "cmd_Run run h p = (h', err) \<longleftrightarrow> (\<exists>oc. run_process run h p = (h', oc) \<and> (err = None \<longleftrightarrow> clean oc) \<and> snd (cmd_Run run h p) = err)"
  by (auto simp: cmd_Run_def clean_def split: prod.splits outcome.splits wait_end.splits)

section \<open>Runs of a power loop\<close>

text \<open>
  Polls and verbs until a poll reports the wanted status, or until one of them fails; the last
  argument says which.
\<close>

inductive power_run :: "'w runner \<Rightarrow> string \<Rightarrow> string \<Rightarrow> string \<Rightarrow> 'w \<Rightarrow> process list \<Rightarrow> 'w \<Rightarrow> bool \<Rightarrow> bool"
  for run c verb wanted where
  seen: "\<lbrakk>run w (lxc [''info'', c]) = (w', oc); status_of c oc = Inr wanted\<rbrakk> \<Longrightarrow>
    power_run run c verb wanted w [lxc [''info'', c]] w' True"
| poll_fails: "\<lbrakk>run w (lxc [''info'', c]) = (w', oc); status_of c oc = Inl e\<rbrakk> \<Longrightarrow>
    power_run run c verb wanted w [lxc [''info'', c]] w' False"
| verb_fails: "\<lbrakk>run w (lxc [''info'', c]) = (w1, oc); status_of c oc = Inr status; status \<noteq> wanted;
    run w1 (lxc [verb, c]) = (w', oc'); \<not> succeeded oc'\<rbrakk> \<Longrightarrow>
    power_run run c verb wanted w [lxc [''info'', c], lxc [verb, c]] w' False"
| again: "\<lbrakk>run w (lxc [''info'', c]) = (w1, oc); status_of c oc = Inr status; status \<noteq> wanted;
    run w1 (lxc [verb, c]) = (w2, oc'); succeeded oc'; power_run run c verb wanted w2 ps w' ok\<rbrakk> \<Longrightarrow>
    power_run run c verb wanted w (lxc [''info'', c] # lxc [verb, c] # ps) w' ok"

definition powered :: "'w runner \<Rightarrow> string \<Rightarrow> string \<Rightarrow> string \<Rightarrow> 'w script" where
  "powered run c verb wanted w ps w' \<longleftrightarrow> power_run run c verb wanted w ps w' True"

definition power_fails :: "'w runner \<Rightarrow> string \<Rightarrow> string \<Rightarrow> string \<Rightarrow> 'w script" where
  "power_fails run c verb wanted w ps w' \<longleftrightarrow> power_run run c verb wanted w ps w' False"

definition power_goes :: "'w runner \<Rightarrow> string \<Rightarrow> string \<Rightarrow> string \<Rightarrow> 'w host \<Rightarrow> 'w host \<times> string option \<Rightarrow> bool" where
  "power_goes run c verb wanted h r \<longleftrightarrow>
     goes (\<lambda>w ps w'. power_run run c verb wanted w ps w' (snd r = None)) h (fst r)"

lemma power_goes_turn:
  assumes "power_turn verb wanted pre again run h c = Some r"
    and IH: "\<And>h1 r. again h1 = Some r \<Longrightarrow> power_goes run c verb wanted h1 r"
  shows "power_goes run c verb wanted h r"
proof -
  obtain h1 oc1 where poll: "run_process run h (lxc [''info'', c]) = (h1, oc1)" by force
  obtain h2 oc2 where act: "run_process run h1 (lxc [verb, c]) = (h2, oc2)" by force
  have r: "runs h1 = runs h @ [lxc [''info'', c]]" "run (world h) (lxc [''info'', c]) = (world h1, oc1)"
    "runs h2 = runs h1 @ [lxc [verb, c]]" "run (world h1) (lxc [verb, c]) = (world h2, oc2)"
    using poll act by (auto simp: run_process_def split: prod.splits)
  note turn = assms(1) [unfolded power_turn_def poll Let_def prod.case act]
  show ?thesis
  proof (cases "status_of c oc1")
    case (Inl e)
    then have "r = (h1, Some (pre @ e))" using turn by simp
    then show ?thesis using power_run.poll_fails [where run = run, OF r(2) Inl] r(1) by (auto simp: power_goes_def goes_def)
  next
    case (Inr status)
    note turn = turn [unfolded Inr sum.case]
    consider "status = wanted" | "status \<noteq> wanted" "\<not> succeeded oc2" | (again) "status \<noteq> wanted" "succeeded oc2" by blast
    then show ?thesis
    proof cases
      case 1
      with turn Inr show ?thesis using power_run.seen [where run = run, OF r(2)] r(1) by (auto simp: power_goes_def goes_def)
    next
      case 2
      with turn have "r = (h2, Some (pre @ failure_text oc2))" by simp
      then show ?thesis using power_run.verb_fails [where run = run, OF r(2) Inr 2(1) r(4) 2(2)] r(1,3) by (auto simp: power_goes_def goes_def)
    next
      case again
      with turn have "power_goes run c verb wanted h2 r" using IH by simp
      then obtain ps where "power_run run c verb wanted (world h2) ps (world (fst r)) (snd r = None)" "runs (fst r) = runs h2 @ ps"
        by (auto simp: power_goes_def goes_def)
      then show ?thesis using power_run.again [where run = run, OF r(2) Inr again(1) r(4) again(2)] r(1,3)
        by (fastforce simp: power_goes_def goes_def)
    qed
  qed
qed

lemma power_loop_goes: "power_loop verb wanted pre run h ctx = Some r \<Longrightarrow> power_goes run (Container ctx) verb wanted h r"
  by (erule power_loop.raw_induct [rotated])
    (rule power_goes_turn, simp only: power_turn_body, blast)

lemma power_run_loop:
  assumes "power_run run (Container ctx) verb wanted w ps w' ok" and "ok"
  shows "power_loop verb wanted pre run \<lparr>runs = qs, world = w\<rparr> ctx = Some (\<lparr>runs = qs @ ps, world = w'\<rparr>, None)"
  using assms
  by (induction arbitrary: qs) (subst power_loop_step, simp add: power_turn_def run_process_def)+

text \<open>A power loop succeeds exactly when there is a run that ends with the wanted status.\<close>

lemma power_loop_powered:
  "power_loop verb wanted pre run h ctx = Some (h', None) \<longleftrightarrow> goes (powered run (Container ctx) verb wanted) h h'"
proof
  assume "power_loop verb wanted pre run h ctx = Some (h', None)"
  from power_loop_goes [OF this] show "goes (powered run (Container ctx) verb wanted) h h'"
    by (simp add: power_goes_def goes_def powered_def)
next
  assume "goes (powered run (Container ctx) verb wanted) h h'"
  then obtain ps where "power_run run (Container ctx) verb wanted (world h) ps (world h') True" "runs h' = runs h @ ps"
    by (auto simp: goes_def powered_def)
  from power_run_loop [OF this(1), of pre "runs h"] this(2) show "power_loop verb wanted pre run h ctx = Some (h', None)"
    by (cases h; cases h') simp
qed

lemma power_loop_fails:
  "power_loop verb wanted pre run h ctx = Some (h', Some e) \<Longrightarrow> goes (power_fails run (Container ctx) verb wanted) h h'"
  by (drule power_loop_goes) (simp add: power_goes_def goes_def power_fails_def)

lemmas StartContainer_powered = power_loop_powered [where verb = "''start''" and wanted = "''RUNNING''" and pre = "''start error: ''",
    folded StartContainer_def]

lemmas StopContainer_powered = power_loop_powered [where verb = "''stop''" and wanted = "''STOPPED''" and pre = "''stop error: ''",
    folded StopContainer_def]

text \<open>\<open>lxg run\<close>: the command after a poll that reported \<open>RUNNING\<close>, or the failure that prevented it.\<close>

lemma RunCommand_goes:
  assumes "RunCommand run h ctx = Some (h', err)"
  shows "goes (then_run (powered run (Container ctx) ''start'' ''RUNNING'')
      (one_run run (exec_command ctx) (\<lambda>oc. clean oc \<longleftrightarrow> err = None))) h h' \<or>
    err \<noteq> None \<and> goes (power_fails run (Container ctx) ''start'' ''RUNNING'') h h'"
proof -
  obtain h1 e1 where st: "StartContainer run h ctx = Some (h1, e1)"
    using assms by (auto simp: RunCommand_cases split: option.splits)
  show ?thesis
  proof (cases e1)
    case (Some e)
    with assms st have "h' = h1" "err \<noteq> None" by (auto simp: RunCommand_cases)
    with power_loop_fails [OF st [unfolded StartContainer_def Some]] show ?thesis by simp
  next
    case None
    with assms st have "cmd_Run run h1 (exec_command ctx) = (h', snd (cmd_Run run h1 (exec_command ctx)))"
      "err = None \<longleftrightarrow> snd (cmd_Run run h1 (exec_command ctx)) = None"
      by (auto simp: RunCommand_cases split: prod.splits)
    then obtain oc where oc: "run_process run h1 (exec_command ctx) = (h', oc)" "err = None \<longleftrightarrow> clean oc"
      using cmd_Run_error by metis
    have "goes (powered run (Container ctx) ''start'' ''RUNNING'') h h1" using st [unfolded None] StartContainer_powered by blast
    moreover have "goes (one_run run (exec_command ctx) (\<lambda>oc. clean oc \<longleftrightarrow> err = None)) h1 h'"
      using oc by (auto simp: goes_one)
    ultimately show ?thesis by (auto simp: goes_then)
  qed
qed

end
