(* ===== verification/Host_Setup.thy ===== *)
theory Host_Setup
  imports Host_Systemd Host_Power
begin

text \<open>
  The set-up of a container from the host (\<open>host/setup.go\<close>, \<open>host/lxc/setup.go\<close>) as a whole: that it
  returns, and that it succeeds exactly when its processes can be run as \<open>setup_run\<close> says, each
  one if and only if the outcome of the ones before it asks for it.
\<close>

section \<open>What a set-up runs\<close>

definition show_command :: "Context \<Rightarrow> process" where
  "show_command ctx = lxc [''profile'', ''show'', Profile ctx]"

definition create_command :: "Context \<Rightarrow> string \<Rightarrow> process" where
  "create_command ctx specs =
     \<lparr>prog = ''lxc'', pargs = [''profile'', ''create'', Profile ctx], pstdin = Some specs\<rparr>"

definition add_command :: "Context \<Rightarrow> process" where
  "add_command ctx = lxc [''profile'', ''add'', Container ctx, Profile ctx]"

text \<open>The profile is created if it is not there: the status of \<open>show\<close> is then 1 (or negative).\<close>

definition profile_run :: "'w runner \<Rightarrow> Context \<Rightarrow> string \<Rightarrow> 'w script" where
  "profile_run run ctx specs w ps w' \<longleftrightarrow>
     one_run run (show_command ctx) (\<lambda>oc. exits oc 0) w ps w' \<or>
     then_run (one_run run (show_command ctx) (\<lambda>oc. \<exists>code \<le> 1. code \<noteq> 0 \<and> exits oc code))
       (one_run run (create_command ctx specs) succeeded) w ps w'"

text \<open>It is added to the container, which is then stopped, unless the container is listed.\<close>

definition lists_container :: "Context \<Rightarrow> outcome \<Rightarrow> bool" where
  "lists_container ctx oc \<longleftrightarrow> Contains (output_text oc) (''/1.0/instances/'' @ Container ctx)"

definition attach_run :: "'w runner \<Rightarrow> Context \<Rightarrow> 'w script" where
  "attach_run run ctx w ps w' \<longleftrightarrow>
     one_run run (show_command ctx) (\<lambda>oc. succeeded oc \<and> lists_container ctx oc) w ps w' \<or>
     then_run (one_run run (show_command ctx) (\<lambda>oc. succeeded oc \<and> \<not> lists_container ctx oc))
       (then_run (one_run run (add_command ctx) succeeded) (powered run (Container ctx) ''stop'' ''STOPPED'')) w ps w'"

text \<open>The service is written and enabled if it is not active.\<close>

definition service_path :: "Context \<Rightarrow> string" where
  "service_path ctx = filepath_Join [ServicePath (Home ctx), listen_service]"

definition service_written :: "(string \<Rightarrow> string + string) \<Rightarrow> Context \<Rightarrow> ('a fs_scheme) script" where
  "service_written services ctx f ps f' \<longleftrightarrow> ps = [] \<and>
     (\<exists>spec g. services ''services/listen.ini'' = Inr spec \<and>
        MkdirAll f (filepath_Dir (service_path ctx)) = (g, None) \<and> WriteFile g (service_path ctx) spec = (f', None))"

definition active_command :: process where
  "active_command = systemctl [''is-active'', ''--quiet'', listen_service]"

definition service_run :: "(string \<Rightarrow> string + string) \<Rightarrow> ('a fs_scheme) runner \<Rightarrow> Context \<Rightarrow> ('a fs_scheme) script" where
  "service_run services run ctx w ps w' \<longleftrightarrow>
     one_run run active_command (\<lambda>oc. exits oc 0) w ps w' \<or>
     then_run (one_run run active_command (\<lambda>oc. \<exists>code. code \<noteq> 0 \<and> exits oc code))
       (then_run (service_written services ctx)
         (then_run (one_run run (systemctl [''daemon-reload'']) tolerated)
           (one_run run (systemctl [''enable'', ''--now'', listen_service]) tolerated))) w ps w'"

definition lxc_setup_run :: "'w runner \<Rightarrow> Context \<Rightarrow> string \<Rightarrow> 'w script" where
  "lxc_setup_run run ctx specs =
     then_run (profile_run run ctx specs)
       (then_run (attach_run run ctx)
         (then_run (powered run (Container ctx) ''start'' ''RUNNING'')
           (then_run (one_run run (setup_command ctx) clean)
             (then_run (powered run (Container ctx) ''stop'' ''STOPPED'')
               (powered run (Container ctx) ''start'' ''RUNNING'')))))"

definition setup_run :: "(string \<Rightarrow> string + string) \<Rightarrow> ('a fs_scheme) runner \<Rightarrow> Context \<Rightarrow> string \<Rightarrow> ('a fs_scheme) script" where
  "setup_run services run ctx specs = then_run (service_run services run ctx) (lxc_setup_run run ctx specs)"

section \<open>Every part succeeds exactly when it can be run so\<close>

lemma goes_profile: "goes (profile_run run ctx specs) h h' \<longleftrightarrow>
     goes (one_run run (show_command ctx) (\<lambda>oc. exits oc 0)) h h' \<or>
     goes (then_run (one_run run (show_command ctx) (\<lambda>oc. \<exists>code \<le> 1. code \<noteq> 0 \<and> exits oc code))
       (one_run run (create_command ctx specs) succeeded)) h h'"
  by (auto simp: goes_def profile_run_def)

lemma goes_attach: "goes (attach_run run ctx) h h' \<longleftrightarrow>
     goes (one_run run (show_command ctx) (\<lambda>oc. succeeded oc \<and> lists_container ctx oc)) h h' \<or>
     goes (then_run (one_run run (show_command ctx) (\<lambda>oc. succeeded oc \<and> \<not> lists_container ctx oc))
       (then_run (one_run run (add_command ctx) succeeded) (powered run (Container ctx) ''stop'' ''STOPPED''))) h h'"
  by (auto simp: goes_def attach_run_def)

lemma goes_service: "goes (service_run services run ctx) h h' \<longleftrightarrow>
     goes (one_run run active_command (\<lambda>oc. exits oc 0)) h h' \<or>
     goes (then_run (one_run run active_command (\<lambda>oc. \<exists>code. code \<noteq> 0 \<and> exits oc code))
       (then_run (service_written services ctx)
         (then_run (one_run run (systemctl [''daemon-reload'']) tolerated)
           (one_run run (systemctl [''enable'', ''--now'', listen_service]) tolerated)))) h h'"
  by (auto simp: goes_def service_run_def)

lemma SetupProfile_goes:
  assumes "profiles (''profiles/'' @ Profile ctx @ ''.yml'') = Inr spec"
  shows "(\<exists>created. SetupProfile profiles run h ctx = (h', Inr created)) \<longleftrightarrow> goes (profile_run run ctx (profile_text ctx spec)) h h'"
proof -
  obtain h1 oc1 where 1: "run_process run h (show_command ctx) = (h1, oc1)" by force
  obtain h2 oc2 where 2: "run_process run h1 (create_command ctx (profile_text ctx spec)) = (h2, oc2)" by force
  obtain r1 e1 where r1: "execute_result oc1 = (r1, e1)" by force
  obtain r2 e2 where r2: "execute_result oc2 = (r2, e2)" by force
  show ?thesis
    unfolding SetupProfile_def assms show_command_def [symmetric] create_command_def [symmetric]
    using 1 2 r1 r2
    by (cases e1; cases e2) (auto simp: goes_profile goes_then goes_one Execute_def exits_def succeeded_def split: if_splits)
qed

lemma AttachProfile_goes:
  "(\<exists>g attached. AttachProfile run h ctx = (g, Inr attached) \<and>
      (if attached then StopContainer run g ctx = Some (h', None) else h' = g)) \<longleftrightarrow> goes (attach_run run ctx) h h'"
proof -
  obtain h1 oc1 where 1: "run_process run h (show_command ctx) = (h1, oc1)" by force
  obtain h2 oc2 where 2: "run_process run h1 (add_command ctx) = (h2, oc2)" by force
  obtain r1 e1 where r1: "execute_result oc1 = (r1, e1)" by force
  obtain r2 e2 where r2: "execute_result oc2 = (r2, e2)" by force
  show ?thesis
    unfolding AttachProfile_def show_command_def [symmetric] add_command_def [symmetric]
    using 1 2 r1 r2
    by (cases e1; cases e2) (auto simp: goes_attach goes_then goes_one Execute_def succeeded_def lists_container_def output_text_def
      StopContainer_powered [symmetric] split: if_splits)
qed

lemma EnableService_goes:
  "EnableService run h name = (h', None) \<longleftrightarrow>
     goes (then_run (one_run run (systemctl [''daemon-reload'']) tolerated)
       (one_run run (systemctl [''enable'', ''--now'', name]) tolerated)) h h'"
proof -
  obtain h1 oc1 where 1: "run_process run h (systemctl [''daemon-reload'']) = (h1, oc1)" by force
  obtain h2 oc2 where 2: "run_process run h1 (systemctl [''enable'', ''--now'', name]) = (h2, oc2)" by force
  obtain r1 e1 where r1: "execute_result oc1 = (r1, e1)" by force
  obtain r2 e2 where r2: "execute_result oc2 = (r2, e2)" by force
  show ?thesis
    unfolding EnableService_def using 1 2 r1 r2
    by (cases e1; cases e2) (auto simp: goes_then goes_one Execute_def tolerated_def split: if_splits)
qed

lemma goes_written: "goes (service_written services ctx) h h' \<longleftrightarrow>
     (\<exists>spec g f. services ''services/listen.ini'' = Inr spec \<and>
        MkdirAll (world h) (filepath_Dir (service_path ctx)) = (g, None) \<and> WriteFile g (service_path ctx) spec = (f, None) \<and>
        h' = h\<lparr>world := f\<rparr>)"
  by (cases h; cases h') (auto simp: goes_def service_written_def)

lemma AddService_goes:
  assumes "services ''services/listen.ini'' = Inr spec"
  shows "AddService run h listen_service (service_path ctx) spec = (h', None) \<longleftrightarrow>
    goes (then_run (service_written services ctx)
      (then_run (one_run run (systemctl [''daemon-reload'']) tolerated)
        (one_run run (systemctl [''enable'', ''--now'', listen_service]) tolerated))) h h'"
proof -
  obtain g e where 1: "MkdirAll (world h) (filepath_Dir (service_path ctx)) = (g, e)" by force
  obtain f e' where 2: "WriteFile g (service_path ctx) spec = (f, e')" by force
  show ?thesis
    unfolding AddService_def goes_then [of "service_written services ctx"] goes_written EnableService_goes [symmetric] assms 1
    using 2 by (cases e; cases e') auto
qed

lemma InstallListenService_goes:
  "InstallListenService services run h ctx = (h', None) \<longleftrightarrow> goes (service_run services run ctx) h h'"
proof -
  obtain h1 oc1 where 1: "run_process run h active_command = (h1, oc1)" by force
  obtain r1 e1 where r1: "execute_result oc1 = (r1, e1)" by force
  show ?thesis
  proof (cases "services ''services/listen.ini''")
    case (Inl e)
    then show ?thesis
      unfolding InstallListenService_def IsServiceActive_def active_command_def [symmetric] Inl goes_service
        goes_then [of "one_run run active_command P" for P] goes_then [of "service_written services ctx"] goes_written
      using 1 r1 by (cases e1) (auto simp: goes_one Execute_def exits_def)
  next
    case (Inr spec)
    show ?thesis
      unfolding InstallListenService_def IsServiceActive_def active_command_def [symmetric] Inr goes_service
        goes_then [of "one_run run active_command P" for P] AddService_goes [where services = services, OF Inr, symmetric] service_path_def [symmetric]
      using 1 r1 by (cases e1) (auto simp: goes_one Execute_def exits_def split: prod.split option.split)
  qed
qed

section \<open>Setup\<close>

lemma lxc_Setup_done:
  assumes "lxc_Setup profiles run h ctx = Some (h', None)"
  obtains h1 h2 h3 h4 h5 created attached where
    "SetupProfile profiles run h ctx = (h1, Inr created)" and "AttachProfile run h1 ctx = (h2, Inr attached)"
    and "if attached then StopContainer run h2 ctx = Some (h3, None) else h3 = h2"
    and "StartContainer run h3 ctx = Some (h4, None)" and "cmd_Run run h4 (setup_command ctx) = (h5, None)"
    and "RestartContainer run h5 ctx = Some (h', None)"
proof -
  obtain h1 created where 1: "SetupProfile profiles run h ctx = (h1, Inr created)"
    using assms by (auto simp: lxc_Setup_def split: prod.splits sum.splits)
  obtain h2 attached where 2: "AttachProfile run h1 ctx = (h2, Inr attached)"
    using assms by (auto simp: lxc_Setup_def 1 split: prod.splits sum.splits)
  obtain h3 where 3: "(if attached then StopContainer run h2 ctx else Some (h2, None)) = Some (h3, None)"
    using assms by (auto simp: lxc_Setup_def 1 2 split: Option.bind_splits option.splits)
  obtain h4 where 4: "StartContainer run h3 ctx = Some (h4, None)"
    using assms by (auto simp: lxc_Setup_def 1 2 3 split: Option.bind_splits option.splits)
  obtain h5 where 5: "cmd_Run run h4 (setup_command ctx) = (h5, None)"
    using assms by (auto simp: lxc_Setup_def 1 2 3 4 split: prod.splits option.splits)
  have "RestartContainer run h5 ctx = Some (h', None)"
    using assms by (auto simp: lxc_Setup_def 1 2 3 4 5 split: Option.bind_splits option.splits)
  with that 1 2 3 4 5 show thesis by (auto split: if_splits)
qed

text \<open>\<open>Setup\<close> returns whenever its loops do.\<close>

lemma power_ranks_return:
  assumes "power_rank ''stop'' ''STOPPED'' run (Container ctx) stop_rank"
    and "power_rank ''start'' ''RUNNING'' run (Container ctx) start_rank"
  shows "\<exists>h' err. StopContainer run h ctx = Some (h', err)" and "\<exists>h' err. StartContainer run h ctx = Some (h', err)"
    and "\<exists>h' err. RestartContainer run h ctx = Some (h', err)"
proof -
  show stop: "\<exists>h' err. StopContainer run h ctx = Some (h', err)" for h
    using power_loop_returns [OF assms(1)] unfolding StopContainer_def by blast
  show start: "\<exists>h' err. StartContainer run h ctx = Some (h', err)" for h
    using power_loop_returns [OF assms(2)] unfolding StartContainer_def by blast
  show "\<exists>h' err. RestartContainer run h ctx = Some (h', err)"
  proof -
    obtain h1 err1 where 1: "StopContainer run h ctx = Some (h1, err1)" using stop by blast
    obtain h2 err2 where 2: "StartContainer run h1 ctx = Some (h2, err2)" using start by blast
    from RestartContainer_cases [OF 1 2] show ?thesis by (cases err1) auto
  qed
qed

lemma lxc_Setup_returns:
  assumes "power_rank ''stop'' ''STOPPED'' run (Container ctx) stop_rank"
    and "power_rank ''start'' ''RUNNING'' run (Container ctx) start_rank"
  shows "\<exists>h' err. lxc_Setup profiles run h ctx = Some (h', err)"
proof -
  note loops = power_ranks_return [OF assms]
  obtain h1 c where 1: "SetupProfile profiles run h ctx = (h1, c)" by force
  obtain h2 a where 2: "AttachProfile run h1 ctx = (h2, a)" by force
  obtain h3 e3 where 3: "(if a = Inr True then StopContainer run h2 ctx else Some (h2, None)) = Some (h3, e3)"
    using loops(1) [of h2] by (cases "a = Inr True") auto
  obtain h4 e4 where 4: "StartContainer run h3 ctx = Some (h4, e4)" using loops(2) by blast
  obtain h5 e5 where 5: "cmd_Run run h4 (setup_command ctx) = (h5, e5)" by force
  obtain h6 e6 where 6: "RestartContainer run h5 ctx = Some (h6, e6)" using loops(3) by blast
  note steps = lxc_Setup_def 1 2 4 5 6
  show ?thesis
  proof (cases c; cases a)
    fix created attached assume c: "c = Inr created" and a: "a = Inr attached"
    have 3: "(if attached then StopContainer run h2 ctx else Some (h2, None)) = Some (h3, e3)" using 3 by (simp add: a)
    show ?thesis by (cases e3; cases e4; cases e5) (simp_all add: steps c a 3)
  qed (simp_all add: steps)
qed

lemma host_Setup_returns:
  assumes "power_rank ''stop'' ''STOPPED'' run (Container ctx) stop_rank"
    and "power_rank ''start'' ''RUNNING'' run (Container ctx) start_rank"
  shows "\<exists>h' err. host_Setup services profiles run h ctx = Some (h', err)"
proof -
  obtain h0 err0 where 0: "InstallListenService services run h ctx = (h0, err0)" by force
  show ?thesis
    using lxc_Setup_returns [OF assms, of profiles h0] by (cases err0) (auto simp: host_Setup_def 0)
qed

text \<open>The set-up succeeds exactly when its processes can be run as \<open>setup_run\<close> says.\<close>

lemma lxc_Setup_goes:
  assumes "profiles (''profiles/'' @ Profile ctx @ ''.yml'') = Inr spec"
  shows "lxc_Setup profiles run h ctx = Some (h', None) \<longleftrightarrow> goes (lxc_setup_run run ctx (profile_text ctx spec)) h h'"
proof
  assume "lxc_Setup profiles run h ctx = Some (h', None)"
  then show "goes (lxc_setup_run run ctx (profile_text ctx spec)) h h'"
    by (rule lxc_Setup_done)
      (unfold lxc_setup_run_def goes_then [of "profile_run run ctx s" for s] goes_then [of "attach_run run ctx"]
        goes_then [of "powered run c v wt" for c v wt] goes_then [of "one_run run (setup_command ctx) clean"]
        SetupProfile_goes [where profiles = profiles, OF assms, symmetric] AttachProfile_goes [symmetric] StartContainer_powered [symmetric]
        StopContainer_powered [symmetric] cmd_Run_clean [symmetric], blast elim: RestartContainer_done)
next
  assume "goes (lxc_setup_run run ctx (profile_text ctx spec)) h h'"
  then obtain h1 h2 h3 h4 h5 c a g where
    "SetupProfile profiles run h ctx = (h1, Inr c)" "AttachProfile run h1 ctx = (g, Inr a)"
    "if a then StopContainer run g ctx = Some (h2, None) else h2 = g" "StartContainer run h2 ctx = Some (h3, None)"
    "cmd_Run run h3 (setup_command ctx) = (h4, None)" "StopContainer run h4 ctx = Some (h5, None)"
    "StartContainer run h5 ctx = Some (h', None)"
    unfolding lxc_setup_run_def goes_then [of "profile_run run ctx s" for s] goes_then [of "attach_run run ctx"]
      goes_then [of "powered run c v wt" for c v wt] goes_then [of "one_run run (setup_command ctx) clean"]
      SetupProfile_goes [where profiles = profiles, OF assms, symmetric] AttachProfile_goes [symmetric] StartContainer_powered [symmetric]
      StopContainer_powered [symmetric] cmd_Run_clean [symmetric] by blast
  then show "lxc_Setup profiles run h ctx = Some (h', None)"
    by (cases a) (simp_all add: lxc_Setup_def RestartContainer_def)
qed

lemma host_Setup_goes:
  assumes "profiles (''profiles/'' @ Profile ctx @ ''.yml'') = Inr spec"
  shows "host_Setup services profiles run h ctx = Some (h', None) \<longleftrightarrow>
    goes (setup_run services run ctx (profile_text ctx spec)) h h'"
  unfolding setup_run_def goes_then InstallListenService_goes [symmetric] lxc_Setup_goes [where profiles = profiles, OF assms, symmetric]
  by (auto simp: host_Setup_def split: prod.splits option.splits Option.bind_splits)

end
