(* ===== verification/Host_Mounts.thy ===== *)
theory Host_Mounts
  imports Container_Env "HOL-Library.List_Lexorder" "HOL-Library.Char_ord"
begin

text \<open>
  The sockets of the desktop session, bound into the directory shared with the containers:
  \<open>host/run/mount.go\<close>, \<open>pipewire.go\<close>, \<open>pulse.go\<close>, \<open>wayland.go\<close> and \<open>x11.go\<close>. A successful mount
  leaves a goroutine that undoes it when the context is cancelled; \<open>BindMount\<close> returns whether it
  was started, and \<open>BindMount_cancel\<close> is what it does. The messages are not modelled.
\<close>

section \<open>mount.go\<close>

definition BindMount :: "'a fs_scheme \<Rightarrow> string \<Rightarrow> string \<Rightarrow> 'a fs_scheme \<times> string option \<times> bool" where
  "BindMount f source target =
     (case Stat f source of
        Inl e \<Rightarrow> if e = ENOENT then (f, None, False) else (f, Some (''check mount error: '' @ errno_text e), False)
      | Inr _ \<Rightarrow>
          (case MkdirAll f (filepath_Dir target) of
             (f, Some e) \<Rightarrow> (f, Some (''mkdir mount error: '' @ errno_text e), False)
           | (f, None) \<Rightarrow>
               (case Remove (fst (Unmount f target)) target of
                  (f, err) \<Rightarrow>
                    if blocking err then (f, Some (''remove mount error: '' @ errno_text (the err)), False)
                    else case WriteFile f target [] of
                      (f, Some e) \<Rightarrow> (f, Some (''write mount error: '' @ errno_text e), False)
                    | (f, None) \<Rightarrow>
                        (case Mount f source target of
                           (f, Some e) \<Rightarrow>
                             (case Remove f target of
                                (f, cleanupErr) \<Rightarrow>
                                  if blocking cleanupErr
                                  then (f, Some (''bind mount failed ('' @ errno_text e @ ''), and cleanup also failed: ''
                                    @ errno_text (the cleanupErr)), False)
                                  else (f, Some (''bind mount error: '' @ errno_text e), False))
                         | (f, None) \<Rightarrow> (f, None, True)))))"

definition BindMount_cancel :: "'a fs_scheme \<Rightarrow> string \<Rightarrow> 'a fs_scheme" where
  "BindMount_cancel f target = fst (Remove (fst (Unmount f target)) target)"

section \<open>The services\<close>

definition bind_service :: "string \<Rightarrow> 'a fs_scheme \<Rightarrow> string \<Rightarrow> string \<Rightarrow> 'a fs_scheme \<times> string option \<times> bool" where
  "bind_service pre f source target =
     (let (f, err, bound) = BindMount f source target in (f, map_option (\<lambda>e. pre @ e) err, bound))"

definition LinkPipewire :: "'a fs_scheme \<Rightarrow> Context \<Rightarrow> 'a fs_scheme \<times> string option \<times> bool" where
  "LinkPipewire f ctx =
     bind_service ''pipewire error: '' f (run_user (UID ctx) ''pipewire-0'') (run_user (UID ctx) ''lxg/pipewire-0'')"

definition LinkPulseNative :: "'a fs_scheme \<Rightarrow> Context \<Rightarrow> 'a fs_scheme \<times> string option \<times> bool" where
  "LinkPulseNative f ctx =
     bind_service ''pulse native error: '' f (run_user (UID ctx) ''pulse/native'') (run_user (UID ctx) ''lxg/pulse-native'')"

definition LinkWayland :: "'a fs_scheme \<Rightarrow> Context \<Rightarrow> 'a fs_scheme \<times> string option \<times> bool" where
  "LinkWayland f ctx =
     bind_service ''wayland error: '' f (run_user (UID ctx) ''wayland-0'') (run_user (UID ctx) ''lxg/wayland-0'')"

definition LinkX11Zero :: "'a fs_scheme \<Rightarrow> Context \<Rightarrow> 'a fs_scheme \<times> string option \<times> bool" where
  "LinkX11Zero f ctx = bind_service ''x11 zero error: '' f ''/tmp/.X11-unix/X0'' (run_user (UID ctx) ''lxg/X11-X0'')"

definition LinkX11One :: "'a fs_scheme \<Rightarrow> Context \<Rightarrow> 'a fs_scheme \<times> string option \<times> bool" where
  "LinkX11One f ctx = bind_service ''x11 one error: '' f ''/tmp/.X11-unix/X1'' (run_user (UID ctx) ''lxg/X11-X1'')"

text \<open>
  \<open>filepath.Glob\<close> for a directory without special characters and the pattern \<open>pre*\<close>: the names
  in the directory that start with \<open>pre\<close>, in order; nothing if the directory cannot be read.
\<close>

definition glob_prefix :: "'a fs_scheme \<Rightarrow> string \<Rightarrow> string \<Rightarrow> string list" where
  "glob_prefix f dir pre =
     (case (stat_at f (comps dir), resolve OpRead True f (comps dir)) of
        (Inr Dir, Inr p) \<Rightarrow>
          map (\<lambda>n. filepath_Join [dir, n])
            (sort (remdups (map last (filter (\<lambda>q. q \<noteq> [] \<and> butlast q = p \<and> HasPrefix (last q) pre) (map fst (nodes f))))))
      | _ \<Rightarrow> [])"

definition LinkX11Auth :: "'a fs_scheme \<Rightarrow> Context \<Rightarrow> ('a fs_scheme \<times> string option \<times> bool) option" where
  "LinkX11Auth f ctx =
     (case glob_prefix f (''/run/user/'' @ UID ctx) ''.mutter-Xwaylandauth.'' of
        [] \<Rightarrow> None
      | userX11Auth # _ \<Rightarrow> Some (bind_service ''x11 auth error: '' f userX11Auth (run_user (UID ctx) ''lxg/X11-Xauth'')))"

section \<open>Mounting and unmounting\<close>

lemma unmount_slot:
  assumes D: "dir_ok cs d f" and n: "n \<noteq> ''..''" and leaf: "lookup f (d @ [n]) \<noteq> Some Dir" "\<And>t. lookup f (d @ [n]) \<noteq> Some (Symlink t)"
    and q: "quiet f"
  shows "\<exists>f' err. unmount_at f (cs @ [n]) = (f', err) \<and> dir_ok cs d f' \<and> quiet f' \<and>
    mounts f' = drop_first (d @ [n]) (mounts f) \<and> (\<forall>p. p \<noteq> d @ [n] \<longrightarrow> lookup f' p = lookup f p) \<and>
    lookup f' (d @ [n]) \<noteq> Some Dir"
proof (cases "map_of (mounts f) (d @ [n])")
  case None
  then have "unmount_at f (cs @ [n]) = (f, Some (if lookup f (d @ [n]) = None then ENOENT else EINVAL))"
    by (simp add: unmount_at_def walk_entry [OF D n leaf(2)])
  with None D q leaf show ?thesis by (simp add: drop_first_id)
next
  case (Some m)
  let ?f = "(set_node (d @ [n]) m f)\<lparr>mounts := drop_first (d @ [n]) (mounts f)\<rparr>"
  have u: "unmount_at f (cs @ [n]) = (?f, None)"
    using Some by (simp add: unmount_at_def walk_entry [OF D n leaf(2)])
  have "fs_ok ?f" using fs_ok_unmount [OF dir_ok_fs_ok [OF D], of "cs @ [n]"] u by simp
  moreover have l: "lookup ?f = (lookup f)(d @ [n] \<mapsto> m)" by simp
  ultimately have "dir_ok cs d ?f" by (intro dir_ok_change [OF D]) simp_all
  moreover have "m \<noteq> Dir" using fs_ok_mounted(2) [OF dir_ok_fs_ok [OF D] Some] .
  ultimately show ?thesis using q by (intro exI [of _ ?f] exI [of _ None]) (simp add: u quiet_def)
qed

text \<open>Taking a file out of its place: unmount what covers it, then remove it.\<close>

lemma unmount_remove:
  assumes D: "dir_ok cs d f" and n: "n \<noteq> ''..''" and leaf: "lookup f (d @ [n]) \<noteq> Some Dir" "\<And>t. lookup f (d @ [n]) \<noteq> Some (Symlink t)"
    and q: "quiet f" and once: "map_of (drop_first (d @ [n]) (mounts f)) (d @ [n]) = None"
  shows "\<exists>f' err. remove_entry (fst (unmount_at f (cs @ [n]))) (cs @ [n]) = (f', err) \<and> \<not> blocking err \<and> dir_ok cs d f' \<and>
    quiet f' \<and> mounts f' = drop_first (d @ [n]) (mounts f) \<and> lookup f' = (lookup f)(d @ [n] := None)"
proof -
  obtain f1 e1 where u: "unmount_at f (cs @ [n]) = (f1, e1)" "dir_ok cs d f1" "quiet f1"
    "mounts f1 = drop_first (d @ [n]) (mounts f)" "\<forall>p. p \<noteq> d @ [n] \<longrightarrow> lookup f1 p = lookup f p" "lookup f1 (d @ [n]) \<noteq> Some Dir"
    using unmount_slot [OF D n leaf q] by blast
  have "map_of (mounts f1) (d @ [n]) = None" using once u(4) by simp
  from remove_slot [OF u(2) n u(3) u(6) this] obtain f2 e2 where
    r: "remove_entry f1 (cs @ [n]) = (f2, e2)" "\<not> blocking e2" "dir_ok cs d f2" "lookup f2 = (lookup f1)(d @ [n] := None)"
      "mounts f2 = mounts f1" "quiet f2" by blast
  have "lookup f2 = (lookup f)(d @ [n] := None)" using r(4) u(5) by (auto simp: fun_eq_iff)
  with u r show ?thesis by (intro exI [of _ f2] exI [of _ e2]) simp
qed

text \<open>
  The places of a source and its target: the source is a file in a plain directory, the target an
  entry of the directory \<open>d\<close>, not covered by more than one mount, and not on the source's path.
\<close>

definition bind_places :: "'a fs_scheme \<Rightarrow> path \<Rightarrow> string \<Rightarrow> path \<Rightarrow> string \<Rightarrow> node \<Rightarrow> bool" where
  "bind_places f ds m d n node \<longleftrightarrow>
     dir_ok d d f \<and> dir_ok ds ds f \<and> quiet f \<and> n \<noteq> ''..'' \<and> m \<noteq> ''..'' \<and> ''..'' \<notin> set ds \<and>
     lookup f (ds @ [m]) = Some node \<and> is_file (Some node) \<and> d @ [n] \<noteq> ds @ [m] \<and> d @ [n] \<noteq> ds \<and>
     lookup f (d @ [n]) \<noteq> Some Dir \<and> (\<forall>t. lookup f (d @ [n]) \<noteq> Some (Symlink t)) \<and>
     map_of (drop_first (d @ [n]) (mounts f)) (d @ [n]) = None"

lemma BindMount_done:
  assumes pl: "bind_places f ds m d n node"
    and cs: "comps source = ds @ [m]" "comps target = d @ [n]" "comps (filepath_Dir target) = d"
  shows "\<exists>f'. BindMount f source target = (f', None, True) \<and> dir_ok d d f' \<and> quiet f' \<and>
    lookup f' = (lookup f)(d @ [n] \<mapsto> node) \<and> mounts f' = (d @ [n], Reg []) # drop_first (d @ [n]) (mounts f)"
proof -
  have D: "dir_ok d d f" and S: "dir_ok ds ds f" and q: "quiet f" and n: "n \<noteq> ''..''" and m: "m \<noteq> ''..''"
    and ds: "''..'' \<notin> set ds" and src: "lookup f (ds @ [m]) = Some node" and reg: "is_file (Some node)"
    and far: "d @ [n] \<noteq> ds @ [m]" "d @ [n] \<noteq> ds" and leaf: "lookup f (d @ [n]) \<noteq> Some Dir"
    "\<And>t. lookup f (d @ [n]) \<noteq> Some (Symlink t)" and once: "map_of (drop_first (d @ [n]) (mounts f)) (d @ [n]) = None"
    using pl by (auto simp: bind_places_def)
  have nolink: "node \<noteq> Symlink t" "node \<noteq> Dir" for t using reg by (auto simp: is_file_def)
  have st: "stat_at f (ds @ [m]) = Inr node" using stat_entry [OF S m] src nolink q by simp
  have md: "mkdir_all f (rev d) = (f, None)"
    using dir_ok_stat [OF D] q by (cases d rule: rev_cases) auto
  obtain f1 e1 where u: "remove_entry (fst (unmount_at f (d @ [n]))) (d @ [n]) = (f1, e1)" "\<not> blocking e1" "dir_ok d d f1" "quiet f1"
    "mounts f1 = drop_first (d @ [n]) (mounts f)" "lookup f1 = (lookup f)(d @ [n] := None)"
    using unmount_remove [OF D n leaf q once] by blast
  let ?f2 = "set_node (d @ [n]) (Reg []) f1"
  have wr: "write_at f1 (d @ [n]) [] = (?f2, None)"
    by (simp add: write_at_def dir_ok_resolve [OF u(3) n] u(4) u(6))
  have D2: "dir_ok d d ?f2"
    using write_entry(1) [OF u(3) n _ wr] u(6)
    by (intro dir_ok_change [OF u(3), where n = n and v = "Some (Reg [])"]) simp_all
  have q2: "quiet ?f2" using u(4) by (simp add: quiet_def)
  have l2: "lookup ?f2 = (lookup f)(d @ [n] \<mapsto> Reg [])" using u(6) by simp
  have "lookup ?f2 ds = Some Dir" using S far l2 by (simp add: dir_ok_def)
  then have S2: "dir_ok ds ds ?f2" using plain_dir [OF dir_ok_fs_ok [OF D2]] ds by blast
  have src2: "lookup ?f2 (ds @ [m]) = Some node" unfolding l2 using far(1) src by (metis fun_upd_other)
  have w: "walk (lookup ?f2) True 40 [] (ds @ [m]) = Inr (ds @ [m])" using walk_entry [OF S2 m] src2 nolink by simp
  have r: "resolve OpMount True ?f2 (d @ [n]) = Inr (d @ [n])"
    using dir_ok_resolve [OF D2 n, of True OpMount] u(4) by (simp add: l2)
  let ?f3 = "(set_node (d @ [n]) node ?f2)\<lparr>mounts := (d @ [n], Reg []) # mounts ?f2\<rparr>"
  have mt: "mount_at ?f2 (ds @ [m]) (d @ [n]) = (?f3, None)"
    using w r src2 nolink by (simp add: mount_at_def l2 del: lookup_set_node)
  have l3: "lookup ?f3 = (lookup f)(d @ [n] \<mapsto> node)" using l2 by simp
  have "fs_ok ?f3" using fs_ok_mount [OF dir_ok_fs_ok [OF D2], of "ds @ [m]" "d @ [n]"] mt by simp
  then have "dir_ok d d ?f3" using l3 by (intro dir_ok_change [OF D]) simp_all
  moreover have "quiet ?f3" using q2 by (simp add: quiet_def)
  moreover have "BindMount f source target = (?f3, None, True)"
    by (simp add: BindMount_def cs st md u(1,2) wr mt)
  ultimately show ?thesis using l3 u(5) by (intro exI [of _ ?f3]) simp
qed

text \<open>Cancelling takes the mount and its file away and leaves everything else as it was.\<close>

lemma BindMount_cancelled:
  assumes pl: "bind_places f ds m d n node"
    and cs: "comps source = ds @ [m]" "comps target = d @ [n]" "comps (filepath_Dir target) = d"
    and b: "BindMount f source target = (f', None, True)"
  shows "lookup (BindMount_cancel f' target) = (lookup f)(d @ [n] := None)"
    and "mounts (BindMount_cancel f' target) = drop_first (d @ [n]) (mounts f)"
proof -
  obtain D: "dir_ok d d f'" and q: "quiet f'" and l: "lookup f' = (lookup f)(d @ [n] \<mapsto> node)"
    and mt: "mounts f' = (d @ [n], Reg []) # drop_first (d @ [n]) (mounts f)"
    using BindMount_done [OF pl cs] b by auto
  have n: "n \<noteq> ''..''" and node: "node \<noteq> Dir" "\<And>t. node \<noteq> Symlink t"
    and once: "map_of (drop_first (d @ [n]) (mounts f)) (d @ [n]) = None"
    using pl by (auto simp: bind_places_def is_file_def)
  have "lookup f' (d @ [n]) \<noteq> Some Dir" "\<And>t. lookup f' (d @ [n]) \<noteq> Some (Symlink t)" using node by (simp_all add: l)
  from unmount_remove [OF D n this q] once obtain f2 e2 where
    "remove_entry (fst (unmount_at f' (d @ [n]))) (d @ [n]) = (f2, e2)" "mounts f2 = drop_first (d @ [n]) (mounts f')"
    "lookup f2 = (lookup f')(d @ [n] := None)" by (auto simp: mt)
  then show "lookup (BindMount_cancel f' target) = (lookup f)(d @ [n] := None)"
    "mounts (BindMount_cancel f' target) = drop_first (d @ [n]) (mounts f)"
    by (simp_all add: BindMount_cancel_def cs l mt)
qed

text \<open>Without an X11 authentication file of the compositor the service panics.\<close>

lemma LinkX11Auth_panics:
  "LinkX11Auth f ctx = None \<longleftrightarrow> glob_prefix f (''/run/user/'' @ UID ctx) ''.mutter-Xwaylandauth.'' = []"
  by (simp add: LinkX11Auth_def split: list.split)

lemma glob_prefix_empty:
  assumes "list_all (\<lambda>(q, n). q = [] \<or> \<not> HasPrefix (last q) pre) (nodes f)"
  shows "glob_prefix f dir pre = []"
proof -
  have "filter (\<lambda>q. q \<noteq> [] \<and> butlast q = p \<and> HasPrefix (last q) pre) (map fst (nodes f)) = []" for p
    using assms by (auto simp: list_all_iff filter_empty_conv)
  then show ?thesis by (simp only: glob_prefix_def) (simp split: sum.split node.split)
qed

end
