(* ===== verification/Bridge_Protocol.thy ===== *)
theory Bridge_Protocol
  imports Go_Text
begin

text \<open>
  The messages of the bridge, \<open>host/bridge/protocol.go\<close>, and their passage through
  \<open>encoding/json\<close>. The text of a JSON document is not modelled, its value is: an encoder turns a
  struct into a value by the tags of its fields, with invalid UTF-8 replaced; a decoder goes
  through the members of an object, matches their names case-insensitively, ignores unknown
  ones and those that are \<open>null\<close>, and reports the first member of a wrong type. Decoding \<open>null\<close>
  into a pointer sets the pointer to nil, which is \<open>None\<close> here.
\<close>

datatype json = JNull | JBool bool | JInt int | JFraction string | JStr string | JArr "json list"
  | JObj "(string \<times> json) list"

record Request =
  Command :: string
  rqArgs :: "string list"
  Wait :: bool

record Response =
  OK :: bool
  rsPID :: int
  rsExitCode :: int
  Message :: string

definition NewRequest :: Request where
  "NewRequest = \<lparr>Command = [], rqArgs = [], Wait = False\<rparr>"

definition NewResponse :: Response where
  "NewResponse = \<lparr>OK = False, rsPID = 0, rsExitCode = 1, Message = []\<rparr>"

section \<open>UTF-8\<close>

definition byte_in :: "nat \<Rightarrow> nat \<Rightarrow> char \<Rightarrow> bool" where
  "byte_in lo hi c \<longleftrightarrow> (let n = of_char c :: nat in lo \<le> n \<and> n \<le> hi)"

text \<open>The length of the rune that a string starts with, 0 if the bytes are invalid.\<close>

definition cont :: "char \<Rightarrow> bool" where
  "cont = byte_in 0x80 0xBF"

definition rune_len :: "string \<Rightarrow> nat" where
  "rune_len s =
     (case s of
        [] \<Rightarrow> 0
      | a # t \<Rightarrow>
          if byte_in 0 0x7F a then 1
          else case t of
            [] \<Rightarrow> 0
          | b # u \<Rightarrow>
              if byte_in 0xC2 0xDF a \<and> cont b then 2
              else case u of
                [] \<Rightarrow> 0
              | c # v \<Rightarrow>
                  if cont c \<and> (byte_in 0xE0 0xE0 a \<and> byte_in 0xA0 0xBF b \<or> byte_in 0xED 0xED a \<and> byte_in 0x80 0x9F b
                      \<or> (byte_in 0xE1 0xEC a \<or> byte_in 0xEE 0xEF a) \<and> cont b) then 3
                  else case v of
                    [] \<Rightarrow> 0
                  | d # _ \<Rightarrow>
                      if cont c \<and> cont d \<and> (byte_in 0xF0 0xF0 a \<and> byte_in 0x90 0xBF b
                          \<or> byte_in 0xF4 0xF4 a \<and> byte_in 0x80 0x8F b \<or> byte_in 0xF1 0xF3 a \<and> cont b) then 4
                      else 0)"

text \<open>What a string is after encoding and decoding: each invalid byte is \<open>U+FFFD\<close>.\<close>

function coerce_utf8 :: "string \<Rightarrow> string" where
  "coerce_utf8 [] = []"
| "coerce_utf8 (c # s) =
     (let n = rune_len (c # s)
      in if n = 0 then [CHR 0xEF, CHR 0xBF, CHR 0xBD] @ coerce_utf8 s
         else take n (c # s) @ coerce_utf8 (drop n (c # s)))"
  by pat_completeness auto
termination
  by (relation "measure length") auto

function valid_utf8 :: "string \<Rightarrow> bool" where
  "valid_utf8 [] = True"
| "valid_utf8 (c # s) =
     (let n = rune_len (c # s) in if n = 0 then False else valid_utf8 (drop n (c # s)))"
  by pat_completeness auto
termination
  by (relation "measure length") auto

lemma coerce_valid: "valid_utf8 s \<Longrightarrow> coerce_utf8 s = s"
  by (induction s rule: valid_utf8.induct) (auto simp: Let_def simp del: take_Cons' drop_Cons' split: if_splits)

section \<open>Encoding\<close>

definition encode_request :: "Request \<Rightarrow> json" where
  "encode_request r = JObj [(''command'', JStr (coerce_utf8 (Command r))),
     (''args'', JArr (map (JStr \<circ> coerce_utf8) (rqArgs r))), (''wait'', JBool (Wait r))]"

definition encode_response :: "Response \<Rightarrow> json" where
  "encode_response r = JObj [(''ok'', JBool (OK r)), (''pid'', JInt (rsPID r)),
     (''exitCode'', JInt (rsExitCode r)), (''message'', JStr (coerce_utf8 (Message r)))]"

section \<open>Decoding\<close>

text \<open>Names are compared after simple case folding; two letters have a non-ASCII variant.\<close>

function fold_name :: "string \<Rightarrow> string" where
  "fold_name [] = []"
| "fold_name (c # s) =
     (if HasPrefix (c # s) [CHR 0xE2, CHR 0x84, CHR 0xAA] then CHR ''K'' # fold_name (drop 3 (c # s))
      else if HasPrefix (c # s) [CHR 0xC5, CHR 0xBF] then CHR ''S'' # fold_name (drop 2 (c # s))
      else upper c # fold_name s)"
  by pat_completeness auto
termination
  by (relation "measure length") auto

definition kind_of :: "json \<Rightarrow> string" where
  "kind_of j = (case j of JNull \<Rightarrow> ''null'' | JBool _ \<Rightarrow> ''bool'' | JInt _ \<Rightarrow> ''number'' | JFraction t \<Rightarrow> ''number '' @ t
     | JStr _ \<Rightarrow> ''string'' | JArr _ \<Rightarrow> ''array'' | JObj _ \<Rightarrow> ''object'')"

definition type_error :: "json \<Rightarrow> string \<Rightarrow> string \<Rightarrow> string" where
  "type_error j field type =
     ''json: cannot unmarshal '' @ kind_of j @ '' into Go struct field '' @ field @ '' of type '' @ type"

text \<open>A field of a basic type: the new value, or the error and the old value.\<close>

definition decode_string :: "string \<Rightarrow> json \<Rightarrow> string \<Rightarrow> string option \<times> string" where
  "decode_string field j old =
     (case j of JStr s \<Rightarrow> (None, s) | JNull \<Rightarrow> (None, old) | _ \<Rightarrow> (Some (type_error j field ''string''), old))"

definition decode_bool :: "string \<Rightarrow> json \<Rightarrow> bool \<Rightarrow> string option \<times> bool" where
  "decode_bool field j old =
     (case j of JBool b \<Rightarrow> (None, b) | JNull \<Rightarrow> (None, old) | _ \<Rightarrow> (Some (type_error j field ''bool''), old))"

definition decode_int :: "string \<Rightarrow> json \<Rightarrow> int \<Rightarrow> string option \<times> int" where
  "decode_int field j old =
     (case j of
        JInt n \<Rightarrow> if - (2 ^ 63) \<le> n \<and> n < 2 ^ 63 then (None, n) else (Some (type_error j field ''int''), old)
      | JNull \<Rightarrow> (None, old)
      | _ \<Rightarrow> (Some (type_error j field ''int''), old))"

fun decode_elements :: "string \<Rightarrow> json list \<Rightarrow> string option \<times> string list" where
  "decode_elements field [] = (None, [])"
| "decode_elements field (j # js) =
     (let (err, s) = decode_string field j []; (errs, ss) = decode_elements field js
      in (case err of Some e \<Rightarrow> Some e | None \<Rightarrow> errs, s # ss))"

text \<open>
  A repeated \<open>args\<close> member starts anew here; Go decodes it into the slice of the earlier one, so that
  a \<open>null\<close> element of the later array keeps the earlier element where the model has the empty string.
\<close>

definition decode_strings :: "string \<Rightarrow> json \<Rightarrow> string list \<Rightarrow> string option \<times> string list" where
  "decode_strings field j old =
     (case j of JArr js \<Rightarrow> decode_elements field js | JNull \<Rightarrow> (None, [])
      | _ \<Rightarrow> (Some (type_error j field ''[]string''), old))"

definition request_member :: "string \<Rightarrow> json \<Rightarrow> Request \<Rightarrow> string option \<times> Request" where
  "request_member name j r =
     (if fold_name name = ''COMMAND'' then
        (let (err, v) = decode_string ''Request.command'' j (Command r) in (err, r\<lparr>Command := v\<rparr>))
      else if fold_name name = ''ARGS'' then
        (let (err, v) = decode_strings ''Request.args'' j (rqArgs r) in (err, r\<lparr>rqArgs := v\<rparr>))
      else if fold_name name = ''WAIT'' then
        (let (err, v) = decode_bool ''Request.wait'' j (Wait r) in (err, r\<lparr>Wait := v\<rparr>))
      else (None, r))"

definition response_member :: "string \<Rightarrow> json \<Rightarrow> Response \<Rightarrow> string option \<times> Response" where
  "response_member name j r =
     (if fold_name name = ''OK'' then
        (let (err, v) = decode_bool ''Response.ok'' j (OK r) in (err, r\<lparr>OK := v\<rparr>))
      else if fold_name name = ''PID'' then
        (let (err, v) = decode_int ''Response.pid'' j (rsPID r) in (err, r\<lparr>rsPID := v\<rparr>))
      else if fold_name name = ''EXITCODE'' then
        (let (err, v) = decode_int ''Response.exitCode'' j (rsExitCode r) in (err, r\<lparr>rsExitCode := v\<rparr>))
      else if fold_name name = ''MESSAGE'' then
        (let (err, v) = decode_string ''Response.message'' j (Message r) in (err, r\<lparr>Message := v\<rparr>))
      else (None, r))"

fun decode_members :: "(string \<Rightarrow> json \<Rightarrow> 'r \<Rightarrow> string option \<times> 'r) \<Rightarrow> (string \<times> json) list \<Rightarrow> 'r \<Rightarrow> string option \<times> 'r" where
  "decode_members member [] r = (None, r)"
| "decode_members member ((name, j) # rest) r =
     (let (err, r) = member name j r; (errs, r) = decode_members member rest r
      in (case err of Some e \<Rightarrow> Some e | None \<Rightarrow> errs, r))"

text \<open>\<open>Decode\<close> into a pointer to a struct that starts as \<open>fresh\<close>: an error, or the pointer.\<close>

definition decode_pointer :: "(string \<Rightarrow> json \<Rightarrow> 'r \<Rightarrow> string option \<times> 'r) \<Rightarrow> string \<Rightarrow> 'r \<Rightarrow> json \<Rightarrow> string + 'r option" where
  "decode_pointer member type fresh j =
     (case j of
        JNull \<Rightarrow> Inr None
      | JObj members \<Rightarrow>
          (case decode_members member members fresh of (Some e, _) \<Rightarrow> Inl e | (None, r) \<Rightarrow> Inr (Some r))
      | _ \<Rightarrow> Inl (''json: cannot unmarshal '' @ kind_of j @ '' into Go value of type '' @ type))"

definition decode_request :: "json \<Rightarrow> string + Request option" where
  "decode_request = decode_pointer request_member ''bridge.Request'' NewRequest"

definition decode_response :: "json \<Rightarrow> string + Response option" where
  "decode_response = decode_pointer response_member ''bridge.Response'' NewResponse"

section \<open>Round trips\<close>

lemma fold_names:
  "fold_name ''command'' = ''COMMAND''" "fold_name ''args'' = ''ARGS''" "fold_name ''wait'' = ''WAIT''"
  "fold_name ''ok'' = ''OK''" "fold_name ''pid'' = ''PID''" "fold_name ''exitCode'' = ''EXITCODE''"
  "fold_name ''message'' = ''MESSAGE''"
  by code_simp+

lemma decode_elements_strings: "decode_elements field (map (JStr \<circ> f) xs) = (None, map f xs)"
  by (induction xs) (simp_all add: decode_string_def)

lemma decode_encode_request:
  "decode_request (encode_request r) =
     Inr (Some \<lparr>Command = coerce_utf8 (Command r), rqArgs = map coerce_utf8 (rqArgs r), Wait = Wait r\<rparr>)"
  by (simp add: decode_request_def decode_pointer_def encode_request_def request_member_def decode_string_def
      decode_strings_def decode_bool_def decode_elements_strings NewRequest_def fold_names del: fold_name.simps)

lemma decode_encode_response:
  assumes "- (2 ^ 63) \<le> rsPID r" "rsPID r < 2 ^ 63" "- (2 ^ 63) \<le> rsExitCode r" "rsExitCode r < 2 ^ 63"
  shows "decode_response (encode_response r) =
    Inr (Some \<lparr>OK = OK r, rsPID = rsPID r, rsExitCode = rsExitCode r, Message = coerce_utf8 (Message r)\<rparr>)"
  using assms
  by (simp add: decode_response_def decode_pointer_def encode_response_def response_member_def decode_string_def
      decode_int_def decode_bool_def NewResponse_def fold_names del: fold_name.simps)

end
