(* ===== verification/Host_Bridge.thy ===== *)
theory Host_Bridge
  imports Bridge_Protocol Command_Exec Container_Env
begin

text \<open>
  The bridge of the host, which runs commands for a container: \<open>host/bridge/handler.go\<close> and
  \<open>host/bridge/socket.go\<close>.

  A connection is what the handler learns from it, in order: whether it is a unix socket, the
  results of \<open>SyscallConn\<close> and \<open>Control\<close>, the peer's user id or the error of asking for it, the
  result of \<open>SetReadDeadline\<close>, and the first JSON document within the size limit or the error of
  reading it; then the script of its writes (the error of each, if any) and what has been sent.
  A \<open>None\<close> result is a panic. The directory and environment of a started process (those of the
  host session) are not part of \<open>process\<close>. A command that is not waited for is run too: how it
  ends does not matter.
\<close>

record bridge_conn =
  isUnix :: bool
  sysErr :: "string option"
  controlErr :: "string option"
  peer :: "string + nat"
  deadlineErr :: "string option"
  document :: "string + json"
  writes :: "string option list"
  sent :: "Response list"

section \<open>handler.go\<close>

definition WriteJSON :: "bridge_conn \<Rightarrow> Response \<Rightarrow> bridge_conn \<times> string option" where
  "WriteJSON c response =
     (case writes c of
        [] \<Rightarrow> (c\<lparr>sent := sent c @ [response]\<rparr>, None)
      | None # rest \<Rightarrow> (c\<lparr>sent := sent c @ [response], writes := rest\<rparr>, None)
      | Some err # rest \<Rightarrow> (c\<lparr>writes := rest\<rparr>, Some err))"

definition WriteError :: "bridge_conn \<Rightarrow> string \<Rightarrow> bridge_conn \<times> string option" where
  "WriteError c err = WriteJSON c (NewResponse\<lparr>OK := False, rsPID := 0, rsExitCode := 1, Message := err\<rparr>)"

definition auth_error :: "Context \<Rightarrow> bridge_conn \<Rightarrow> string option" where
  "auth_error ctx c =
     (if \<not> isUnix c then Some ''connection is not a unix socket''
      else case sysErr c of
        Some err \<Rightarrow> Some (''get socket error: '' @ err)
      | None \<Rightarrow>
          (case controlErr c of
             Some err \<Rightarrow> Some (''get peer credentials error: '' @ err)
           | None \<Rightarrow>
               (case peer c of
                  Inl err \<Rightarrow> Some (''read peer credentials error: '' @ err)
                | Inr uid \<Rightarrow>
                    let requestUID = show_nat uid
                    in if requestUID \<noteq> UID ctx
                       then Some (''authentication error: unauthorized uid: '' @ requestUID) else None)))"

definition HandleRequest ::
  "'w runner \<Rightarrow> 'w host \<Rightarrow> Context \<Rightarrow> bridge_conn \<Rightarrow> ('w host \<times> bridge_conn \<times> string option) option" where
  "HandleRequest run h ctx c =
     (case auth_error ctx c of
        Some err \<Rightarrow> Some (h, c, Some err)
      | None \<Rightarrow>
          (case deadlineErr c of
             Some err \<Rightarrow> Some (h, c, Some err)
           | None \<Rightarrow>
               (case (case document c of Inl err \<Rightarrow> Inl err | Inr j \<Rightarrow> decode_request j) of
                  Inl err \<Rightarrow> Some (h, c, Some (''invalid request: '' @ err))
                | Inr None \<Rightarrow> None
                | Inr (Some request) \<Rightarrow>
                    let command = TrimSpace (Command request)
                    in if command = [] then Some (h, c, Some ''missing command'')
                       else case run_process run h \<lparr>prog = command, pargs = rqArgs request, pstdin = None\<rparr> of
                         (h, StartFails err) \<Rightarrow> Some (h, c, Some (''command error '' @ command @ '': '' @ err))
                       | (h, Ran pid _ _ ended) \<Rightarrow>
                           if \<not> Wait request
                           then (let (c, err) = WriteJSON c (NewResponse\<lparr>OK := True, rsPID := pid, rsExitCode := 0,
                                   Message := ''async''\<rparr>) in Some (h, c, err))
                           else case ended of
                             WaitFails err \<Rightarrow> Some (h, c, Some err)
                           | _ \<Rightarrow>
                               let exitCode = (case ended of Failed code _ \<Rightarrow> code | _ \<Rightarrow> 0);
                                   (c, err) = WriteJSON c (NewResponse\<lparr>OK := exitCode = 0, rsPID := pid,
                                     rsExitCode := exitCode, Message := []\<rparr>)
                               in Some (h, c, err))))"

section \<open>socket.go\<close>

text \<open>The worker of a connection; its last error is only printed.\<close>

definition serve_conn :: "'w runner \<Rightarrow> 'w host \<Rightarrow> Context \<Rightarrow> bridge_conn \<Rightarrow> ('w host \<times> bridge_conn) option" where
  "serve_conn run h ctx c =
     (case HandleRequest run h ctx c of
        None \<Rightarrow> None
      | Some (h, c, None) \<Rightarrow> Some (h, c)
      | Some (h, c, Some err) \<Rightarrow> Some (h, fst (WriteError c err)))"

definition bridge_socket :: "Context \<Rightarrow> string" where
  "bridge_socket ctx = run_user (UID ctx) ''lxg/bridge''"

text \<open>Up to the accept loop; the deferred calls remove the socket, and the listener unlinks it.\<close>

definition InitSocket_close :: "'a fs_scheme \<Rightarrow> Context \<Rightarrow> 'a fs_scheme" where
  "InitSocket_close f ctx = fst (Remove (fst (Remove f (bridge_socket ctx))) (bridge_socket ctx))"

definition InitSocket_open :: "'a fs_scheme \<Rightarrow> Context \<Rightarrow> 'a fs_scheme \<times> string option" where
  "InitSocket_open f ctx =
     (case Remove f (bridge_socket ctx) of
        (f, err) \<Rightarrow>
          if blocking err then (f, Some (''remove old socket error: '' @ errno_text (the err)))
          else case MkdirAll f (filepath_Dir (bridge_socket ctx)) of
            (f, Some e) \<Rightarrow> (f, Some (''create socket directory error: '' @ errno_text e))
          | (f, None) \<Rightarrow>
              (case Listen f (bridge_socket ctx) of
                 (f, Some e) \<Rightarrow> (f, Some (''create socket listener error: '' @ errno_text e))
               | (f, None) \<Rightarrow>
                   (case Chmod f (bridge_socket ctx) 384 of
                      (f, Some e) \<Rightarrow> (InitSocket_close f ctx, Some (''chmod socket error: '' @ errno_text e))
                    | (f, None) \<Rightarrow> (f, None))))"

text \<open>
  The results of \<open>Accept\<close>: a connection, or an error, which ends the loop if the listener is
  closed. The workers run concurrently; the model serves the connections in the order of
  acceptance. A worker that panics ends the program.
\<close>

datatype accepted = Accepted bridge_conn | AcceptError bool

fun serve_loop :: "'w runner \<Rightarrow> Context \<Rightarrow> accepted list \<Rightarrow> 'w host \<Rightarrow> ('w host \<times> bridge_conn list \<times> bool) option" where
  "serve_loop run ctx [] h = Some (h, [], False)"
| "serve_loop run ctx (AcceptError closed # rest) h =
     (if closed then Some (h, [], True) else serve_loop run ctx rest h)"
| "serve_loop run ctx (Accepted c # rest) h =
     do {
       (h, c) \<leftarrow> serve_conn run h ctx c;
       (h, cs, stopped) \<leftarrow> serve_loop run ctx rest h;
       Some (h, c # cs, stopped)
     }"

text \<open>
  \<open>InitSocket\<close>: the connections served, and the result once it has returned (\<open>None\<close> while it is
  accepting). Closing the listener unlinks the socket before the deferred calls do.
\<close>

definition InitSocket ::
  "('a fs_scheme) runner \<Rightarrow> ('a fs_scheme) host \<Rightarrow> Context \<Rightarrow> accepted list
     \<Rightarrow> (('a fs_scheme) host \<times> bridge_conn list \<times> string option option) option" where
  "InitSocket run h ctx accepts =
     (case InitSocket_open (world h) ctx of
        (f, Some e) \<Rightarrow> Some (h\<lparr>world := f\<rparr>, [], Some (Some e))
      | (f, None) \<Rightarrow> do {
          (h, cs, stopped) \<leftarrow> serve_loop run ctx accepts (h\<lparr>world := f\<rparr>);
          Some (if stopped
            then (h\<lparr>world := InitSocket_close (fst (Remove (world h) (bridge_socket ctx))) ctx\<rparr>, cs, Some None)
            else (h, cs, None))
        })"

section \<open>Properties of the handler\<close>

lemma HandleRequest_unauthorized:
  assumes "auth_error ctx c = Some err"
  shows "HandleRequest run h ctx c = Some (h, c, Some err)"
  using assms by (simp add: HandleRequest_def)

lemma auth_error_None: "auth_error ctx c = None \<longleftrightarrow>
    isUnix c \<and> sysErr c = None \<and> controlErr c = None \<and> (\<exists>uid. peer c = Inr uid \<and> show_nat uid = UID ctx)"
  by (auto simp: auth_error_def Let_def split: option.splits sum.splits)

text \<open>The request a connection carries, once its peer is authorised.\<close>

definition request_of :: "Context \<Rightarrow> bridge_conn \<Rightarrow> Request option" where
  "request_of ctx c =
     (if auth_error ctx c = None \<and> deadlineErr c = None
      then (case document c of Inl _ \<Rightarrow> None
        | Inr j \<Rightarrow> (case decode_request j of Inr (Some r) \<Rightarrow> if TrimSpace (Command r) = [] then None else Some r | _ \<Rightarrow> None))
      else None)"

text \<open>
  The processes run for a connection: the command of its request with its arguments, once, or
  nothing.
\<close>

lemma HandleRequest_runs:
  assumes "HandleRequest run h ctx c = Some (h', c', err)"
  shows "runs h' = runs h @ (case request_of ctx c of None \<Rightarrow> []
    | Some r \<Rightarrow> [\<lparr>prog = TrimSpace (Command r), pargs = rqArgs r, pstdin = None\<rparr>])"
proof (cases "request_of ctx c")
  case None
  then have "h' = h"
    using assms by (auto simp: HandleRequest_def request_of_def Let_def split: option.splits sum.splits if_splits)
  with None show ?thesis by simp
next
  case (Some r)
  then have auth: "auth_error ctx c = None" "deadlineErr c = None" "TrimSpace (Command r) \<noteq> []"
    and j: "(case document c of Inl err \<Rightarrow> Inl err | Inr j \<Rightarrow> decode_request j) = Inr (Some r)"
    by (auto simp: request_of_def split: if_splits sum.splits option.splits)
  obtain h1 oc where p: "run_process run h \<lparr>prog = TrimSpace (Command r), pargs = rqArgs r, pstdin = None\<rparr> = (h1, oc)" by force
  have "h' = h1"
    using assms by (auto simp: HandleRequest_def auth j Let_def p split: outcome.splits wait_end.splits if_splits prod.splits)
  moreover have "runs h1 = runs h @ [\<lparr>prog = TrimSpace (Command r), pargs = rqArgs r, pstdin = None\<rparr>]"
    using runs_run_process [of run h "\<lparr>prog = TrimSpace (Command r), pargs = rqArgs r, pstdin = None\<rparr>"] p by simp
  ultimately show ?thesis using Some by simp
qed

text \<open>A worker panics exactly when an authorised peer sends \<open>null\<close>.\<close>

lemma decode_pointer_nil: "decode_pointer member type fresh j = Inr None \<longleftrightarrow> j = JNull"
  by (auto simp: decode_pointer_def split: json.splits prod.splits option.splits)

lemma HandleRequest_panics:
  "HandleRequest run h ctx c = None \<longleftrightarrow> auth_error ctx c = None \<and> deadlineErr c = None \<and> document c = Inr JNull"
proof -
  have "(case document c of Inl err \<Rightarrow> Inl err | Inr j \<Rightarrow> decode_request j) = Inr None \<longleftrightarrow> document c = Inr JNull"
    by (cases "document c") (simp_all add: decode_request_def decode_pointer_nil)
  then show ?thesis
    by (auto simp: HandleRequest_def Let_def split: option.split sum.split prod.split outcome.split wait_end.split)
qed

lemma WriteJSON_sent:
  assumes "WriteJSON c r = (c', err)"
  shows "sent c' = sent c @ (if err = None then [r] else [])" and "list_all (\<lambda>w. w = None) (writes c) \<Longrightarrow> err = None"
  using assms by (auto simp: WriteJSON_def split: list.splits option.splits)

lemma HandleRequest_sent:
  assumes "HandleRequest run h ctx c = Some (h', c', err)"
  shows "(\<exists>r. WriteJSON c r = (c', err)) \<or> c' = c \<and> err \<noteq> None"
  using assms by (auto simp: HandleRequest_def Let_def split: option.splits sum.splits if_splits prod.splits outcome.splits wait_end.splits)

text \<open>Every connection is answered at most once, and exactly once if it can be written to.\<close>

lemma serve_conn_once:
  assumes "serve_conn run h ctx c = Some (h', c')"
  shows "\<exists>rs. sent c' = sent c @ rs \<and> length rs \<le> 1 \<and> (list_all (\<lambda>w. w = None) (writes c) \<longrightarrow> length rs = 1)"
proof -
  obtain c1 err where hr: "HandleRequest run h ctx c = Some (h', c1, err)"
    and c': "c' = (case err of None \<Rightarrow> c1 | Some e \<Rightarrow> fst (WriteError c1 e))"
    using assms by (auto simp: serve_conn_def split: option.splits prod.splits)
  from HandleRequest_sent [OF hr] consider (answered) r where "WriteJSON c r = (c1, err)" | (failed) e where "c1 = c" "err = Some e"
    by (cases err) auto
  then show ?thesis
  proof cases
    case answered
    note w = WriteJSON_sent [OF answered]
    show ?thesis
    proof (cases err)
      case None
      with w c' show ?thesis by simp
    next
      case (Some e)
      obtain c2 err2 where we: "WriteError c1 e = (c2, err2)" by force
      from WriteJSON_sent(1) [OF this [unfolded WriteError_def]] w Some c' we show ?thesis by auto
    qed
  next
    case failed
    obtain c2 err2 where we: "WriteError c1 e = (c2, err2)" by force
    from WriteJSON_sent [OF this [unfolded WriteError_def]] failed c' we show ?thesis by auto
  qed
qed

section \<open>The socket of the bridge\<close>

lemma bridge_comps:
  assumes "component_ok (UID ctx)"
  shows "comps (bridge_socket ctx) = lxg_path (UID ctx) @ [''bridge'']"
    and "comps (filepath_Dir (bridge_socket ctx)) = lxg_path (UID ctx)"
proof -
  have l: "comps ''lxg'' = [''lxg'']" by (simp add: comps_def)
  have "comps (filepath_Dir (run_user (UID ctx) (''lxg'' @ ''/'' @ ''bridge''))) = ''run'' # ''user'' # UID ctx # comps ''lxg''"
    by (rule Dir_run_user [OF assms]) (simp_all add: comps_def)
  then show "comps (filepath_Dir (bridge_socket ctx)) = lxg_path (UID ctx)"
    by (simp add: bridge_socket_def lxg_path_def l)
  show "comps (bridge_socket ctx) = lxg_path (UID ctx) @ [''bridge'']"
    by (simp add: bridge_socket_def comps_run_user [OF assms] lxg_path_def) (simp add: comps_def)
qed

text \<open>
  After \<open>InitSocket\<close> has opened its socket on the host, where \<open>lxg\<close> is a directory or missing, there
  is exactly one new directory at most, the socket, and its mode is 0600.
\<close>

lemma InitSocket_open_done:
  assumes uid: "component_ok (UID ctx)" and ok: "fs_ok f" and r: "lookup f (run_dir (UID ctx)) = Some Dir"
    and lxg: "lookup f (lxg_path (UID ctx)) \<in> {None, Some Dir}"
    and run: "InitSocket_open f ctx = (f', None)"
  shows "fs_ok f'" and "lookup f' = (lookup f)(lxg_path (UID ctx) \<mapsto> Dir, lxg_path (UID ctx) @ [''bridge''] \<mapsto> Sock)"
    and "map_of (modes f') (lxg_path (UID ctx) @ [''bridge'']) = Some 384"
proof -
  let ?p = "lxg_path (UID ctx)" and ?r = "run_dir (UID ctx)"
  have p: "?p = ?r @ [''lxg'']" by (rule lxg_path_alt)
  have dots: "''..'' \<notin> set (?r @ [''lxg''])" using uid by (auto simp: run_dir_def component_ok_def)
  have R: "dir_ok ?r ?r f" using plain_dir [OF ok r] dots by simp
  have n: "''bridge'' \<noteq> ''..''" by simp
  obtain f1 err f2 f3 where rm: "remove_entry f (?p @ [''bridge'']) = (f1, err)" "\<not> blocking err"
    and md: "mkdir_all f1 (rev ?p) = (f2, None)"
    and li: "create_entry OpListen EADDRINUSE Sock f2 (?p @ [''bridge'']) = (f3, None)"
    and ch: "chmod_at f3 (?p @ [''bridge'']) 384 = (f', None)"
    using run by (auto simp: InitSocket_open_def bridge_comps [OF uid] split: prod.splits option.splits if_splits)
  have f1: "fs_ok f1 \<and> lookup f1 = (lookup f)(?p @ [''bridge''] := None)"
  proof (cases "lookup f ?p")
    case (Some m)
    with lxg have "dir_ok ?p ?p f" using plain_dir [OF ok, of ?p] dots by (simp add: p)
    note re = remove_entry_done [OF this n rm(1)]
    with rm(2) show ?thesis by (cases err) (auto simp: not_blocking fun_upd_idem)
  next
    case None
    then have "lookup f (?p @ [''bridge'']) = None"
      using fs_ok_parent [OF ok, of "?p @ [''bridge'']"] by (cases "lookup f (?p @ [''bridge''])") auto
    moreover have "walk (lookup f) False links [] (?p @ [''bridge'']) = Inl ENOENT" for links
    proof -
      have "lookup f [''run''] = Some Dir" "lookup f [''run'', ''user''] = Some Dir"
        using fs_ok_prefixes [OF ok r] by (simp_all add: run_dir_def)
      with None r dots show ?thesis by (simp add: lxg_path_def run_dir_def)
    qed
    then have "f1 = f" using rm(1) by (auto simp: remove_entry_def resolve_def split: option.splits)
    ultimately show ?thesis using ok by (simp add: fun_upd_idem)
  qed
  have "lookup f1 ?r = Some Dir" "lookup f1 (?r @ [''lxg'']) \<in> {None, Some Dir}"
    using f1 r lxg by (simp_all add: p)
  note m = mkdir_all_last [OF conjunct1 [OF f1] this(1) dots this(2) md [unfolded p]]
  have "lookup f2 ?p = Some Dir" using m by (simp add: p)
  then have D: "dir_ok ?p ?p f2" using plain_dir m dots by (metis p)
  note l = create_entry_done [OF D n li]
  have D3: "dir_ok ?p ?p f3" using l dir_ok_change [OF D] by simp
  have sock: "lookup f3 (?p @ [''bridge'']) = Some Sock" using l by simp
  show "fs_ok f'" using fs_ok_chmod [OF l(1), of "?p @ [''bridge'']" 384] ch by simp
  show "lookup f' = (lookup f)(?p \<mapsto> Dir, ?p @ [''bridge''] \<mapsto> Sock)"
  proof -
    have "lookup f' = lookup f3" using chmod_kept [of f3 "?p @ [''bridge'']" 384] ch by (metis fst_conv)
    then show ?thesis using l(2) m f1 by (auto simp: p fun_eq_iff)
  qed
  show "map_of (modes f') (?p @ [''bridge'']) = Some 384"
    using ch dir_ok_resolve [OF D3 n, of True] sock
    by (auto simp: chmod_at_def update_conv split: option.splits sum.splits)
qed

end
