(* ===== verification/Host_Init.thy ===== *)
theory Host_Init
  imports Host_Mounts Host_Bridge
begin

text \<open>
  The daemon of the host: \<open>InitDBus\<close> of \<open>host/dbus/dbus.go\<close>, and \<open>Init\<close> of \<open>host/init.go\<close>, which
  runs eight services in goroutines, cancels them all when one fails, and returns the first error
  that is not a cancellation.

  \<open>Init\<close> is a step relation. A service is at one of the points of its goroutine; the channel of
  errors has its buffer, the collector its loop. Which service moves when is not determined. When
  and how a service function returns is up to it.
\<close>

section \<open>host/dbus/dbus.go\<close>

definition dbus_proxy_path :: "Context \<Rightarrow> string" where
  "dbus_proxy_path ctx = run_user (UID ctx) ''lxg/bus''"

text \<open>
  How the proxy process ends: it does not start, or \<open>Wait\<close> returns an error or none, with the
  context cancelled or not. It may change the file system meanwhile.
\<close>

datatype proxy_end = ProxyStartFails string | ProxyEnded "string option" bool

definition InitDBus ::
  "string \<Rightarrow> bool \<Rightarrow> (process \<Rightarrow> 'a fs_scheme \<Rightarrow> 'a fs_scheme \<times> proxy_end) \<Rightarrow> 'a fs_scheme \<Rightarrow> Context
     \<Rightarrow> 'a fs_scheme \<times> string option" where
  "InitDBus sessionAddress installed proxy f ctx =
     (let proxyPath = dbus_proxy_path ctx
      in if sessionAddress = [] then (f, None)
         else if \<not> installed then (f, None)
         else case Remove f proxyPath of
           (f, err) \<Rightarrow>
             if blocking err then (f, Some (''remove old dbus proxy error: '' @ errno_text (the err)))
             else case MkdirAll f (filepath_Dir proxyPath) of
               (f, Some e) \<Rightarrow> (f, Some (''create dbus proxy directory error: '' @ errno_text e))
             | (f, None) \<Rightarrow>
                 (case proxy \<lparr>prog = ''xdg-dbus-proxy'', pargs = [sessionAddress, proxyPath, ''--log''], pstdin = None\<rparr> f of
                    (f, ProxyStartFails err) \<Rightarrow> (fst (Remove f proxyPath), Some (''dbus proxy error: '' @ err))
                  | (f, ProxyEnded err cancelled) \<Rightarrow>
                      (fst (Remove f proxyPath),
                       if err \<noteq> None \<and> \<not> cancelled then Some (''dbus proxy stopped with error: '' @ the err) else None)))"

text \<open>A cancelled proxy is not an error, and its socket is gone afterwards.\<close>

lemma InitDBus_cancelled:
  assumes "InitDBus addr installed proxy f ctx = (f', Some err)"
    and "\<And>p g g' e c. proxy p g = (g', ProxyEnded e c) \<Longrightarrow> c"
    and "\<And>p g g' e. proxy p g \<noteq> (g', ProxyStartFails e)"
  shows "\<exists>e. err = ''remove old dbus proxy error: '' @ e \<or> err = ''create dbus proxy directory error: '' @ e"
  using assms by (auto simp: InitDBus_def Let_def split: if_splits prod.splits option.splits proxy_end.splits)

section \<open>host/init.go\<close>

datatype service_error = Canceled | Failure string

text \<open>The points of a service's goroutine.\<close>

datatype phase = Running | Sending service_error | Cancelling | Leaving | Finished

record init_state =
  phases :: "phase list"
  errChan :: "service_error list"
  closed :: bool
  cancelled :: bool
  firstErr :: "service_error option"
  returned :: bool
  sent_errors :: "service_error list"

definition init_services :: "string list" where
  "init_services = [''LinkWayland'', ''LinkPipewire'', ''LinkPulseNative'', ''LinkX11Zero'', ''LinkX11One'',
     ''LinkX11Auth'', ''InitDBus'', ''InitSocket'']"

definition errChan_cap :: nat where
  "errChan_cap = 8"

definition Init_start :: init_state where
  "Init_start = \<lparr>phases = replicate (length init_services) Running, errChan = [], closed = False, cancelled = False,
     firstErr = None, returned = False, sent_errors = []\<rparr>"

definition collect :: "service_error option \<Rightarrow> service_error \<Rightarrow> service_error option" where
  "collect first err = (if first = None \<and> err \<noteq> Canceled then Some err else first)"

inductive init_step :: "init_state \<Rightarrow> init_state \<Rightarrow> bool" where
  service_ok: "\<lbrakk>i < length (phases s); phases s ! i = Running\<rbrakk> \<Longrightarrow> init_step s (s\<lparr>phases := (phases s)[i := Leaving]\<rparr>)"
| service_err: "\<lbrakk>i < length (phases s); phases s ! i = Running\<rbrakk> \<Longrightarrow> init_step s (s\<lparr>phases := (phases s)[i := Sending e]\<rparr>)"
| send: "\<lbrakk>i < length (phases s); phases s ! i = Sending e; length (errChan s) < errChan_cap\<rbrakk> \<Longrightarrow>
    init_step s (s\<lparr>phases := (phases s)[i := Cancelling], errChan := errChan s @ [e], sent_errors := sent_errors s @ [e]\<rparr>)"
| cancel: "\<lbrakk>i < length (phases s); phases s ! i = Cancelling\<rbrakk> \<Longrightarrow>
    init_step s (s\<lparr>phases := (phases s)[i := Leaving], cancelled := True\<rparr>)"
| leave: "\<lbrakk>i < length (phases s); phases s ! i = Leaving\<rbrakk> \<Longrightarrow> init_step s (s\<lparr>phases := (phases s)[i := Finished]\<rparr>)"
| signal: "init_step s (s\<lparr>cancelled := True\<rparr>)"
| close: "\<lbrakk>list_all (\<lambda>p. p = Finished) (phases s); \<not> closed s\<rbrakk> \<Longrightarrow> init_step s (s\<lparr>closed := True\<rparr>)"
| receive: "\<lbrakk>errChan s = e # rest; \<not> returned s\<rbrakk> \<Longrightarrow>
    init_step s (s\<lparr>errChan := rest, firstErr := collect (firstErr s) e\<rparr>)"
| return: "\<lbrakk>errChan s = []; closed s; \<not> returned s\<rbrakk> \<Longrightarrow> init_step s (s\<lparr>returned := True, cancelled := True\<rparr>)"

inductive_cases init_stepE: "init_step s t"

inductive init_reach :: "init_state \<Rightarrow> bool" where
  start: "init_reach Init_start"
| step: "init_reach s \<Longrightarrow> init_step s t \<Longrightarrow> init_reach t"

text \<open>The errors received so far are those sent that are no longer in the channel.\<close>

definition unsent :: "phase \<Rightarrow> bool" where
  "unsent p \<longleftrightarrow> p = Running \<or> (\<exists>e. p = Sending e)"

definition init_inv :: "init_state \<Rightarrow> bool" where
  "init_inv s \<longleftrightarrow> length (phases s) = length init_services \<and>
     length (sent_errors s) + length (filter unsent (phases s)) \<le> length init_services \<and>
     (\<exists>received. sent_errors s = received @ errChan s \<and> firstErr s = foldl collect None received) \<and>
     (closed s \<longrightarrow> list_all (\<lambda>p. p = Finished) (phases s)) \<and>
     (returned s \<longrightarrow> closed s \<and> errChan s = []) \<and>
     (sent_errors s \<noteq> [] \<longrightarrow> cancelled s \<or> Cancelling \<in> set (phases s))"

section \<open>The invariant\<close>

lemma length_filter_update:
  "i < length xs \<Longrightarrow> length (filter P (xs[i := x])) + (if P (xs ! i) then 1 else 0) =
     length (filter P xs) + (if P x then 1 else 0)"
proof (induction xs arbitrary: i)
  case (Cons a xs)
  show ?case
  proof (cases i)
    case (Suc j)
    with Cons.prems Cons.IH [of j] show ?thesis by (simp split: if_splits)
  qed simp
qed simp

lemma unsent_simps [simp]: "unsent Running" "unsent (Sending e)" "\<not> unsent Cancelling" "\<not> unsent Leaving" "\<not> unsent Finished"
  by (simp_all add: unsent_def)

lemma not_finished: "i < length ps \<Longrightarrow> ps ! i \<noteq> Finished \<Longrightarrow> \<not> list_all (\<lambda>p. p = Finished) ps"
  by (auto simp: list_all_length)

lemma cancelling_update: "Cancelling \<in> set ps \<Longrightarrow> i < length ps \<Longrightarrow> ps ! i \<noteq> Cancelling \<Longrightarrow> Cancelling \<in> set (ps[i := p])"
  by (metis in_set_conv_nth length_list_update nth_list_update_neq)

lemma init_inv_start: "init_inv Init_start"
  by (simp add: init_inv_def Init_start_def init_services_def)

lemma init_inv_step:
  assumes "init_step s t" and "init_inv s"
  shows "init_inv t"
  using assms
proof (cases rule: init_step.cases)
  case (service_ok i)
  with assms(2) length_filter_update [of i "phases s" unsent Leaving] not_finished [of i "phases s"]
    cancelling_update [of "phases s" i Leaving]
  show ?thesis by (auto simp: init_inv_def)
next
  case (service_err i e)
  with assms(2) length_filter_update [of i "phases s" unsent "Sending e"] not_finished [of i "phases s"]
    cancelling_update [of "phases s" i "Sending e"]
  show ?thesis by (auto simp: init_inv_def)
next
  case (send i e)
  have "Cancelling \<in> set ((phases s)[i := Cancelling])" using send(2) by (meson set_update_memI)
  with send assms(2) length_filter_update [of i "phases s" unsent Cancelling] not_finished [of i "phases s"]
  show ?thesis by (auto simp: init_inv_def)
next
  case (cancel i)
  with assms(2) length_filter_update [of i "phases s" unsent Leaving] not_finished [of i "phases s"]
  show ?thesis by (auto simp: init_inv_def)
next
  case (leave i)
  with assms(2) length_filter_update [of i "phases s" unsent Finished] not_finished [of i "phases s"]
    cancelling_update [of "phases s" i Finished]
  show ?thesis by (auto simp: init_inv_def)
next
  case signal
  with assms(2) show ?thesis by (auto simp: init_inv_def)
next
  case close
  with assms(2) show ?thesis by (auto simp: init_inv_def)
next
  case (receive e rest)
  from assms(2) obtain r where "sent_errors s = r @ errChan s" "firstErr s = foldl collect None r"
    by (auto simp: init_inv_def)
  with receive have "sent_errors s = (r @ [e]) @ rest \<and> collect (firstErr s) e = foldl collect None (r @ [e])" by simp
  with receive assms(2) show ?thesis unfolding init_inv_def by simp
next
  case return
  with assms(2) show ?thesis by (auto simp: init_inv_def)
qed

lemma init_reach_inv: "init_reach s \<Longrightarrow> init_inv s"
  by (induction rule: init_reach.induct) (auto intro: init_inv_start init_inv_step)

lemma collect_find: "foldl collect first es = (case first of Some e \<Rightarrow> Some e | None \<Rightarrow> find (\<lambda>e. e \<noteq> Canceled) es)"
  by (induction es arbitrary: first) (auto simp: collect_def split: option.split)

section \<open>Every run ends\<close>

fun phase_rank :: "phase \<Rightarrow> nat" where
  "phase_rank Running = 5"
| "phase_rank (Sending e) = 4"
| "phase_rank Cancelling = 2"
| "phase_rank Leaving = 1"
| "phase_rank Finished = 0"

definition init_rank :: "init_state \<Rightarrow> nat" where
  "init_rank s = sum_list (map phase_rank (phases s)) + length (errChan s) + (if closed s then 0 else 1)
     + (if returned s then 0 else 1)"

lemma sum_phases_update:
  "i < length ps \<Longrightarrow> sum_list (map phase_rank (ps[i := p])) + phase_rank (ps ! i) = sum_list (map phase_rank ps) + phase_rank p"
proof (induction ps arbitrary: i)
  case (Cons a ps)
  show ?case
  proof (cases i)
    case (Suc j)
    with Cons.prems Cons.IH [of j] show ?thesis by simp
  qed simp
qed simp

text \<open>Every step but another signal brings the run closer to its end.\<close>

lemma init_step_rank: "init_step s t \<Longrightarrow> t = s\<lparr>cancelled := True\<rparr> \<or> init_rank t < init_rank s"
proof (induction rule: init_step.induct)
  case (service_ok i s)
  with sum_phases_update [of i "phases s" Leaving] show ?case by (simp add: init_rank_def)
next
  case (service_err i s e)
  with sum_phases_update [of i "phases s" "Sending e"] show ?case by (simp add: init_rank_def)
next
  case (send i s e)
  with sum_phases_update [of i "phases s" Cancelling] show ?case by (simp add: init_rank_def)
next
  case (cancel i s)
  with sum_phases_update [of i "phases s" Leaving] show ?case by (simp add: init_rank_def)
next
  case (leave i s)
  with sum_phases_update [of i "phases s" Finished] show ?case by (simp add: init_rank_def)
qed (auto simp: init_rank_def)

text \<open>
  Nothing but a service function that has not returned can hold \<open>Init\<close> up: the buffer has room for
  every error, so no goroutine blocks on it.
\<close>

lemma init_progress:
  assumes inv: "init_inv s" and "\<not> returned s" and "Running \<notin> set (phases s)"
  shows "\<exists>t. init_step s t \<and> init_rank t < init_rank s"
proof (cases "\<exists>i < length (phases s). phases s ! i \<noteq> Finished")
  case True
  then obtain i where i: "i < length (phases s)" "phases s ! i \<noteq> Finished" by blast
  have run: "phases s ! i \<noteq> Running" using assms(3) i(1) nth_mem by metis
  show ?thesis
  proof (cases "phases s ! i")
    case (Sending e)
    then have "length (filter unsent (phases s)) \<ge> 1"
      using i(1) by (metis filter_empty_conv length_0_conv less_one not_less nth_mem unsent_simps(2))
    moreover have "length (errChan s) \<le> length (sent_errors s)" using inv by (auto simp: init_inv_def)
    ultimately have "length (errChan s) < errChan_cap"
      using inv by (simp add: init_inv_def init_services_def errChan_cap_def)
    from init_step.send [OF i(1) Sending this] sum_phases_update [OF i(1), of Cancelling] Sending
    show ?thesis by (intro exI conjI) (assumption, simp add: init_rank_def)
  next
    case Cancelling
    from init_step.cancel [OF i(1) this] sum_phases_update [OF i(1), of Leaving] Cancelling
    show ?thesis by (intro exI conjI) (assumption, simp add: init_rank_def)
  next
    case Leaving
    from init_step.leave [OF i(1) this] sum_phases_update [OF i(1), of Finished] Leaving
    show ?thesis by (intro exI conjI) (assumption, simp add: init_rank_def)
  qed (use i run in auto)
next
  case False
  then have fin: "list_all (\<lambda>p. p = Finished) (phases s)" by (auto simp: list_all_length)
  show ?thesis
  proof (cases "closed s")
    case closed: True
    show ?thesis
    proof (cases "errChan s")
      case Nil
      from init_step.return [OF this closed assms(2)] assms(2) show ?thesis
        by (intro exI conjI) (assumption, simp add: init_rank_def)
    next
      case (Cons e rest)
      from init_step.receive [OF this assms(2)] Cons show ?thesis
        by (intro exI conjI) (assumption, simp add: init_rank_def)
    qed
  next
    case False
    from init_step.close [OF fin this] False show ?thesis by (intro exI conjI) (assumption, simp add: init_rank_def)
  qed
qed

end
