(* ===== verification/Host_Daemon.thy ===== *)
theory Host_Daemon
  imports Host_Init Container_Start
begin

text \<open>
  The daemon of the host with its files: the step relation of \<open>Init\<close> (\<open>host/init.go\<close>), in which
  the goroutine of a service now runs that service's own function (\<open>host/run\<close>, \<open>host/dbus\<close>,
  \<open>host/bridge\<close>) on the file system, and in which the clean-ups that the bind mounts have left
  behind run when the context is cancelled. Each service owns one name of the directory shared
  with the containers, so the services do not disturb each other, whatever their order.

  A service function that returns at once is one step; the two that serve are a step that opens
  and one that closes. What runs inside the bridge is not part of it, and no other program changes
  the file system meanwhile, except that the bus proxy makes its socket.
\<close>

section \<open>The services\<close>

text \<open>The first six goroutines, in the order of \<open>Init\<close>; the last of them can panic.\<close>

definition link_service :: "nat \<Rightarrow> 'a fs_scheme \<Rightarrow> Context \<Rightarrow> ('a fs_scheme \<times> string option \<times> bool) option" where
  "link_service i f ctx =
     (if i = 0 then Some (LinkWayland f ctx)
      else if i = 1 then Some (LinkPipewire f ctx)
      else if i = 2 then Some (LinkPulseNative f ctx)
      else if i = 3 then Some (LinkX11Zero f ctx)
      else if i = 4 then Some (LinkX11One f ctx)
      else LinkX11Auth f ctx)"

definition link_names :: "string list" where
  "link_names = [''wayland-0'', ''pipewire-0'', ''pulse-native'', ''X11-X0'', ''X11-X1'', ''X11-Xauth'']"

text \<open>\<open>InitDBus\<close> up to the start of the proxy: the result, and whether the proxy is to be started.\<close>

definition InitDBus_prepare :: "string \<Rightarrow> bool \<Rightarrow> 'a fs_scheme \<Rightarrow> Context \<Rightarrow> 'a fs_scheme \<times> string option \<times> bool" where
  "InitDBus_prepare sessionAddress installed f ctx =
     (let proxyPath = dbus_proxy_path ctx
      in if sessionAddress = [] then (f, None, False)
         else if \<not> installed then (f, None, False)
         else case Remove f proxyPath of
           (f, err) \<Rightarrow>
             if blocking err then (f, Some (''remove old dbus proxy error: '' @ errno_text (the err)), False)
             else case MkdirAll f (filepath_Dir proxyPath) of
               (f, Some e) \<Rightarrow> (f, Some (''create dbus proxy directory error: '' @ errno_text e), False)
             | (f, None) \<Rightarrow> (f, None, True))"

lemma InitDBus_parts:
  "InitDBus addr installed proxy f ctx =
     (case InitDBus_prepare addr installed f ctx of
        (f, err, False) \<Rightarrow> (f, err)
      | (f, err, True) \<Rightarrow>
          (case proxy \<lparr>prog = ''xdg-dbus-proxy'', pargs = [addr, dbus_proxy_path ctx, ''--log''], pstdin = None\<rparr> f of
             (f, ProxyStartFails err) \<Rightarrow> (fst (Remove f (dbus_proxy_path ctx)), Some (''dbus proxy error: '' @ err))
           | (f, ProxyEnded err stopped) \<Rightarrow>
               (fst (Remove f (dbus_proxy_path ctx)),
                if err \<noteq> None \<and> \<not> stopped then Some (''dbus proxy stopped with error: '' @ the err) else None)))"
  by (auto simp: InitDBus_def InitDBus_prepare_def Let_def split: prod.split option.split)

section \<open>The daemon\<close>

text \<open>
  \<open>cleanups\<close> are the services whose bind mount has a goroutine that waits to undo it. A panic in
  any goroutine ends the program.
\<close>

record 'f daemon =
  group :: init_state
  files :: 'f
  cleanups :: "nat list"
  listening :: bool
  proxying :: bool
  died :: bool

definition daemon_start :: "'f \<Rightarrow> 'f daemon" where
  "daemon_start f = \<lparr>group = Init_start, files = f, cleanups = [], listening = False, proxying = False, died = False\<rparr>"

text \<open>The service function of a goroutine has returned.\<close>

definition service_returns :: "init_state \<Rightarrow> nat \<Rightarrow> string option \<Rightarrow> init_state" where
  "service_returns g i err =
     g\<lparr>phases := (phases g)[i := (case err of None \<Rightarrow> Leaving | Some e \<Rightarrow> Sending (Failure e))]\<rparr>"

definition running :: "init_state \<Rightarrow> nat \<Rightarrow> bool" where
  "running g i \<longleftrightarrow> i < length (phases g) \<and> phases g ! i = Running"

definition link_target :: "Context \<Rightarrow> nat \<Rightarrow> string" where
  "link_target ctx i = run_user (UID ctx) (''lxg/'' @ link_names ! i)"

definition InitSocket_leave :: "'a fs_scheme \<Rightarrow> Context \<Rightarrow> 'a fs_scheme" where
  "InitSocket_leave f ctx = InitSocket_close (fst (Remove f (bridge_socket ctx))) ctx"

inductive daemon_step :: "Context \<Rightarrow> string \<Rightarrow> bool \<Rightarrow> 'a fs_scheme daemon \<Rightarrow> 'a fs_scheme daemon \<Rightarrow> bool"
  for ctx addr installed where
  link: "\<lbrakk>\<not> died d; i < 6; running (group d) i; link_service i (files d) ctx = Some (f, err, bound)\<rbrakk> \<Longrightarrow>
    daemon_step ctx addr installed d
      (d\<lparr>group := service_returns (group d) i err, files := f, cleanups := (if bound then i # cleanups d else cleanups d)\<rparr>)"
| link_panic: "\<lbrakk>\<not> died d; i < 6; running (group d) i; link_service i (files d) ctx = None\<rbrakk> \<Longrightarrow>
    daemon_step ctx addr installed d (d\<lparr>died := True\<rparr>)"
| proxy_not_started: "\<lbrakk>\<not> died d; running (group d) 6; \<not> proxying d;
    InitDBus_prepare addr installed (files d) ctx = (f, err, False)\<rbrakk> \<Longrightarrow>
    daemon_step ctx addr installed d (d\<lparr>group := service_returns (group d) 6 err, files := f\<rparr>)"
| proxy_starts: "\<lbrakk>\<not> died d; running (group d) 6; \<not> proxying d;
    InitDBus_prepare addr installed (files d) ctx = (f, err, True)\<rbrakk> \<Longrightarrow>
    daemon_step ctx addr installed d (d\<lparr>files := f, proxying := True\<rparr>)"
| proxy_fails: "\<lbrakk>\<not> died d; running (group d) 6; \<not> proxying d;
    InitDBus_prepare addr installed (files d) ctx = (f, err, True)\<rbrakk> \<Longrightarrow>
    daemon_step ctx addr installed d
      (d\<lparr>group := service_returns (group d) 6 (Some (''dbus proxy error: '' @ e)), files := fst (Remove f (dbus_proxy_path ctx))\<rparr>)"
| proxy_listens: "\<lbrakk>\<not> died d; proxying d; lookup (files d) (lxg_path (UID ctx) @ [''bus'']) = None\<rbrakk> \<Longrightarrow>
    daemon_step ctx addr installed d (d\<lparr>files := set_node (lxg_path (UID ctx) @ [''bus'']) Sock (files d)\<rparr>)"
| proxy_ends: "\<lbrakk>\<not> died d; proxying d\<rbrakk> \<Longrightarrow>
    daemon_step ctx addr installed d
      (d\<lparr>group := service_returns (group d) 6 (if err \<noteq> None \<and> \<not> cancelled (group d)
           then Some (''dbus proxy stopped with error: '' @ the err) else None),
         files := fst (Remove (files d) (dbus_proxy_path ctx)), proxying := False\<rparr>)"
| bridge_fails: "\<lbrakk>\<not> died d; running (group d) 7; \<not> listening d; InitSocket_open (files d) ctx = (f, Some e)\<rbrakk> \<Longrightarrow>
    daemon_step ctx addr installed d (d\<lparr>group := service_returns (group d) 7 (Some e), files := f\<rparr>)"
| bridge_opens: "\<lbrakk>\<not> died d; running (group d) 7; \<not> listening d; InitSocket_open (files d) ctx = (f, None)\<rbrakk> \<Longrightarrow>
    daemon_step ctx addr installed d (d\<lparr>files := f, listening := True\<rparr>)"
| bridge_closes: "\<lbrakk>\<not> died d; listening d; cancelled (group d)\<rbrakk> \<Longrightarrow>
    daemon_step ctx addr installed d
      (d\<lparr>group := service_returns (group d) 7 None, files := InitSocket_leave (files d) ctx, listening := False\<rparr>)"
| bridge_panic: "\<lbrakk>\<not> died d; listening d\<rbrakk> \<Longrightarrow> daemon_step ctx addr installed d (d\<lparr>died := True\<rparr>)"
| clean_up: "\<lbrakk>\<not> died d; i \<in> set (cleanups d); cancelled (group d)\<rbrakk> \<Longrightarrow>
    daemon_step ctx addr installed d
      (d\<lparr>files := BindMount_cancel (files d) (link_target ctx i), cleanups := remove1 i (cleanups d)\<rparr>)"
| coordinate: "\<lbrakk>\<not> died d; init_step (group d) g; running g = running (group d)\<rbrakk> \<Longrightarrow>
    daemon_step ctx addr installed d (d\<lparr>group := g\<rparr>)"

inductive daemon_reach :: "Context \<Rightarrow> string \<Rightarrow> bool \<Rightarrow> 'a fs_scheme \<Rightarrow> 'a fs_scheme daemon \<Rightarrow> bool"
  for ctx addr installed f0 where
  start: "daemon_reach ctx addr installed f0 (daemon_start f0)"
| step: "daemon_reach ctx addr installed f0 d \<Longrightarrow> daemon_step ctx addr installed d d' \<Longrightarrow> daemon_reach ctx addr installed f0 d'"

section \<open>The steps of the group\<close>

text \<open>Every step of the daemon is a step of \<open>Init\<close>, or none: all that holds of \<open>Init\<close> holds of it.\<close>

lemma service_returns_step:
  assumes "running g i"
  shows "init_step g (service_returns g i err)"
  using assms init_step.service_ok [of i g] init_step.service_err [of i g]
  by (cases err) (auto simp: running_def service_returns_def)

definition serving :: "'f daemon \<Rightarrow> bool" where
  "serving d \<longleftrightarrow> (proxying d \<longrightarrow> running (group d) 6) \<and> (listening d \<longrightarrow> running (group d) 7)"

lemma running_returns [simp]:
  "running (service_returns g i err) j \<longleftrightarrow> running g j \<and> j \<noteq> i"
  by (cases "i = j") (auto simp: running_def service_returns_def split: option.split)

lemma running_cancelled [simp]: "running (g\<lparr>cancelled := c\<rparr>) = running g"
  by (simp add: running_def fun_eq_iff)

lemma cancelled_returns [simp]: "cancelled (service_returns g i err) = cancelled g"
  by (simp add: service_returns_def)

lemma daemon_simulates:
  assumes "daemon_step ctx addr installed d d'" and "serving d"
  shows "(group d' = group d \<or> init_step (group d) (group d')) \<and> serving d'"
  using assms
  by (induction rule: daemon_step.induct) (auto simp: serving_def intro: service_returns_step)

lemma daemon_serving: "daemon_reach ctx addr installed f0 d \<Longrightarrow> serving d \<and> init_reach (group d)"
proof (induction rule: daemon_reach.induct)
  case start
  show ?case by (simp add: serving_def daemon_start_def init_reach.start)
next
  case (step d d')
  with daemon_simulates show ?case by (metis init_reach.step)
qed

section \<open>The shared directory\<close>

definition daemon_names :: "string list" where
  "daemon_names = link_names @ [''bus'', ''bridge'']"

lemma link_names_simps [simp]: "length link_names = 6" "distinct link_names" "''bus'' \<notin> set link_names" "''bridge'' \<notin> set link_names"
  by (simp_all add: link_names_def)

lemma link_name: "i < 6 \<Longrightarrow> link_names ! i \<in> set link_names"
  by (rule nth_mem) simp

lemma link_name_other: "i < 6 \<Longrightarrow> link_names ! i \<noteq> ''bus'' \<and> link_names ! i \<noteq> ''bridge''"
  using link_name by fastforce

lemma link_name_eq: "i < 6 \<Longrightarrow> j < 6 \<Longrightarrow> link_names ! i = link_names ! j \<longleftrightarrow> i = j"
  by (rule nth_eq_iff_index_eq) simp_all

text \<open>Where the sources of the bind mounts are; the authentication file has a name of its own choice.\<close>

definition link_sources :: "string \<Rightarrow> nat \<Rightarrow> path set" where
  "link_sources uid i =
     (if i = 0 then {run_dir uid @ [''wayland-0'']}
      else if i = 1 then {run_dir uid @ [''pipewire-0'']}
      else if i = 2 then {run_dir uid @ [''pulse'', ''native'']}
      else if i = 3 then {[''tmp'', ''.X11-unix'', ''X0'']}
      else if i = 4 then {[''tmp'', ''.X11-unix'', ''X1'']}
      else {run_dir uid @ [n] |n. component_ok n \<and> HasPrefix n ''.mutter-Xwaylandauth.''})"

text \<open>
  The host before the daemon starts: no mounts, the directories there, files or nothing where the
  daemon reads and writes.
\<close>

definition host_ready :: "string \<Rightarrow> 'a fs_scheme \<Rightarrow> bool" where
  "host_ready uid f \<longleftrightarrow> fs_ok f \<and> quiet f \<and> mounts f = [] \<and> lookup f (lxg_path uid) = Some Dir \<and>
     lookup f (run_dir uid @ [''pulse'']) = Some Dir \<and> lookup f [''tmp'', ''.X11-unix''] = Some Dir \<and>
     (\<forall>n \<in> set daemon_names. source_ok (lookup f (lxg_path uid @ [n]))) \<and>
     (\<forall>i < 6. \<forall>q \<in> link_sources uid i. source_ok (lookup f q)) \<and>
     (\<forall>q \<in> fst ` set (nodes f). q \<noteq> [] \<longrightarrow> component_ok (last q))"

text \<open>While it runs, only the names it owns change, and they stay files or nothing.\<close>

definition shared_ok :: "string \<Rightarrow> 'a fs_scheme \<Rightarrow> 'a fs_scheme \<Rightarrow> bool" where
  "shared_ok uid f0 f \<longleftrightarrow> fs_ok f \<and> quiet f \<and>
     (\<forall>p. (\<forall>n \<in> set daemon_names. p \<noteq> lxg_path uid @ [n]) \<longrightarrow> lookup f p = lookup f0 p) \<and>
     (\<forall>n \<in> set daemon_names. source_ok (lookup f (lxg_path uid @ [n])))"

lemma source_ok_cases: "source_ok m \<longleftrightarrow> m = None \<or> m = Some Sock \<or> (\<exists>c. m = Some (Reg c))"
  by (cases m) (auto simp: source_ok_def)

lemma daemon_names_plain: "n \<in> set daemon_names \<Longrightarrow> n \<noteq> ''..''"
  by (auto simp: daemon_names_def link_names_def)

lemma lxg_path_dots: "component_ok uid \<Longrightarrow> ''..'' \<notin> set (lxg_path uid)"
  by (auto simp: lxg_path_def component_ok_def)

lemma shared_frame:
  assumes "shared_ok uid f0 f" and "\<And>n. n \<in> set daemon_names \<Longrightarrow> p \<noteq> lxg_path uid @ [n]"
  shows "lookup f p = lookup f0 p"
  using assms by (simp add: shared_ok_def)

lemma shared_dir_ok:
  assumes "component_ok uid" and "host_ready uid f0" and "shared_ok uid f0 f"
    and "d \<in> {lxg_path uid, run_dir uid, run_dir uid @ [''pulse''], [''tmp'', ''.X11-unix'']}"
  shows "dir_ok d d f"
proof (rule plain_dir)
  show "fs_ok f" using assms(3) by (simp add: shared_ok_def)
  have "lookup f0 (run_dir uid) = Some Dir"
    using assms(2) fs_ok_prefixes [of f0 "lxg_path uid" "run_dir uid"] by (simp add: host_ready_def lxg_path_alt)
  then have "lookup f0 d = Some Dir" using assms(2,4) by (auto simp: host_ready_def)
  then show "lookup f d = Some Dir"
    using shared_frame [OF assms(3), of d] assms(4) by (auto simp: lxg_path_def run_dir_def)
  show "''..'' \<notin> set d" using assms(1,4) by (auto simp: lxg_path_def run_dir_def component_ok_def)
qed

text \<open>What an owner does to its name keeps the directory in order.\<close>

lemma shared_ok_slot:
  assumes "shared_ok uid f0 f" and "n \<in> set daemon_names" and "fs_ok f'" and "quiet f'"
    and "lookup f' = (lookup f)(lxg_path uid @ [n] := m)" and "source_ok m"
  shows "shared_ok uid f0 f'"
  using assms by (auto simp: shared_ok_def)

lemma shared_start: "host_ready uid f0 \<Longrightarrow> shared_ok uid f0 f0"
  by (simp add: host_ready_def shared_ok_def)

lemma sources_outside:
  "i < 6 \<Longrightarrow> q \<in> link_sources uid i \<Longrightarrow> q \<noteq> lxg_path uid @ [n]"
  by (auto simp: link_sources_def lxg_path_def run_dir_def split: if_splits)

lemma remove_slot_shared:
  assumes uid: "component_ok uid" and ready: "host_ready uid f0" and ok: "shared_ok uid f0 f" and n: "n \<in> set daemon_names"
    and free: "map_of (mounts f) (lxg_path uid @ [n]) = None"
  shows "\<exists>f' err. remove_entry f (lxg_path uid @ [n]) = (f', err) \<and> \<not> blocking err \<and> shared_ok uid f0 f' \<and>
    lookup f' = (lookup f)(lxg_path uid @ [n] := None) \<and> mounts f' = mounts f"
proof -
  have "lookup f (lxg_path uid @ [n]) \<noteq> Some Dir" "quiet f"
    using ok n by (auto simp: shared_ok_def source_ok_cases)
  from remove_slot [OF shared_dir_ok [OF uid ready ok] daemon_names_plain [OF n] this(2,1) free]
  obtain f' err where r: "remove_entry f (lxg_path uid @ [n]) = (f', err)" "\<not> blocking err" "dir_ok (lxg_path uid) (lxg_path uid) f'"
    "lookup f' = (lookup f)(lxg_path uid @ [n] := None)" "mounts f' = mounts f" "quiet f'" by auto
  have "shared_ok uid f0 f'"
    by (rule shared_ok_slot [OF ok n dir_ok_fs_ok [OF r(3)] r(6,4)]) (simp add: source_ok_def)
  with r show ?thesis by blast
qed

lemma mkdir_shared:
  assumes "component_ok uid" and "host_ready uid f0" and "shared_ok uid f0 f"
  shows "mkdir_all f (rev (lxg_path uid)) = (f, None)"
  using dir_ok_stat [OF shared_dir_ok [OF assms, of "lxg_path uid"]] assms(3)
  by (cases "lxg_path uid" rule: rev_cases) (auto simp: shared_ok_def)

section \<open>Binding and cleaning up\<close>

lemma bind_shared:
  assumes uid: "component_ok uid" and ready: "host_ready uid f0" and ok: "shared_ok uid f0 f" and n: "n \<in> set link_names"
    and free: "map_of (mounts f) (lxg_path uid @ [n]) = None" and i: "i < 6" "ds @ [m] \<in> link_sources uid i"
    and ds: "ds \<in> {run_dir uid, run_dir uid @ [''pulse''], [''tmp'', ''.X11-unix'']}" and m: "m \<noteq> ''..''"
    and cs: "comps source = ds @ [m]" "comps target = lxg_path uid @ [n]" "comps (filepath_Dir target) = lxg_path uid"
  shows "\<exists>f' b. BindMount f source target = (f', None, b) \<and> shared_ok uid f0 f' \<and>
    (if b then is_file (lookup f0 (ds @ [m])) \<and> lookup f' = (lookup f)(lxg_path uid @ [n] := lookup f0 (ds @ [m])) \<and>
       mounts f' = (lxg_path uid @ [n], Reg []) # mounts f
     else f' = f)"
proof -
  have D: "dir_ok (lxg_path uid) (lxg_path uid) f" and S: "dir_ok ds ds f"
    using shared_dir_ok [OF uid ready ok] ds by auto
  have q: "quiet f" and nn: "n \<in> set daemon_names" using ok n by (simp_all add: shared_ok_def daemon_names_def)
  have far: "lxg_path uid @ [n] \<noteq> ds @ [m]" "lxg_path uid @ [n] \<noteq> ds"
    using sources_outside [OF i, of n] ds by (auto simp: lxg_path_def run_dir_def)
  have src: "lookup f (ds @ [m]) = lookup f0 (ds @ [m])"
    using sources_outside [OF i] by (intro shared_frame [OF ok]) blast
  have src_ok: "source_ok (lookup f0 (ds @ [m]))" using ready i by (auto simp: host_ready_def)
  have st: "stat_at f (ds @ [m]) = (case lookup f0 (ds @ [m]) of None \<Rightarrow> Inl ENOENT | Some n \<Rightarrow> Inr n)"
    using stat_entry [OF S m] src_ok q by (auto simp: src source_ok_cases)
  show ?thesis
  proof (cases "lookup f0 (ds @ [m])")
    case None
    then show ?thesis using ok by (intro exI [of _ f] exI [of _ False]) (simp add: BindMount_def cs st)
  next
    case (Some node)
    then have node: "is_file (Some node)" using src_ok by (simp add: source_ok_def)
    have leaf: "lookup f (lxg_path uid @ [n]) \<noteq> Some Dir" "lookup f (lxg_path uid @ [n]) \<noteq> Some (Symlink t)" for t
      using ok nn by (auto simp: shared_ok_def source_ok_cases)
    have "''..'' \<notin> set ds" using uid ds by (auto simp: run_dir_def component_ok_def)
    then have "bind_places f ds m (lxg_path uid) n node"
      using D S q daemon_names_plain [OF nn] m far leaf node free Some
      by (simp add: bind_places_def src drop_first_id)
    from BindMount_done [OF this cs] obtain f' where
      b: "BindMount f source target = (f', None, True)" "dir_ok (lxg_path uid) (lxg_path uid) f'" "quiet f'"
        "lookup f' = (lookup f)(lxg_path uid @ [n] \<mapsto> node)" "mounts f' = (lxg_path uid @ [n], Reg []) # mounts f"
      using free by (auto simp: drop_first_id)
    have "shared_ok uid f0 f'"
      by (rule shared_ok_slot [OF ok nn dir_ok_fs_ok [OF b(2)] b(3,4)]) (use node in \<open>simp add: source_ok_def\<close>)
    with b node Some show ?thesis by (intro exI [of _ f'] exI [of _ True]) simp
  qed
qed

lemma cancel_shared:
  assumes uid: "component_ok uid" and ready: "host_ready uid f0" and ok: "shared_ok uid f0 f" and n: "n \<in> set link_names"
    and once: "map_of (drop_first (lxg_path uid @ [n]) (mounts f)) (lxg_path uid @ [n]) = None"
    and cs: "comps target = lxg_path uid @ [n]"
  shows "shared_ok uid f0 (BindMount_cancel f target)"
    and "lookup (BindMount_cancel f target) = (lookup f)(lxg_path uid @ [n] := None)"
    and "mounts (BindMount_cancel f target) = drop_first (lxg_path uid @ [n]) (mounts f)"
proof -
  have nn: "n \<in> set daemon_names" and q: "quiet f" using ok n by (simp_all add: shared_ok_def daemon_names_def)
  have leaf: "lookup f (lxg_path uid @ [n]) \<noteq> Some Dir" "\<And>t. lookup f (lxg_path uid @ [n]) \<noteq> Some (Symlink t)"
    using ok nn by (auto simp: shared_ok_def source_ok_cases)
  from unmount_remove [OF shared_dir_ok [OF uid ready ok] daemon_names_plain [OF nn] leaf q once]
  obtain f' err where r: "remove_entry (fst (unmount_at f (lxg_path uid @ [n]))) (lxg_path uid @ [n]) = (f', err)"
    "dir_ok (lxg_path uid) (lxg_path uid) f'" "quiet f'" "mounts f' = drop_first (lxg_path uid @ [n]) (mounts f)"
    "lookup f' = (lookup f)(lxg_path uid @ [n] := None)" by auto
  have "BindMount_cancel f target = f'" by (simp add: BindMount_cancel_def cs r(1))
  moreover have "shared_ok uid f0 f'"
    by (rule shared_ok_slot [OF ok nn dir_ok_fs_ok [OF r(2)] r(3,5)]) (simp add: source_ok_def)
  ultimately show "shared_ok uid f0 (BindMount_cancel f target)"
    and "lookup (BindMount_cancel f target) = (lookup f)(lxg_path uid @ [n] := None)"
    and "mounts (BindMount_cancel f target) = drop_first (lxg_path uid @ [n]) (mounts f)"
    using r by simp_all
qed

lemma link_comps:
  assumes "component_ok uid" and "n \<in> set link_names"
  shows "comps (run_user uid (''lxg/'' @ n)) = lxg_path uid @ [n]"
    and "comps (filepath_Dir (run_user uid (''lxg/'' @ n))) = lxg_path uid"
proof -
  have plain: "n \<noteq> []" "n \<noteq> ''.''" "CHR ''/'' \<notin> set n" using assms(2) by (auto simp: link_names_def)
  have l: "comps ''lxg'' = [''lxg'']" by (simp add: comps_def)
  have "comps (''lxg'' @ CHR ''/'' # n) = [''lxg'', n]" using plain by (simp add: comps_append comps_word del: append.simps)
  then show "comps (run_user uid (''lxg/'' @ n)) = lxg_path uid @ [n]"
    using comps_run_user [OF assms(1), of "''lxg/'' @ n"] by (simp add: lxg_path_def)
  have "comps (filepath_Dir (run_user uid (''lxg'' @ ''/'' @ n))) = ''run'' # ''user'' # uid # comps ''lxg''"
    by (rule Dir_run_user [OF assms(1)]) (use plain in \<open>simp_all add: comps_def\<close>)
  then show "comps (filepath_Dir (run_user uid (''lxg/'' @ n))) = lxg_path uid" by (simp add: lxg_path_def l)
qed

lemma in_nodes: "p \<noteq> [] \<Longrightarrow> p \<in> fst ` set (nodes f) \<longleftrightarrow> lookup f p \<noteq> None"
  by (simp add: lookup_def map_of_eq_None_iff)

lemma shared_names:
  assumes "host_ready uid f0" and "shared_ok uid f0 f" and "p \<in> fst ` set (nodes f)" and "p \<noteq> []"
  shows "component_ok (last p)"
proof (cases "\<exists>n \<in> set daemon_names. p = lxg_path uid @ [n]")
  case True
  then show ?thesis by (auto simp: daemon_names_def link_names_def component_ok_def)
next
  case False
  have "lookup f p \<noteq> None" using assms(3,4) by (simp add: in_nodes)
  then have "lookup f0 p \<noteq> None" using False shared_frame [OF assms(2), of p] by auto
  then have "p \<in> fst ` set (nodes f0)" using assms(4) by (simp add: in_nodes)
  with assms(1,4) show ?thesis by (auto simp: host_ready_def)
qed

lemma comps_runtime:
  assumes "component_ok uid"
  shows "comps (''/run/user/'' @ uid) = run_dir uid"
proof -
  have "comps (''/run/user/'' @ uid) = comps (''run'' @ CHR ''/'' # ''user'' @ CHR ''/'' # uid)" by simp
  also have "\<dots> = ''run'' # ''user'' # comps uid" 
    by (subst comps_append; (subst comps_append)?; simp)
  finally show ?thesis using assms by (simp add: run_dir_def component_ok_def comps_word)
qed

lemma glob_match:
  assumes uid: "component_ok uid" and ready: "host_ready uid f0" and ok: "shared_ok uid f0 f"
    and x: "x \<in> set (glob_prefix f (''/run/user/'' @ uid) pre)"
  shows "\<exists>n. comps x = run_dir uid @ [n] \<and> component_ok n \<and> HasPrefix n pre"
proof -
  have S: "dir_ok (run_dir uid) (run_dir uid) f" and q: "quiet f"
    using shared_dir_ok [OF uid ready ok] ok by (simp_all add: shared_ok_def)
  have "resolve OpRead True f (run_dir uid) = Inr (run_dir uid)"
    using dir_ok_walk [OF S] q by (simp add: resolve_def)
  with x obtain p where p: "p \<in> fst ` set (nodes f)" "p \<noteq> []" "HasPrefix (last p) pre"
    "x = filepath_Join [''/run/user/'' @ uid, last p]"
    by (auto simp: glob_prefix_def comps_runtime [OF uid] split: sum.splits node.splits)
  have n: "component_ok (last p)" using shared_names [OF ready ok p(1,2)] .
  have c: "comps (run_user uid (last p)) = run_dir uid @ [last p]"
    using comps_run_user [OF uid, of "last p"] n by (simp add: run_dir_def component_ok_def comps_word)
  have "x = Clean (run_user uid (last p))" by (simp add: p(4) filepath_Join_def run_user_def)
  moreover have "comps (Clean (run_user uid (last p))) = comps (run_user uid (last p))"
    using c n uid by (intro comps_Clean) (auto simp: run_dir_def component_ok_def run_user_def is_abs_def)
  ultimately show ?thesis using c n p(3) by metis
qed

text \<open>One of the first six services: it takes effect on its own name only, or panics.\<close>

lemma link_service_places:
  assumes uid: "component_ok (UID ctx)" and "i < 6"
  obtains (found) pre source ds m where "link_service i f ctx = Some (bind_service pre f source (link_target ctx i))"
      and "comps source = ds @ [m]" and "m \<noteq> ''..''"
      and "ds \<in> {run_dir (UID ctx), run_dir (UID ctx) @ [''pulse''], [''tmp'', ''.X11-unix'']}"
      and "ds @ [m] \<in> link_sources (UID ctx) i"
    | (last) "i = 5"
proof -
  let ?u = "UID ctx"
  have c: "comps (run_user ?u ''wayland-0'') = run_dir ?u @ [''wayland-0'']"
    "comps (run_user ?u ''pipewire-0'') = run_dir ?u @ [''pipewire-0'']"
    "comps (run_user ?u ''pulse/native'') = (run_dir ?u @ [''pulse'']) @ [''native'']"
    "comps ''/tmp/.X11-unix/X0'' = [''tmp'', ''.X11-unix''] @ [''X0'']" "comps ''/tmp/.X11-unix/X1'' = [''tmp'', ''.X11-unix''] @ [''X1'']"
    by (simp_all add: comps_run_user [OF uid] run_dir_def) (simp_all add: comps_def)
  consider "i = 0" | "i = 1" | "i = 2" | "i = 3" | "i = 4" | "i = 5" using assms(2) by linarith
  then show thesis
  proof cases
    case 1
    show thesis
      by (rule found [OF _ c(1)]) (simp_all add: 1 link_service_def LinkWayland_def link_target_def link_names_def link_sources_def)
  next
    case 2
    show thesis
      by (rule found [OF _ c(2)]) (simp_all add: 2 link_service_def LinkPipewire_def link_target_def link_names_def link_sources_def)
  next
    case 3
    show thesis
      by (rule found [OF _ c(3)]) (simp_all add: 3 link_service_def LinkPulseNative_def link_target_def link_names_def link_sources_def)
  next
    case 4
    show thesis
      by (rule found [OF _ c(4)]) (simp_all add: 4 link_service_def LinkX11Zero_def link_target_def link_names_def link_sources_def)
  next
    case 5
    show thesis
      by (rule found [OF _ c(5)]) (simp_all add: 5 link_service_def LinkX11One_def link_target_def link_names_def link_sources_def)
  qed (rule last)
qed

lemma link_service_bind:
  assumes uid: "component_ok (UID ctx)" and i: "i < 6" and ready: "host_ready (UID ctx) f0" and ok: "shared_ok (UID ctx) f0 f"
    and run: "link_service i f ctx = Some r"
  shows "\<exists>pre source ds m. r = bind_service pre f source (link_target ctx i) \<and> comps source = ds @ [m] \<and> m \<noteq> ''..'' \<and>
    ds \<in> {run_dir (UID ctx), run_dir (UID ctx) @ [''pulse''], [''tmp'', ''.X11-unix'']} \<and> ds @ [m] \<in> link_sources (UID ctx) i"
  using uid i
proof (cases rule: link_service_places [where f = f])
  case (found pre source ds m)
  with run show ?thesis by (intro exI [of _ pre] exI [of _ source] exI [of _ ds] exI [of _ m]) simp
next
  case last
  then obtain x where x: "x \<in> set (glob_prefix f (''/run/user/'' @ UID ctx) ''.mutter-Xwaylandauth.'')"
      "r = bind_service ''x11 auth error: '' f x (link_target ctx i)"
    using run by (auto simp: link_service_def LinkX11Auth_def link_target_def link_names_def split: list.splits)
  from glob_match [OF uid ready ok x(1)] obtain n where
    n: "comps x = run_dir (UID ctx) @ [n]" "component_ok n" "HasPrefix n ''.mutter-Xwaylandauth.''" by blast
  then have "run_dir (UID ctx) @ [n] \<in> link_sources (UID ctx) i" "n \<noteq> ''..''"
    by (simp_all add: last link_sources_def component_ok_def)
  with n(1) x(2) show ?thesis by blast
qed

lemma link_step:
  assumes uid: "component_ok (UID ctx)" and i: "i < 6" and ready: "host_ready (UID ctx) f0" and ok: "shared_ok (UID ctx) f0 f"
    and free: "map_of (mounts f) (lxg_path (UID ctx) @ [link_names ! i]) = None"
    and run: "link_service i f ctx = Some (f', err, bound)"
  shows "err = None" and "shared_ok (UID ctx) f0 f'"
    and "bound \<Longrightarrow> \<exists>q \<in> link_sources (UID ctx) i. is_file (lookup f0 q) \<and>
      lookup f' = (lookup f)(lxg_path (UID ctx) @ [link_names ! i] := lookup f0 q) \<and>
      mounts f' = (lxg_path (UID ctx) @ [link_names ! i], Reg []) # mounts f"
    and "\<not> bound \<Longrightarrow> f' = f"
proof -
  obtain pre source ds m where r: "(f', err, bound) = bind_service pre f source (link_target ctx i)" and c: "comps source = ds @ [m]"
    and m: "m \<noteq> ''..''" and ds: "ds \<in> {run_dir (UID ctx), run_dir (UID ctx) @ [''pulse''], [''tmp'', ''.X11-unix'']}"
    and src: "ds @ [m] \<in> link_sources (UID ctx) i"
    using link_service_bind [OF uid i ready ok run] by blast
  have n: "link_names ! i \<in> set link_names" by (rule link_name [OF i])
  obtain g b where b: "BindMount f source (link_target ctx i) = (g, None, b)" "shared_ok (UID ctx) f0 g"
    "if b then is_file (lookup f0 (ds @ [m])) \<and> lookup g = (lookup f)(lxg_path (UID ctx) @ [link_names ! i] := lookup f0 (ds @ [m])) \<and>
       mounts g = (lxg_path (UID ctx) @ [link_names ! i], Reg []) # mounts f else g = f"
    using bind_shared [OF uid ready ok n free i src ds m c link_comps(1) [OF uid n] link_comps(2) [OF uid n]]
    unfolding link_target_def by blast
  have e: "f' = g" "err = None" "bound = b" using r b(1) by (simp_all add: bind_service_def)
  show "err = None" "shared_ok (UID ctx) f0 f'" using e b(2) by simp_all
  show "bound \<Longrightarrow> \<exists>q \<in> link_sources (UID ctx) i. is_file (lookup f0 q) \<and>
      lookup f' = (lookup f)(lxg_path (UID ctx) @ [link_names ! i] := lookup f0 q) \<and>
      mounts f' = (lxg_path (UID ctx) @ [link_names ! i], Reg []) # mounts f"
    using e b(3) src by auto
  show "\<not> bound \<Longrightarrow> f' = f" using e b(3) by simp
qed

section \<open>Opening and closing the sockets\<close>

lemma bridge_open_shared:
  assumes uid: "component_ok (UID ctx)" and ready: "host_ready (UID ctx) f0" and ok: "shared_ok (UID ctx) f0 f"
    and free: "map_of (mounts f) (lxg_path (UID ctx) @ [''bridge'']) = None"
  shows "\<exists>f'. InitSocket_open f ctx = (f', None) \<and> shared_ok (UID ctx) f0 f' \<and> mounts f' = mounts f \<and>
    lookup f' = (lookup f)(lxg_path (UID ctx) @ [''bridge''] \<mapsto> Sock)"
proof -
  let ?p = "lxg_path (UID ctx)"
  have n: "''bridge'' \<in> set daemon_names" "''bridge'' \<noteq> ''..''" by (simp_all add: daemon_names_def)
  obtain f1 err where 1: "remove_entry f (?p @ [''bridge'']) = (f1, err)" "\<not> blocking err" "shared_ok (UID ctx) f0 f1"
    "lookup f1 = (lookup f)(?p @ [''bridge''] := None)" "mounts f1 = mounts f"
    using remove_slot_shared [OF uid ready ok n(1) free] by blast
  have q1: "quiet f1" using 1(3) by (simp add: shared_ok_def)
  let ?f2 = "set_node (?p @ [''bridge'']) Sock f1"
  note D1 = shared_dir_ok [OF uid ready 1(3), of ?p, simplified]
  have cr: "create_entry OpListen EADDRINUSE Sock f1 (?p @ [''bridge'']) = (?f2, None)"
    by (rule create_slot [OF D1 n(2) q1]) (simp add: 1(4))
  have l2: "lookup ?f2 = (lookup f)(?p @ [''bridge''] \<mapsto> Sock)" by (simp add: 1(4))
  have "shared_ok (UID ctx) f0 ?f2"
    by (rule shared_ok_slot [OF ok n(1) create_entry_done(1) [OF D1 n(2) cr] _ l2]) (simp_all add: q1 source_ok_def)
  note ok2 = this
  obtain f3 where ch: "chmod_at ?f2 (?p @ [''bridge'']) 384 = (f3, None)" "lookup f3 = lookup ?f2" "mounts f3 = mounts ?f2" "quiet f3" "fs_ok f3"
  proof -
    have D2: "dir_ok ?p ?p ?f2" using shared_dir_ok [OF uid ready ok2] by simp
    have "resolve OpChmod True ?f2 (?p @ [''bridge'']) = Inr (?p @ [''bridge''])"
      using dir_ok_resolve [OF D2 n(2), of True OpChmod] q1 by (simp add: l2)
    then have r: "chmod_at ?f2 (?p @ [''bridge'']) 384 = (?f2\<lparr>modes := AList.update (?p @ [''bridge'']) 384 (modes ?f2)\<rparr>, None)"
      by (simp add: chmod_at_def)
    have "fs_ok (fst (chmod_at ?f2 (?p @ [''bridge'']) 384))" using ok2 by (intro fs_ok_chmod) (simp add: shared_ok_def)
    with r that q1 show thesis by (simp add: quiet_def)
  qed
  have "shared_ok (UID ctx) f0 f3"
    by (rule shared_ok_slot [OF ok n(1) ch(5,4) ch(2) [unfolded l2]]) (simp add: source_ok_def)
  moreover have "InitSocket_open f ctx = (f3, None)"
    by (simp add: InitSocket_open_def bridge_comps [OF uid] 1(1,2) mkdir_shared [OF uid ready 1(3)] cr ch(1))
  ultimately show ?thesis using ch(2,3) l2 1(5) by (intro exI [of _ f3]) simp
qed

lemma bridge_leave_shared:
  assumes uid: "component_ok (UID ctx)" and ready: "host_ready (UID ctx) f0" and ok: "shared_ok (UID ctx) f0 f"
    and free: "map_of (mounts f) (lxg_path (UID ctx) @ [''bridge'']) = None"
  shows "shared_ok (UID ctx) f0 (InitSocket_leave f ctx)" and "mounts (InitSocket_leave f ctx) = mounts f"
    and "lookup (InitSocket_leave f ctx) = (lookup f)(lxg_path (UID ctx) @ [''bridge''] := None)"
proof -
  let ?p = "lxg_path (UID ctx) @ [''bridge'']"
  have n: "''bridge'' \<in> set daemon_names" by (simp add: daemon_names_def)
  note rm = remove_slot_shared [OF uid ready _ n]
  obtain f1 e1 where 1: "remove_entry f ?p = (f1, e1)" "shared_ok (UID ctx) f0 f1" "lookup f1 = (lookup f)(?p := None)" "mounts f1 = mounts f"
    using rm [OF ok free] by blast
  obtain f2 e2 where 2: "remove_entry f1 ?p = (f2, e2)" "shared_ok (UID ctx) f0 f2" "lookup f2 = (lookup f1)(?p := None)" "mounts f2 = mounts f1"
    using rm [OF 1(2)] free 1(4) by metis
  obtain f3 e3 where 3: "remove_entry f2 ?p = (f3, e3)" "shared_ok (UID ctx) f0 f3" "lookup f3 = (lookup f2)(?p := None)" "mounts f3 = mounts f2"
    using rm [OF 2(2)] free 1(4) 2(4) by metis
  have "InitSocket_leave f ctx = f3"
    by (simp add: InitSocket_leave_def InitSocket_close_def bridge_comps [OF uid] 1(1) 2(1) 3(1))
  with 1 2 3 show "shared_ok (UID ctx) f0 (InitSocket_leave f ctx)" "mounts (InitSocket_leave f ctx) = mounts f"
    "lookup (InitSocket_leave f ctx) = (lookup f)(?p := None)" by simp_all
qed

lemma proxy_comps:
  assumes "component_ok (UID ctx)"
  shows "comps (dbus_proxy_path ctx) = lxg_path (UID ctx) @ [''bus'']"
    and "comps (filepath_Dir (dbus_proxy_path ctx)) = lxg_path (UID ctx)"
proof -
  have l: "comps ''lxg'' = [''lxg'']" by (simp add: comps_def)
  have "comps (filepath_Dir (run_user (UID ctx) (''lxg'' @ ''/'' @ ''bus''))) = ''run'' # ''user'' # UID ctx # comps ''lxg''"
    by (rule Dir_run_user [OF assms]) (simp_all add: comps_def)
  then show "comps (filepath_Dir (dbus_proxy_path ctx)) = lxg_path (UID ctx)"
    by (simp add: dbus_proxy_path_def lxg_path_def l)
  show "comps (dbus_proxy_path ctx) = lxg_path (UID ctx) @ [''bus'']"
    by (simp add: dbus_proxy_path_def comps_run_user [OF assms] lxg_path_def) (simp add: comps_def)
qed

lemma proxy_remove_shared:
  assumes uid: "component_ok (UID ctx)" and ready: "host_ready (UID ctx) f0" and ok: "shared_ok (UID ctx) f0 f"
    and free: "map_of (mounts f) (lxg_path (UID ctx) @ [''bus'']) = None"
  shows "shared_ok (UID ctx) f0 (fst (Remove f (dbus_proxy_path ctx)))" and "mounts (fst (Remove f (dbus_proxy_path ctx))) = mounts f"
    and "lookup (fst (Remove f (dbus_proxy_path ctx))) = (lookup f)(lxg_path (UID ctx) @ [''bus''] := None)"
    and "\<not> blocking (snd (Remove f (dbus_proxy_path ctx)))"
  using remove_slot_shared [OF uid ready ok, of "''bus''"] free by (auto simp: daemon_names_def proxy_comps [OF uid])

lemma proxy_prepare_shared:
  assumes uid: "component_ok (UID ctx)" and ready: "host_ready (UID ctx) f0" and ok: "shared_ok (UID ctx) f0 f"
    and free: "map_of (mounts f) (lxg_path (UID ctx) @ [''bus'']) = None"
  shows "InitDBus_prepare addr installed f ctx =
    (if addr = [] \<or> \<not> installed then (f, None, False) else (fst (Remove f (dbus_proxy_path ctx)), None, True))"
proof -
  note r = proxy_remove_shared [OF uid ready ok free]
  have "MkdirAll (fst (Remove f (dbus_proxy_path ctx))) (filepath_Dir (dbus_proxy_path ctx)) = (fst (Remove f (dbus_proxy_path ctx)), None)"
    using mkdir_shared [OF uid ready r(1)] by (simp add: proxy_comps [OF uid])
  then show ?thesis
    using r(4) by (auto simp: InitDBus_prepare_def Let_def split: prod.splits option.splits)
qed

lemma proxy_socket_shared:
  assumes uid: "component_ok uid" and ready: "host_ready uid f0" and ok: "shared_ok uid f0 f"
    and none: "lookup f (lxg_path uid @ [''bus'']) = None"
  shows "shared_ok uid f0 (set_node (lxg_path uid @ [''bus'']) Sock f)"
proof -
  have D: "dir_ok (lxg_path uid) (lxg_path uid) f" using shared_dir_ok [OF uid ready ok] by simp
  have n: "''bus'' \<in> set daemon_names" by (simp add: daemon_names_def)
  have "fs_ok (set_node (lxg_path uid @ [''bus'']) Sock f)"
    using D none by (intro fs_ok_set_node) (auto simp: dir_ok_def)
  then show ?thesis
    using ok by (intro shared_ok_slot [OF ok n, where m = "Some Sock"]) (simp_all add: shared_ok_def source_ok_def)
qed

section \<open>The invariant\<close>

text \<open>A name of the six links: the source it is bound to, or what was there, or nothing.\<close>

definition link_place :: "string \<Rightarrow> 'a fs_scheme \<Rightarrow> 'a fs_scheme daemon \<Rightarrow> nat \<Rightarrow> bool" where
  "link_place uid f0 d i \<longleftrightarrow>
     (let m = lookup (files d) (lxg_path uid @ [link_names ! i])
      in if i \<in> set (cleanups d) then \<exists>q \<in> link_sources uid i. is_file (lookup f0 q) \<and> m = lookup f0 q
         else m = None \<or> m = lookup f0 (lxg_path uid @ [link_names ! i]))"

definition daemon_inv :: "Context \<Rightarrow> string \<Rightarrow> bool \<Rightarrow> 'a fs_scheme \<Rightarrow> 'a fs_scheme daemon \<Rightarrow> bool" where
  "daemon_inv ctx addr installed f0 d \<longleftrightarrow>
     shared_ok (UID ctx) f0 (files d) \<and>
     distinct (cleanups d) \<and> (\<forall>i \<in> set (cleanups d). i < 6 \<and> \<not> running (group d) i) \<and>
     mounts (files d) = map (\<lambda>i. (lxg_path (UID ctx) @ [link_names ! i], Reg [])) (cleanups d) \<and>
     (\<forall>i < 6. link_place (UID ctx) f0 d i) \<and>
     (if listening d then lookup (files d) (lxg_path (UID ctx) @ [''bridge'']) = Some Sock
      else running (group d) 7 \<or> lookup (files d) (lxg_path (UID ctx) @ [''bridge'']) = None) \<and>
     (addr \<noteq> [] \<and> installed \<and> \<not> proxying d \<and> \<not> running (group d) 6 \<longrightarrow>
        lookup (files d) (lxg_path (UID ctx) @ [''bus'']) = None)"

lemma daemon_mounts_free:
  assumes "daemon_inv ctx addr installed f0 d" and "\<forall>i \<in> set (cleanups d). link_names ! i \<noteq> n"
  shows "map_of (mounts (files d)) (lxg_path (UID ctx) @ [n]) = None"
  using assms by (auto simp: daemon_inv_def map_of_eq_None_iff)

lemma daemon_link_free:
  assumes "daemon_inv ctx addr installed f0 d" and "i < 6" and "running (group d) i"
  shows "map_of (mounts (files d)) (lxg_path (UID ctx) @ [link_names ! i]) = None"
  using assms by (intro daemon_mounts_free) (auto simp: daemon_inv_def link_name_eq)

lemma daemon_socket_free:
  assumes "daemon_inv ctx addr installed f0 d" and "n = ''bus'' \<or> n = ''bridge''"
  shows "map_of (mounts (files d)) (lxg_path (UID ctx) @ [n]) = None"
  using assms link_name_other by (intro daemon_mounts_free [OF assms(1)]) (auto simp: daemon_inv_def)

lemma drop_first_map:
  assumes "distinct (map h xs)" and "x \<in> set xs"
  shows "drop_first (h x) (map (\<lambda>i. (h i, v)) xs) = map (\<lambda>i. (h i, v)) (remove1 x xs)"
  using assms by (induction xs) (auto, metis imageI)

text \<open>A step that changes one name of a socket leaves the links alone.\<close>

lemma link_place_cong:
  assumes "link_place uid f0 d i" and "cleanups d' = cleanups d"
    and "lookup (files d') (lxg_path uid @ [link_names ! i]) = lookup (files d) (lxg_path uid @ [link_names ! i])"
  shows "link_place uid f0 d' i"
  using assms by (simp add: link_place_def)

lemma inv_bridge:
  assumes inv: "daemon_inv ctx addr installed f0 d" and ok: "shared_ok (UID ctx) f0 (files d')" and c: "cleanups d' = cleanups d"
    and r: "\<And>i. i < 7 \<Longrightarrow> running (group d') i = running (group d) i" and p: "proxying d' = proxying d"
    and m: "mounts (files d') = mounts (files d)"
    and l: "lookup (files d') = (lookup (files d))(lxg_path (UID ctx) @ [''bridge''] := v)"
    and b: "if listening d' then v = Some Sock else running (group d') 7 \<or> v = None"
  shows "daemon_inv ctx addr installed f0 d'"
proof -
  have "link_place (UID ctx) f0 d' i" if "i < 6" for i
    using inv that link_name_other [OF that]
    by (intro link_place_cong [OF _ c, of "UID ctx" f0 i]) (auto simp: daemon_inv_def l)
  with inv ok c r p m b show ?thesis by (auto simp: daemon_inv_def l)
qed

lemma inv_start:
  assumes "host_ready (UID ctx) f0"
  shows "daemon_inv ctx addr installed f0 (daemon_start f0)"
proof -
  have "running Init_start 7" "running Init_start 6" by (simp_all add: running_def Init_start_def init_services_def)
  then show ?thesis
    using assms shared_start [OF assms] by (simp add: daemon_inv_def daemon_start_def link_place_def host_ready_def)
qed

lemma inv_link:
  assumes inv: "daemon_inv ctx addr installed f0 d" and uid: "component_ok (UID ctx)" and ready: "host_ready (UID ctx) f0"
    and i: "i < 6" "running (group d) i" and run: "link_service i (files d) ctx = Some (f, err, bound)"
  shows "daemon_inv ctx addr installed f0
    (d\<lparr>group := service_returns (group d) i err, files := f, cleanups := (if bound then i # cleanups d else cleanups d)\<rparr>)"
proof -
  have ok: "shared_ok (UID ctx) f0 (files d)" using inv by (simp add: daemon_inv_def)
  note r = link_step [OF uid i(1) ready ok daemon_link_free [OF inv i] run]
  show ?thesis
  proof (cases bound)
    case False
    then show ?thesis
      using inv r(4) i(1) by (auto simp: daemon_inv_def link_place_def)
  next
    case True
    then obtain q where q: "q \<in> link_sources (UID ctx) i" "is_file (lookup f0 q)"
      "lookup f = (lookup (files d))(lxg_path (UID ctx) @ [link_names ! i] := lookup f0 q)"
      "mounts f = (lxg_path (UID ctx) @ [link_names ! i], Reg []) # mounts (files d)"
      using r(3) by blast
    let ?d = "d\<lparr>group := service_returns (group d) i err, files := f, cleanups := i # cleanups d\<rparr>"
    have "link_place (UID ctx) f0 ?d j" if "j < 6" for j
      using inv that i(1) q by (cases "j = i") (auto simp: daemon_inv_def link_place_def link_name_eq)
    moreover have "i \<notin> set (cleanups d)" using inv i by (auto simp: daemon_inv_def)
    moreover have "lookup f (lxg_path (UID ctx) @ [''bridge'']) = lookup (files d) (lxg_path (UID ctx) @ [''bridge''])"
      "lookup f (lxg_path (UID ctx) @ [''bus'']) = lookup (files d) (lxg_path (UID ctx) @ [''bus''])"
      using link_name_other [OF i(1)] by (auto simp: q(3))
    ultimately show ?thesis
      using inv r(2) i(1) q(4) True by (auto simp: daemon_inv_def)
  qed
qed

lemma inv_clean_up:
  assumes inv: "daemon_inv ctx addr installed f0 d" and uid: "component_ok (UID ctx)" and ready: "host_ready (UID ctx) f0"
    and i: "i \<in> set (cleanups d)"
  shows "daemon_inv ctx addr installed f0 (d\<lparr>files := BindMount_cancel (files d) (link_target ctx i), cleanups := remove1 i (cleanups d)\<rparr>)"
proof -
  have ok: "shared_ok (UID ctx) f0 (files d)" and i6: "i < 6" using inv i by (auto simp: daemon_inv_def)
  let ?slot = "\<lambda>j. lxg_path (UID ctx) @ [link_names ! j]"
  have m: "mounts (files d) = map (\<lambda>j. (?slot j, Reg [])) (cleanups d)" and dist: "distinct (cleanups d)"
    using inv by (simp_all add: daemon_inv_def)
  have inj: "distinct (map ?slot (cleanups d))"
    using dist inv by (auto simp: distinct_map inj_on_def daemon_inv_def link_name_eq)
  have m1: "drop_first (?slot i) (mounts (files d)) = map (\<lambda>j. (?slot j, Reg [])) (remove1 i (cleanups d))"
    unfolding m by (rule drop_first_map [OF inj i])
  have "map_of (drop_first (?slot i) (mounts (files d))) (?slot i) = None"
    unfolding m1 using dist inv i6 by (auto simp: map_of_eq_None_iff daemon_inv_def link_name_eq)
  note c = cancel_shared [OF uid ready ok link_name [OF i6] this link_comps(1) [OF uid link_name [OF i6]],
      folded link_target_def]
  let ?d = "d\<lparr>files := BindMount_cancel (files d) (link_target ctx i), cleanups := remove1 i (cleanups d)\<rparr>"
  have "link_place (UID ctx) f0 ?d j" if "j < 6" for j
    using inv that i6 dist by (cases "j = i") (auto simp: daemon_inv_def link_place_def c(2) link_name_eq)
  moreover have "lookup (files ?d) (lxg_path (UID ctx) @ [''bridge'']) = lookup (files d) (lxg_path (UID ctx) @ [''bridge''])"
    "lookup (files ?d) (lxg_path (UID ctx) @ [''bus'']) = lookup (files d) (lxg_path (UID ctx) @ [''bus''])"
    using link_name_other [OF i6] by (auto simp: c(2))
  ultimately show ?thesis
    using inv c(1,3) m1 by (auto simp: daemon_inv_def)
qed

lemma inv_proxy_returns:
  assumes inv: "daemon_inv ctx addr installed f0 d" and uid: "component_ok (UID ctx)" and ready: "host_ready (UID ctx) f0"
    and f: "shared_ok (UID ctx) f0 f" "mounts f = mounts (files d)" "\<And>n. n \<noteq> ''bus'' \<Longrightarrow>
      lookup f (lxg_path (UID ctx) @ [n]) = lookup (files d) (lxg_path (UID ctx) @ [n])"
  shows "daemon_inv ctx addr installed f0 (d\<lparr>group := service_returns (group d) 6 err, files := fst (Remove f (dbus_proxy_path ctx)), proxying := p\<rparr>)"
    and "addr = [] \<or> \<not> installed \<Longrightarrow> daemon_inv ctx addr installed f0 (d\<lparr>group := service_returns (group d) 6 err, files := f\<rparr>)"
    and "p \<Longrightarrow> daemon_inv ctx addr installed f0 (d\<lparr>files := f, proxying := p\<rparr>)"
proof -
  have free: "map_of (mounts f) (lxg_path (UID ctx) @ [''bus'']) = None"
    using daemon_socket_free [OF inv] f(2) by simp
  have keep: "daemon_inv ctx addr installed f0 (d\<lparr>group := g, files := h, proxying := p\<rparr>)"
    if g: "\<And>i. i \<noteq> 6 \<Longrightarrow> running g i = running (group d) i"
      and h: "shared_ok (UID ctx) f0 h" "mounts h = mounts (files d)" "\<And>n. n \<noteq> ''bus'' \<Longrightarrow>
        lookup h (lxg_path (UID ctx) @ [n]) = lookup (files d) (lxg_path (UID ctx) @ [n])"
      and b: "addr = [] \<or> \<not> installed \<or> p \<or> lookup h (lxg_path (UID ctx) @ [''bus'']) = None" for g h p
  proof -
    have "link_place (UID ctx) f0 (d\<lparr>group := g, files := h, proxying := p\<rparr>) i" if "i < 6" for i
      using inv that link_name_other [OF that] h(3) [of "link_names ! i"] by (auto simp: daemon_inv_def link_place_def)
    then show ?thesis using inv g h b by (auto simp: daemon_inv_def)
  qed
  note r = proxy_remove_shared [OF uid ready f(1) free]
  show "daemon_inv ctx addr installed f0 (d\<lparr>group := service_returns (group d) 6 err, files := fst (Remove f (dbus_proxy_path ctx)), proxying := p\<rparr>)"
    using r f by (intro keep) simp_all
  show "daemon_inv ctx addr installed f0 (d\<lparr>group := service_returns (group d) 6 err, files := f\<rparr>)" if "addr = [] \<or> \<not> installed"
    using keep [of "service_returns (group d) 6 err" f "proxying d"] f that by auto
  show "daemon_inv ctx addr installed f0 (d\<lparr>files := f, proxying := p\<rparr>)" if p
    using keep [of "group d" f p] f that by simp
qed

lemma inv_step:
  assumes "daemon_step ctx addr installed d d'" and "daemon_inv ctx addr installed f0 d" and "serving d"
    and uid: "component_ok (UID ctx)" and ready: "host_ready (UID ctx) f0"
  shows "daemon_inv ctx addr installed f0 d'"
  using assms(1-3)
proof (induction rule: daemon_step.induct)
  case (link d i f err bound)
  then show ?case using inv_link [OF _ uid ready] by blast
next
  case (clean_up d i)
  then show ?case using inv_clean_up [OF _ uid ready] by blast
next
  case (proxy_not_started d f err)
  have ok: "shared_ok (UID ctx) f0 (files d)" using proxy_not_started by (simp add: daemon_inv_def)
  note p = proxy_prepare_shared [OF uid ready ok daemon_socket_free [OF proxy_not_started(5)], simplified]
  have "f = files d" "addr = [] \<or> \<not> installed" using proxy_not_started(4) by (auto simp: p split: if_splits)
  then show ?case using inv_proxy_returns(2) [OF proxy_not_started(5) uid ready ok] by simp
next
  case (proxy_starts d f err)
  have ok: "shared_ok (UID ctx) f0 (files d)" using proxy_starts by (simp add: daemon_inv_def)
  note free = daemon_socket_free [OF proxy_starts(5), of "''bus''", simplified]
  note p = proxy_prepare_shared [OF uid ready ok free] and r = proxy_remove_shared [OF uid ready ok free]
  have "f = fst (Remove (files d) (dbus_proxy_path ctx))" using proxy_starts(4) by (simp add: p split: if_splits)
  then show ?case using inv_proxy_returns(3) [OF proxy_starts(5) uid ready r(1,2)] by (simp add: r(3))
next
  case (proxy_fails d f err e)
  have ok: "shared_ok (UID ctx) f0 (files d)" using proxy_fails by (simp add: daemon_inv_def)
  note free = daemon_socket_free [OF proxy_fails(5), of "''bus''", simplified]
  note p = proxy_prepare_shared [OF uid ready ok free] and r = proxy_remove_shared [OF uid ready ok free]
  have "f = fst (Remove (files d) (dbus_proxy_path ctx))" using proxy_fails(4) by (simp add: p split: if_splits)
  then show ?case using inv_proxy_returns(1) [OF proxy_fails(5) uid ready r(1,2), where p = "proxying d"] by (simp add: r(3))
next
  case (proxy_listens d)
  have ok: "shared_ok (UID ctx) f0 (files d)" using proxy_listens by (simp add: daemon_inv_def)
  from inv_proxy_returns(3) [OF proxy_listens(4) uid ready proxy_socket_shared [OF uid ready ok proxy_listens(3)], where p = "proxying d"]
  show ?case using proxy_listens(2) by (cases d) simp
next
  case (proxy_ends d err)
  have ok: "shared_ok (UID ctx) f0 (files d)" using proxy_ends by (simp add: daemon_inv_def)
  show ?case using inv_proxy_returns(1) [OF proxy_ends(3) uid ready ok] by simp
next
  case (bridge_fails d f e)
  have ok: "shared_ok (UID ctx) f0 (files d)" using bridge_fails by (simp add: daemon_inv_def)
  from bridge_open_shared [OF uid ready ok] daemon_socket_free [OF bridge_fails(5)] bridge_fails(4) show ?case by auto
next
  case (bridge_opens d f)
  have ok: "shared_ok (UID ctx) f0 (files d)" using bridge_opens by (simp add: daemon_inv_def)
  have f: "shared_ok (UID ctx) f0 f" "mounts f = mounts (files d)"
    "lookup f = (lookup (files d))(lxg_path (UID ctx) @ [''bridge''] \<mapsto> Sock)"
    using bridge_open_shared [OF uid ready ok] daemon_socket_free [OF bridge_opens(5)] bridge_opens(4) by auto
  show ?case by (rule inv_bridge [OF bridge_opens(5), where v = "Some Sock"]) (simp_all add: f)
next
  case (bridge_closes d)
  have ok: "shared_ok (UID ctx) f0 (files d)" using bridge_closes by (simp add: daemon_inv_def)
  note f = bridge_leave_shared [OF uid ready ok] daemon_socket_free [OF bridge_closes(4)]
  show ?case by (rule inv_bridge [OF bridge_closes(4), where v = None]) (simp_all add: f)
next
  case (coordinate d g)
  then show ?case by (simp add: daemon_inv_def link_place_def)
qed (simp_all add: daemon_inv_def link_place_def)

lemma daemon_reach_inv:
  assumes "daemon_reach ctx addr installed f0 d" and uid: "component_ok (UID ctx)" and ready: "host_ready (UID ctx) f0"
  shows "daemon_inv ctx addr installed f0 d"
  using assms(1)
proof (induction rule: daemon_reach.induct)
  case start
  show ?case by (rule inv_start [OF ready])
next
  case (step d d')
  show ?case using inv_step [OF step(2,3) _ uid ready] daemon_serving [OF step(1)] by blast
qed

section \<open>The end of a run\<close>

inductive daemon_steps :: "Context \<Rightarrow> string \<Rightarrow> bool \<Rightarrow> 'a fs_scheme daemon \<Rightarrow> 'a fs_scheme daemon \<Rightarrow> bool"
  for ctx addr installed where
  refl: "daemon_steps ctx addr installed d d"
| step: "daemon_step ctx addr installed d e \<Longrightarrow> daemon_steps ctx addr installed e d' \<Longrightarrow> daemon_steps ctx addr installed d d'"

lemma init_step_keeps_idle: "init_step s t \<Longrightarrow> Running \<notin> set (phases s) \<Longrightarrow> Running \<notin> set (phases t)"
  by (induction rule: init_step.induct) (auto dest!: set_update_subset_insert [THEN subsetD])

lemma idle_running: "Running \<notin> set (phases g) \<Longrightarrow> running g = (\<lambda>i. False)"
  by (auto simp: running_def fun_eq_iff dest: nth_mem)

text \<open>
  Once the service functions have returned, \<open>Init\<close> can return before any clean-up that is still
  waiting has run: it does not wait for them, and the process ends after it.
\<close>

lemma daemon_returns:
  assumes "init_reach (group d)" and "\<not> died d" and "Running \<notin> set (phases (group d))"
  shows "\<exists>d'. daemon_steps ctx addr installed d d' \<and> returned (group d') \<and> cleanups d' = cleanups d \<and> files d' = files d"
  using assms
proof (induction "init_rank (group d)" arbitrary: d rule: less_induct)
  case less
  show ?case
  proof (cases "returned (group d)")
    case True
    then show ?thesis using daemon_steps.refl by blast
  next
    case False
    from init_progress [OF init_reach_inv [OF less.prems(1)] False less.prems(3)]
    obtain g where g: "init_step (group d) g" "init_rank g < init_rank (group d)" by blast
    let ?e = "d\<lparr>group := g\<rparr>"
    have idle: "Running \<notin> set (phases g)" by (rule init_step_keeps_idle [OF g(1) less.prems(3)])
    then have st: "daemon_step ctx addr installed d ?e"
      using less.prems by (intro daemon_step.coordinate g(1)) (simp_all add: idle_running)
    have "init_reach g" by (rule init_reach.step [OF less.prems(1) g(1)])
    with less.hyps [of ?e] g(2) less.prems(2) idle obtain d' where
      "daemon_steps ctx addr installed ?e d'" "returned (group d')" "cleanups d' = cleanups d" "files d' = files d" by auto
    then show ?thesis using daemon_steps.step [OF st] by blast
  qed
qed

lemma daemon_steps_reach:
  "daemon_steps ctx addr installed d d' \<Longrightarrow> daemon_reach ctx addr installed f0 d \<Longrightarrow> daemon_reach ctx addr installed f0 d'"
  by (induction rule: daemon_steps.induct) (auto intro: daemon_reach.step)

lemma daemon_steps_trans:
  "daemon_steps ctx addr installed d e \<Longrightarrow> daemon_steps ctx addr installed e d' \<Longrightarrow> daemon_steps ctx addr installed d d'"
  by (induction rule: daemon_steps.induct) (auto intro: daemon_steps.step)

lemma daemon_steps_one: "daemon_step ctx addr installed d e \<Longrightarrow> daemon_steps ctx addr installed d e"
  by (rule daemon_steps.step [OF _ daemon_steps.refl])

text \<open>A service has come to its end: it no longer runs, the others go on, no clean-up is lost.\<close>

definition service_over :: "nat \<Rightarrow> 'f daemon \<Rightarrow> 'f daemon \<Rightarrow> bool" where
  "service_over i d e \<longleftrightarrow> \<not> died e \<and> (\<forall>j. running (group e) j \<longleftrightarrow> running (group d) j \<and> j \<noteq> i) \<and>
     set (cleanups d) \<subseteq> set (cleanups e)"

lemma over_step:
  assumes "daemon_step ctx addr installed d e" and "service_over i d e"
  shows "\<exists>e. daemon_steps ctx addr installed d e \<and> service_over i d e"
  using daemon_steps_one [OF assms(1)] assms(2) by blast

lemma over_before:
  assumes "daemon_step ctx addr installed d c" and "\<exists>e. daemon_steps ctx addr installed c e \<and> service_over i c e"
    and "running (group c) = running (group d)" and "cleanups c = cleanups d"
  shows "\<exists>e. daemon_steps ctx addr installed d e \<and> service_over i d e"
  using assms daemon_steps.step [OF assms(1)] by (auto simp: service_over_def)

lemma glob_found:
  assumes uid: "component_ok uid" and ready: "host_ready uid f0" and ok: "shared_ok uid f0 f"
    and auth: "HasPrefix n pre" "lookup f0 (run_dir uid @ [n]) \<noteq> None"
  shows "glob_prefix f (''/run/user/'' @ uid) pre \<noteq> []"
proof -
  have S: "dir_ok (run_dir uid) (run_dir uid) f" and q: "quiet f"
    using shared_dir_ok [OF uid ready ok] ok by (simp_all add: shared_ok_def)
  have r: "resolve OpRead True f (run_dir uid) = Inr (run_dir uid)"
    using dir_ok_walk [OF S] q by (simp add: resolve_def)
  have st: "stat_at f (run_dir uid) = Inr Dir" using dir_ok_stat [OF S] q by simp
  have "lookup f (run_dir uid @ [n]) = lookup f0 (run_dir uid @ [n])"
    by (rule shared_frame [OF ok]) (simp add: lxg_path_def run_dir_def)
  then have "run_dir uid @ [n] \<in> fst ` set (nodes f)"
    using auth(2) by (simp add: in_nodes)
  then have "n \<in> set (sort (remdups (map last (filter (\<lambda>q. q \<noteq> [] \<and> butlast q = run_dir uid \<and> HasPrefix (last q) pre)
      (map fst (nodes f))))))" using auth(1) by (force simp: image_iff)
  then have "sort (remdups (map last (filter (\<lambda>q. q \<noteq> [] \<and> butlast q = run_dir uid \<and> HasPrefix (last q) pre)
      (map fst (nodes f))))) \<noteq> []" by (metis empty_iff list.set(1))
  then show ?thesis
    by (simp only: glob_prefix_def comps_runtime [OF uid] st r prod.case sum.case node.case map_is_Nil_conv not_False_eq_True)
qed

lemma link_over:
  assumes reach: "daemon_reach ctx addr installed f0 d" and uid: "component_ok (UID ctx)" and ready: "host_ready (UID ctx) f0"
    and alive: "\<not> died d" and i: "i < 6" "running (group d) i"
    and auth: "HasPrefix n ''.mutter-Xwaylandauth.''" "lookup f0 (run_dir (UID ctx) @ [n]) \<noteq> None"
  shows "\<exists>e. daemon_steps ctx addr installed d e \<and> service_over i d e"
proof -
  have inv: "daemon_inv ctx addr installed f0 d" by (rule daemon_reach_inv [OF reach uid ready])
  then have ok: "shared_ok (UID ctx) f0 (files d)" by (simp add: daemon_inv_def)
  obtain r where r: "link_service i (files d) ctx = Some r"
    using glob_found [OF uid ready ok auth]
    by (cases "link_service i (files d) ctx") (auto simp: link_service_def LinkX11Auth_def split: list.splits if_splits)
  obtain f err bound where "r = (f, err, bound)" by (rule prod_cases3)
  then show ?thesis
    using alive by (intro over_step [OF daemon_step.link [OF alive i r [unfolded \<open>r = (f, err, bound)\<close>]]]) (auto simp: service_over_def)
qed

lemma proxy_over:
  assumes reach: "daemon_reach ctx addr installed f0 d" and uid: "component_ok (UID ctx)" and ready: "host_ready (UID ctx) f0"
    and alive: "\<not> died d" and i: "running (group d) 6"
  shows "\<exists>e. daemon_steps ctx addr installed d e \<and> service_over 6 d e"
proof -
  have ends: "\<exists>e. daemon_steps ctx addr installed d e \<and> service_over 6 d e" if "proxying d" "\<not> died d" for d
    using that by (intro over_step [OF daemon_step.proxy_ends [where err = None]]) (auto simp: service_over_def)
  obtain f err started where p: "InitDBus_prepare addr installed (files d) ctx = (f, err, started)" by (metis prod_cases3)
  consider "proxying d" | (starts) "\<not> proxying d" started | (skips) "\<not> proxying d" "\<not> started" by blast
  then show ?thesis
  proof cases
    case 1
    then show ?thesis using ends alive by blast
  next
    case starts
    from p starts(2) have p: "InitDBus_prepare addr installed (files d) ctx = (f, err, True)" by simp
    show ?thesis
      by (rule over_before [OF daemon_step.proxy_starts [OF alive i starts(1) p] ends]) (use alive in simp_all)
  next
    case skips
    from p skips(2) have p: "InitDBus_prepare addr installed (files d) ctx = (f, err, False)" by simp
    show ?thesis
      using alive by (intro over_step [OF daemon_step.proxy_not_started [OF alive i skips(1) p]]) (simp add: service_over_def)
  qed
qed

lemma bridge_over:
  assumes reach: "daemon_reach ctx addr installed f0 d" and uid: "component_ok (UID ctx)" and ready: "host_ready (UID ctx) f0"
    and alive: "\<not> died d" and i: "running (group d) 7"
  shows "\<exists>e. daemon_steps ctx addr installed d e \<and> service_over 7 d e"
proof -
  have ends: "\<exists>e. daemon_steps ctx addr installed d e \<and> service_over 7 d e" if d: "listening d" "\<not> died d" for d
  proof -
    let ?c = "d\<lparr>group := (group d)\<lparr>cancelled := True\<rparr>\<rparr>"
    have c: "daemon_step ctx addr installed d ?c"
      by (rule daemon_step.coordinate [OF d(2) init_step.signal]) simp
    have "\<exists>e. daemon_steps ctx addr installed ?c e \<and> service_over 7 ?c e"
      using d by (intro over_step [OF daemon_step.bridge_closes]) (auto simp: service_over_def)
    then show ?thesis by (rule over_before [OF c]) simp_all
  qed
  obtain f err where p: "InitSocket_open (files d) ctx = (f, err)" by force
  show ?thesis
  proof (cases "listening d")
    case True
    then show ?thesis using ends alive by blast
  next
    case False
    show ?thesis
    proof (cases err)
      case None
      show ?thesis
        by (rule over_before [OF daemon_step.bridge_opens [OF alive i False p [unfolded None]] ends]) (use alive in simp_all)
    next
      case (Some e)
      show ?thesis
        using alive by (intro over_step [OF daemon_step.bridge_fails [OF alive i False p [unfolded Some]]]) (simp add: service_over_def)
    qed
  qed
qed

text \<open>The daemon can be brought to its end from every state, with the bind mounts left behind.\<close>

lemma daemon_can_return:
  assumes reach: "daemon_reach ctx addr installed f0 d" and uid: "component_ok (UID ctx)" and ready: "host_ready (UID ctx) f0"
    and auth: "HasPrefix n ''.mutter-Xwaylandauth.''" "lookup f0 (run_dir (UID ctx) @ [n]) \<noteq> None"
    and alive: "\<not> died d"
  shows "\<exists>d'. daemon_steps ctx addr installed d d' \<and> returned (group d') \<and> set (cleanups d) \<subseteq> set (cleanups d')"
  using reach alive
proof (induction "card {i. running (group d) i}" arbitrary: d rule: less_induct)
  case less
  have len: "length (phases (group d)) = 8"
    using init_reach_inv daemon_serving [OF less.prems(1)] by (force simp: init_inv_def init_services_def)
  show ?case
  proof (cases "\<exists>i. running (group d) i")
    case True
    then obtain i where i: "running (group d) i" by blast
    with len have "i < 6 \<or> i = 6 \<or> i = 7" by (auto simp: running_def)
    then obtain e where e: "daemon_steps ctx addr installed d e" "service_over i d e"
      using link_over [OF less.prems(1) uid ready less.prems(2) _ i auth] proxy_over [OF less.prems(1) uid ready less.prems(2)]
        bridge_over [OF less.prems(1) uid ready less.prems(2)] i by blast
    have "finite {i. running (group d) i}" by (rule finite_subset [of _ "{..<8}"]) (auto simp: running_def len)
    moreover have "{j. running (group e) j} = {j. running (group d) j} - {i}" using e(2) by (auto simp: service_over_def)
    ultimately have "card {j. running (group e) j} < card {j. running (group d) j}"
      using i by (simp add: card_Diff1_less del: card_Diff_insert)
    with less.hyps [of e] daemon_steps_reach [OF e(1) less.prems(1)] e(2) obtain d' where
      "daemon_steps ctx addr installed e d'" "returned (group d')" "set (cleanups e) \<subseteq> set (cleanups d')"
      by (auto simp: service_over_def)
    with e show ?thesis using daemon_steps_trans [OF e(1)] by (force simp: service_over_def)
  next
    case False
    then have "Running \<notin> set (phases (group d))" by (auto simp: running_def in_set_conv_nth)
    from daemon_returns [where ctx = ctx and addr = addr and installed = installed, OF conjunct2 [OF daemon_serving [OF less.prems(1)]] less.prems(2) this]
    show ?thesis by auto
  qed
qed

lemma daemon_over:
  assumes "serving d" and "init_reach (group d)" and "returned (group d)"
  shows "\<not> listening d \<and> \<not> proxying d \<and> (\<forall>i. \<not> running (group d) i)"
proof -
  have "list_all (\<lambda>p. p = Finished) (phases (group d))"
    using init_reach_inv [OF assms(2)] assms(3) by (simp add: init_inv_def)
  then have "\<not> running (group d) i" for i by (auto simp: running_def list_all_length)
  then show ?thesis using assms(1) by (simp add: serving_def)
qed

text \<open>What the names of the links show.\<close>

lemma daemon_bound:
  assumes "daemon_inv ctx addr installed f0 d" and "i \<in> set (cleanups d)"
  shows "\<exists>q \<in> link_sources (UID ctx) i. is_file (lookup f0 q) \<and>
    lookup (files d) (lxg_path (UID ctx) @ [link_names ! i]) = lookup f0 q"
proof -
  have "i < 6" using assms by (auto simp: daemon_inv_def)
  then have "link_place (UID ctx) f0 d i" using assms(1) by (simp add: daemon_inv_def)
  then show ?thesis using assms(2) by (simp add: link_place_def Let_def)
qed

lemma daemon_unbound:
  assumes "daemon_inv ctx addr installed f0 d" and "cleanups d = []" and "n \<in> set link_names"
  shows "lookup (files d) (lxg_path (UID ctx) @ [n]) \<in> {None, lookup f0 (lxg_path (UID ctx) @ [n])}"
proof -
  obtain i where i: "i < 6" "n = link_names ! i" using assms(3) by (auto simp: in_set_conv_nth)
  then have "link_place (UID ctx) f0 d i" using assms(1) by (simp add: daemon_inv_def)
  then show ?thesis using assms(2) i(2) by (simp add: link_place_def Let_def)
qed

end
