(* ===== verification/Container_Client.thy ===== *)
theory Container_Client
  imports Host_Bridge
begin

text \<open>
  The container's side of the bridge: \<open>BridgeRequest\<close> of \<open>container/client.go\<close> and \<open>RunCommand\<close> of
  \<open>container/command.go\<close>, and the composition of the client with the handler of the host.

  The client ends by returning an error or by exiting with a code; \<open>None\<close> is a panic. Connecting
  to a socket yields an error or a link: what sending a document yields, an error or the result
  of receiving the answer.
\<close>

datatype client_end = Returned string | Exited int

type_synonym link = "json \<Rightarrow> string + (string + json)"

definition client_socket :: "Context \<Rightarrow> string" where
  "client_socket ctx = ''/run/user/'' @ UID ctx @ ''/lxg.bridge''"

text \<open>The loop that takes the command out of the arguments.\<close>

fun command_loop :: "string list \<Rightarrow> string list \<Rightarrow> string \<times> string list" where
  "command_loop [] args = ([], args)"
| "command_loop (arg # rest) args =
     (if \<not> is_flag arg
      then (arg, case slices_Index args arg of Some index \<Rightarrow> remove_at args index | None \<Rightarrow> args)
      else command_loop rest args)"

definition client_request :: "string list \<Rightarrow> string + Request" where
  "client_request args =
     (if args = [] then Inl ''missing command to execute on host''
      else let (command, args) = command_loop args args
      in if command = [] then Inl ''missing command to execute on host''
         else let noWaitFlag = ''--no-wait'';
                  waitCmd = (noWaitFlag \<notin> set args);
                  args = (case slices_Index args noWaitFlag of Some index \<Rightarrow> remove_at args index | None \<Rightarrow> args)
              in Inr (NewRequest\<lparr>Command := command, rqArgs := args, Wait := waitCmd\<rparr>))"

text \<open>From the answer to the end: \<open>os.Exit\<close> with the code of a response that is \<open>OK\<close>.\<close>

definition bridge_reply :: "string + json \<Rightarrow> client_end option" where
  "bridge_reply received =
     (case (case received of Inl err \<Rightarrow> Inl err | Inr j \<Rightarrow> decode_response j) of
        Inl err \<Rightarrow> Some (Returned (''receive response error: '' @ err))
      | Inr None \<Rightarrow> None
      | Inr (Some response) \<Rightarrow>
          if \<not> OK response then Some (Returned (''response error: '' @ Message response))
          else Some (Exited (rsExitCode response)))"

definition BridgeRequest :: "'a fs_scheme \<Rightarrow> (string \<Rightarrow> string + link) \<Rightarrow> Context \<Rightarrow> client_end option" where
  "BridgeRequest f dial ctx =
     (case Stat f (client_socket ctx) of
        Inl e \<Rightarrow>
          if e \<noteq> ENOENT then Some (Returned (''socket verification error: '' @ errno_text e))
          else Some (Returned ''not callable on isolated containers'')
      | Inr _ \<Rightarrow>
          (case client_request (Args ctx) of
             Inl err \<Rightarrow> Some (Returned err)
           | Inr request \<Rightarrow>
               (case dial (client_socket ctx) of
                  Inl err \<Rightarrow> Some (Returned (''connect to host error: '' @ err))
                | Inr send \<Rightarrow>
                    (case send (encode_request request) of
                       Inl err \<Rightarrow> Some (Returned (''send request error: '' @ err))
                     | Inr received \<Rightarrow> bridge_reply received))))"

text \<open>\<open>container/command.go\<close>: \<open>ctx.Args[0]\<close> panics without arguments.\<close>

definition container_RunCommand :: "'w runner \<Rightarrow> 'w host \<Rightarrow> Context \<Rightarrow> ('w host \<times> string option) option" where
  "container_RunCommand run h ctx =
     (case Args ctx of
        [] \<Rightarrow> None
      | command # args \<Rightarrow>
          (let (h, err) = cmd_Run run h \<lparr>prog = command, pargs = args, pstdin = None\<rparr>
           in Some (h, map_option (\<lambda>e. ''run command error: '' @ e) err)))"

section \<open>The arguments\<close>

lemma command_loop_flags: "list_all is_flag xs \<Longrightarrow> command_loop (xs @ ys) args = command_loop ys args"
  by (induction xs) auto

text \<open>
  The command is the first argument that is not a flag; one \<open>--no-wait\<close> is taken out wherever it
  stands, even among the command's own arguments.
\<close>

lemma client_request_split:
  assumes "list_all is_flag fs" and "\<not> is_flag c" and "c \<noteq> []"
  shows "client_request (fs @ c # rest) =
    Inr \<lparr>Command = c, rqArgs = remove1 ''--no-wait'' (fs @ rest), Wait = (''--no-wait'' \<notin> set (fs @ rest))\<rparr>"
proof -
  have "c \<notin> set fs" using assms(1,2) by (auto simp: list_all_iff)
  then have r: "remove1 c (fs @ c # rest) = fs @ rest" by (simp add: remove1_append)
  obtain i where "slices_Index (fs @ c # rest) c = Some i"
    using slices_Index_None [of "fs @ c # rest" c] by fastforce
  with r have cmd: "command_loop (fs @ c # rest) (fs @ c # rest) = (c, fs @ rest)"
    by (simp only: command_loop_flags [OF assms(1)]) (simp add: assms(2) slices_Index_remove1)
  have "(case slices_Index (fs @ rest) ''--no-wait'' of Some index \<Rightarrow> remove_at (fs @ rest) index | None \<Rightarrow> fs @ rest)
      = remove1 ''--no-wait'' (fs @ rest)"
    using slices_Index_None [of "fs @ rest" "''--no-wait''"]
    by (auto simp: slices_Index_remove1 remove1_idem split: option.split)
  with assms(3) show ?thesis by (simp add: client_request_def cmd Let_def NewRequest_def)
qed

section \<open>The two sockets\<close>

text \<open>
  The path the client asks for is not the path the host listens on: with the container's layout
  and the bridge of the host present, every request is refused.
\<close>

lemma client_socket_elsewhere: "client_socket ctx \<noteq> bridge_socket ctx"
  by (simp add: client_socket_def bridge_socket_def run_user_def)

lemma client_comps: "component_ok (UID ctx) \<Longrightarrow> comps (client_socket ctx) = run_dir (UID ctx) @ [''lxg.bridge'']"
proof -
  assume uid: "component_ok (UID ctx)"
  have "client_socket ctx = run_user (UID ctx) ''lxg.bridge''" by (simp add: client_socket_def run_user_def)
  then show ?thesis by (simp add: comps_run_user [OF uid] run_dir_def) (simp add: comps_def)
qed

lemma BridgeRequest_unreachable:
  assumes "component_ok (UID ctx)" and "container_layout (UID ctx) f" and "quiet f"
    and "lookup f (run_dir (UID ctx) @ [''lxg.bridge'']) = None"
  shows "BridgeRequest f dial ctx = Some (Returned ''not callable on isolated containers'')"
proof -
  have n: "''lxg.bridge'' \<noteq> ''..''" by simp
  have "Stat f (client_socket ctx) = Inl ENOENT"
    using stat_entry [OF layout_dirs(1) [OF assms(2,1)] n] assms(3,4) by (simp add: client_comps [OF assms(1)])
  then show ?thesis by (simp add: BridgeRequest_def)
qed

lemma valid_async: "valid_utf8 ''async''"
  by code_simp

section \<open>The client and the host together\<close>

text \<open>How the client ends, by how the command ended on the host.\<close>

definition client_outcome :: "Request \<Rightarrow> outcome \<Rightarrow> client_end" where
  "client_outcome r oc =
     (case oc of
        StartFails e \<Rightarrow> Returned (''response error: command error '' @ TrimSpace (Command r) @ '': '' @ e)
      | Ran _ _ _ ended \<Rightarrow>
          if \<not> Wait r then Exited 0
          else (case ended of
                  ExitedOk \<Rightarrow> Exited 0
                | Failed code _ \<Rightarrow> if code = 0 then Exited 0 else Returned ''response error: ''
                | WaitFails e \<Rightarrow> Returned (''response error: '' @ e)))"

definition outcome_ok :: "Request \<Rightarrow> outcome \<Rightarrow> bool" where
  "outcome_ok r oc \<longleftrightarrow>
     (case oc of
        StartFails e \<Rightarrow> valid_utf8 (''command error '' @ TrimSpace (Command r) @ '': '' @ e)
      | Ran pid _ _ ended \<Rightarrow> - (2 ^ 63) \<le> pid \<and> pid < 2 ^ 63 \<and>
          (case ended of ExitedOk \<Rightarrow> True | Failed code _ \<Rightarrow> - (2 ^ 63) \<le> code \<and> code < 2 ^ 63 | WaitFails e \<Rightarrow> valid_utf8 e))"

text \<open>The response a request gets on a connection that can be written to.\<close>

definition answer :: "Request \<Rightarrow> outcome \<Rightarrow> Response" where
  "answer r oc =
     (case oc of
        StartFails e \<Rightarrow> NewResponse\<lparr>Message := ''command error '' @ TrimSpace (Command r) @ '': '' @ e\<rparr>
      | Ran pid _ _ ended \<Rightarrow>
          if \<not> Wait r then \<lparr>OK = True, rsPID = pid, rsExitCode = 0, Message = ''async''\<rparr>
          else (case ended of
                  ExitedOk \<Rightarrow> \<lparr>OK = True, rsPID = pid, rsExitCode = 0, Message = []\<rparr>
                | Failed code _ \<Rightarrow> \<lparr>OK = (code = 0), rsPID = pid, rsExitCode = code, Message = []\<rparr>
                | WaitFails e \<Rightarrow> NewResponse\<lparr>Message := e\<rparr>))"

definition bridge_process :: "Request \<Rightarrow> process" where
  "bridge_process r = \<lparr>prog = TrimSpace (Command r), pargs = rqArgs r, pstdin = None\<rparr>"

lemma serve_conn_answer:
  assumes "auth_error ctx c = None" and "deadlineErr c = None" and "document c = Inr j" and "decode_request j = Inr (Some r)"
    and "TrimSpace (Command r) \<noteq> []" and "writes c = []" and "run_process run h (bridge_process r) = (h', oc)"
  shows "serve_conn run h ctx c = Some (h', c\<lparr>sent := sent c @ [answer r oc]\<rparr>)"
  using assms(1-6) assms(7) [unfolded bridge_process_def]
  by (simp add: serve_conn_def HandleRequest_def Let_def WriteJSON_def WriteError_def answer_def NewResponse_def
      split: outcome.split wait_end.split)

lemma decode_answer:
  assumes "outcome_ok r oc"
  shows "decode_response (encode_response (answer r oc)) = Inr (Some (answer r oc))"
proof -
  have "valid_utf8 (Message (answer r oc))" and "- (2 ^ 63) \<le> rsPID (answer r oc)" "rsPID (answer r oc) < 2 ^ 63"
    "- (2 ^ 63) \<le> rsExitCode (answer r oc)" "rsExitCode (answer r oc) < 2 ^ 63"
    using assms valid_async
    by (auto simp: outcome_ok_def answer_def NewResponse_def simp del: valid_utf8.simps(2) split: outcome.splits wait_end.splits)
  then show ?thesis by (simp add: decode_encode_response coerce_valid)
qed

text \<open>
  A request from the client's arguments to its end: the document the client sends makes the worker
  run its process, once, and the document of the worker's answer makes the client end as
  \<open>client_outcome\<close> says.
\<close>

lemma decode_client_request:
  assumes "valid_utf8 (Command r)" and "list_all valid_utf8 (rqArgs r)"
  shows "decode_request (encode_request r) = Inr (Some r)"
proof -
  have "map coerce_utf8 (rqArgs r) = rqArgs r"
    using assms(2) by (induction "rqArgs r") (auto simp: coerce_valid list_all_iff intro: map_idI)
  then show ?thesis by (simp add: decode_encode_request coerce_valid assms(1))
qed

lemma bridge_reply_answer:
  assumes "outcome_ok r oc"
  shows "bridge_reply (Inr (encode_response (answer r oc))) = Some (client_outcome r oc)"
proof -
  have "bridge_reply (Inr (encode_response (answer r oc))) =
      Some (if \<not> OK (answer r oc) then Returned (''response error: '' @ Message (answer r oc)) else Exited (rsExitCode (answer r oc)))"
    by (simp add: bridge_reply_def decode_answer [OF assms])
  also have "\<dots> = Some (client_outcome r oc)"
    by (auto simp: answer_def client_outcome_def NewResponse_def split: outcome.split wait_end.split)
  finally show ?thesis .
qed

end
