(* ===== verification/Main_Dispatch.thy ===== *)
theory Main_Dispatch
  imports Host_Systemd Container_Daemon Container_Client Host_Init
begin

text \<open>
  The command line of the binary: \<open>main.go\<close>, \<open>help/help.go\<close>, and the set-up inside a container
  (\<open>container/setup.go\<close>, \<open>container/setup/dependencies.go\<close>, \<open>container/setup/scripts.go\<close>).

  \<open>handle\<close> is split in two: which function of the program it calls with which context (\<open>handle\<close>),
  and the call itself (\<open>perform\<close>), which runs the model of that function. What the program finds
  outside of itself (the embedded files, the user database, the order of Go's maps, the processes
  it starts, what arrives on its sockets) is the record \<open>outside\<close>.
\<close>

section \<open>main.go\<close>

datatype call = CallPrint Context | CallListen Context | CallSetup Context | CallStart Context | CallStop Context
  | CallRestart Context | CallRun Context | CallContainerSetup Context | CallContainerInit Context
  | CallRouter Context | CallRequest Context

text \<open>\<open>extract\<close>: a value that is not there would be a slice with index -1.\<close>

definition extract_arg :: "string list \<Rightarrow> string \<Rightarrow> string list option" where
  "extract_arg args v = map_option (remove_at args) (slices_Index args v)"

definition hostOnly :: "string list" where
  "hostOnly = [''listen'', ''setup'', ''start'', ''stop'', ''restart'', ''run'']"

definition containerOnly :: "string list" where
  "containerOnly = [''container'']"

definition container_call :: "env \<Rightarrow> string list \<Rightarrow> (string + call) option" where
  "container_call e args =
     (case args of
        [] \<Rightarrow> Some (Inl ''missing command for container'')
      | subcommand # _ \<Rightarrow>
          do {
            args \<leftarrow> extract_arg args subcommand;
            Some (if subcommand = ''setup'' then Inr (CallContainerSetup (NewContext e args))
              else if subcommand = ''init'' then Inr (CallContainerInit (NewContext e args))
              else if subcommand = ''router'' then Inr (CallRouter (NewContext e args))
              else if subcommand = ''request'' then Inr (CallRequest (NewContext e args))
              else Inl (''unknown container command: '' @ subcommand))
          })"

text \<open>\<open>containerEnv\<close> says whether \<open>LXG_CONTAINER\<close> is \<open>1\<close>.\<close>

definition handle :: "bool \<Rightarrow> env \<Rightarrow> string list \<Rightarrow> (string + call) option" where
  "handle containerEnv e args =
     (case args of
        [] \<Rightarrow> None
      | name # _ \<Rightarrow>
          do {
            args \<leftarrow> extract_arg args name;
            let insideContainer = containerEnv \<or> ''--from-host'' \<in> set args;
            if insideContainer \<and> name \<in> set hostOnly then Some (Inl ''method can be run only on host'')
            else if \<not> insideContainer \<and> name \<in> set containerOnly then Some (Inl ''method can be run only on container'')
            else if name \<in> {''help'', ''--help'', ''-h''} then Some (Inr (CallPrint (NewContext e args)))
            else if name = ''listen'' then Some (Inr (CallListen (NewContext e args)))
            else if name = ''setup'' then Some (Inr (CallSetup (WithContainer (NewContext e args))))
            else if name = ''start'' then Some (Inr (CallStart (WithContainer (NewContext e args))))
            else if name = ''stop'' then Some (Inr (CallStop (WithContainer (NewContext e args))))
            else if name = ''restart'' then Some (Inr (CallRestart (WithContainer (NewContext e args))))
            else if name = ''run'' then Some (Inr (CallRun (WithContainer (NewContext e args))))
            else if name = ''container'' then container_call e args
            else Some (Inl (''unknown command: '' @ name))
          })"

section \<open>The set-up of a container\<close>

text \<open>\<open>EnsureUID\<close> only reports; \<open>users\<close> is the user database, by id.\<close>

definition EnsureUID :: "nat \<Rightarrow> (string \<Rightarrow> string option) \<Rightarrow> string list" where
  "EnsureUID uid users =
     (let requiredUID = show_nat (max uid 1000)
      in case users requiredUID of
           Some name \<Rightarrow> [''Found existing user for UID '' @ requiredUID @ '': '' @ name]
         | None \<Rightarrow> [''WARNING!'', ''Container has no user with UID '' @ requiredUID @ ''.'',
             ''Make sure to create a new user with matching UID.'', ''If applicable, add the user to sudoers too!''])"

definition init_script :: string where
  "init_script = ''/etc/profile.d/99-lxg.sh''"

definition InstallInitScript :: "(string \<Rightarrow> string + string) \<Rightarrow> 'a fs_scheme \<Rightarrow> 'a fs_scheme \<times> string option" where
  "InstallInitScript scripts f =
     (case scripts ''scripts/init.sh'' of
        Inl err \<Rightarrow> (f, Some (''install script read error: '' @ err))
      | Inr content \<Rightarrow>
          (case MkdirAll f (filepath_Dir init_script) of
             (f, Some e) \<Rightarrow> (f, Some (''install script mkdir error: '' @ errno_text e))
           | (f, None) \<Rightarrow>
               (case WriteFile f init_script content of
                  (f, Some e) \<Rightarrow> (f, Some (''install script write error: '' @ errno_text e))
                | (f, None) \<Rightarrow> (f, None))))"

text \<open>The lines printed, and the error.\<close>

definition container_Setup ::
  "nat \<Rightarrow> (string \<Rightarrow> string option) \<Rightarrow> (string \<Rightarrow> string + string) \<Rightarrow> 'a fs_scheme
     \<Rightarrow> 'a fs_scheme \<times> string list \<times> string option" where
  "container_Setup uid users scripts f =
     (let printed = [''Checking user requirement...''] @ EnsureUID uid users @ [''Installing helper scripts...'']
      in case InstallInitScript scripts f of
           (f, Some err) \<Rightarrow> (f, printed, Some (''setup error: '' @ err))
         | (f, None) \<Rightarrow> (f, printed @ [''Container has been configured.''], None))"

section \<open>help/help.go\<close>

definition help_Print :: "(string \<Rightarrow> string + string) \<Rightarrow> string list \<times> string option" where
  "help_Print helpFS = (case helpFS ''help.man'' of Inl err \<Rightarrow> ([], Some err) | Inr content \<Rightarrow> ([content], None))"

section \<open>The calls, and main\<close>

text \<open>
  What the program finds outside of itself. \<open>daemon\<close> is how a run of \<open>Init\<close> on the host goes: what
  has happened to the world, and the state of \<open>init_step\<close> it has come to.
\<close>

record ('a, 'c) outside =
  helpFS :: "string \<Rightarrow> string + string"
  servicesFS :: "string \<Rightarrow> string + string"
  profileSpecFS :: "string \<Rightarrow> string + string"
  scriptsFS :: "string \<Rightarrow> string + string"
  userDB :: "string \<Rightarrow> string option"
  realUID :: nat
  ownPid :: nat
  ownExe :: "string option"
  mapOrder :: "(string \<times> string) list \<Rightarrow> (string \<times> string) list"
  spawn :: "process \<Rightarrow> string option"
  routerPolls :: "'a poll list"
  routerClients :: "'c accept list"
  dialHost :: "string \<Rightarrow> string + link"
  daemon :: "Context \<Rightarrow> ('a sys_scheme) host \<Rightarrow> ('a sys_scheme) host \<times> init_state"

text \<open>How a call ends: with an error or none, by leaving the program, or it is still serving.\<close>

datatype call_end = Finishes "string option" | Leaves int | Serves

fun error_message :: "service_error \<Rightarrow> string" where
  "error_message Canceled = ''context canceled''"
| "error_message (Failure err) = err"

fun request_end :: "client_end \<Rightarrow> call_end" where
  "request_end (Returned err) = Finishes (Some err)"
| "request_end (Exited code) = Leaves code"

text \<open>A call of the program: the host after it, the lines printed, how it ended.\<close>

definition perform ::
  "('a, 'c) outside \<Rightarrow> ('a sys_scheme) runner \<Rightarrow> ('a sys_scheme) host \<Rightarrow> call
     \<Rightarrow> (('a sys_scheme) host \<times> string list \<times> call_end) option" where
  "perform out run h c =
     (case c of
        CallPrint ctx \<Rightarrow> (let (printed, err) = help_Print (helpFS out) in Some (h, printed, Finishes err))
      | CallListen ctx \<Rightarrow>
          (let (h, s) = daemon out ctx h
           in Some (h, [], if returned s then Finishes (map_option error_message (firstErr s)) else Serves))
      | CallSetup ctx \<Rightarrow>
          do { (h, err) \<leftarrow> host_Setup (servicesFS out) (profileSpecFS out) run h ctx; Some (h, [], Finishes err) }
      | CallStart ctx \<Rightarrow> do { (h, err) \<leftarrow> StartContainer run h ctx; Some (h, [], Finishes err) }
      | CallStop ctx \<Rightarrow> do { (h, err) \<leftarrow> StopContainer run h ctx; Some (h, [], Finishes err) }
      | CallRestart ctx \<Rightarrow> do { (h, err) \<leftarrow> RestartContainer run h ctx; Some (h, [], Finishes err) }
      | CallRun ctx \<Rightarrow> do { (h, err) \<leftarrow> RunCommand run h ctx; Some (h, [], Finishes err) }
      | CallContainerSetup ctx \<Rightarrow>
          (let (f, printed, err) = container_Setup (realUID out) (userDB out) (scriptsFS out) (world h)
           in Some (h\<lparr>world := f\<rparr>, printed, Finishes err))
      | CallContainerInit ctx \<Rightarrow>
          (case container_Init (mapOrder out) (realUID out) (ownExe out) (spawn out) (routerPolls out) (world h) ctx of
             (f, Inl err) \<Rightarrow> Some (h\<lparr>world := f\<rparr>, [], Finishes (Some err))
           | (f, Inr printed) \<Rightarrow> Some (h\<lparr>world := f\<rparr>, printed, Finishes None))
      | CallRouter ctx \<Rightarrow>
          (let (f, handled, end) = StartRouter (ownPid out) (world h) ctx (routerClients out)
           in Some (h\<lparr>world := f\<rparr>, [], case end of None \<Rightarrow> Serves | Some err \<Rightarrow> Finishes err))
      | CallRequest ctx \<Rightarrow> do { e \<leftarrow> BridgeRequest (world h) (dialHost out) ctx; Some (h, [], request_end e) })"

text \<open>
  \<open>main\<close>, on the arguments after the program's name: the lines printed, and the exit code (\<open>None\<close>
  while a daemon is serving). The help that is printed without arguments ignores its error.
\<close>

fun exit_code :: "call_end \<Rightarrow> int option" where
  "exit_code (Finishes None) = Some 0"
| "exit_code (Finishes (Some _)) = Some 1"
| "exit_code (Leaves code) = Some code"
| "exit_code Serves = None"

definition main_lxg ::
  "('a, 'c) outside \<Rightarrow> ('a sys_scheme) runner \<Rightarrow> bool \<Rightarrow> env \<Rightarrow> ('a sys_scheme) host \<Rightarrow> string list
     \<Rightarrow> (('a sys_scheme) host \<times> string list \<times> int option) option" where
  "main_lxg out run containerEnv e h args =
     (if args = [] then Some (h, fst (help_Print (helpFS out)), Some 2)
      else do {
        r \<leftarrow> handle containerEnv e args;
        (h, printed, end) \<leftarrow> (case r of Inl err \<Rightarrow> Some (h, [], Finishes (Some err)) | Inr c \<Rightarrow> perform out run h c);
        Some (h, printed, exit_code end)
      })"

section \<open>The arguments\<close>

lemma extract_head [simp]: "extract_arg (name # args) name = Some args"
  by (simp add: extract_arg_def remove_at_def)

text \<open>What is left of the arguments: the first occurrence of each profile flag is taken out.\<close>

definition strip_profiles :: "string list \<Rightarrow> string list" where
  "strip_profiles args = remove1 ''--integrated'' (remove1 ''--isolated'' (remove1 ''--privileged'' args))"

lemma NewContext_fields:
  "Args (NewContext e args) = strip_profiles args" "UID (NewContext e args) = env_uid e"
  by (simp_all add: NewContext_def profileFlags_def strip_profiles_def profile_loop_cons split_beta
      del: profile_loop.simps(2) cong: if_cong)

lemma strip_profiles_Cons:
  assumes "\<not> is_flag c"
  shows "strip_profiles (c # args) = c # strip_profiles args"
proof -
  have "is_flag ''--integrated''" "is_flag ''--isolated''" "is_flag ''--privileged''"
    by (simp_all add: is_flag_def HasPrefix_def)
  with assms have "''--integrated'' \<noteq> c" "''--isolated'' \<noteq> c" "''--privileged'' \<noteq> c" by metis+
  then show ?thesis by (simp only: strip_profiles_def remove1.simps if_False)
qed

lemma WithContainer_NewContext:
  assumes "\<not> is_flag c"
  shows "Container (WithContainer (NewContext e (c # args))) = c"
    and "Args (WithContainer (NewContext e (c # args))) = strip_profiles args"
    and "UID (WithContainer (NewContext e (c # args))) = env_uid e"
proof -
  have "container_loop (c # strip_profiles args) (c # strip_profiles args) = (c, strip_profiles args)"
    using container_loop_find [of "[]" c "strip_profiles args"] assms by simp
  then show "Container (WithContainer (NewContext e (c # args))) = c"
    "Args (WithContainer (NewContext e (c # args))) = strip_profiles args"
    "UID (WithContainer (NewContext e (c # args))) = env_uid e"
    by (simp_all add: WithContainer_def NewContext_fields strip_profiles_Cons [OF assms])
qed

section \<open>Dispatch\<close>

definition inside :: "bool \<Rightarrow> string list \<Rightarrow> bool" where
  "inside containerEnv args \<longleftrightarrow> containerEnv \<or> ''--from-host'' \<in> set args"

text \<open>The functions of the host and those of a container.\<close>

fun host_call :: "call \<Rightarrow> bool" where
  "host_call (CallListen _) = True"
| "host_call (CallSetup _) = True"
| "host_call (CallStart _) = True"
| "host_call (CallStop _) = True"
| "host_call (CallRestart _) = True"
| "host_call (CallRun _) = True"
| "host_call _ = False"

fun container_side :: "call \<Rightarrow> bool" where
  "container_side (CallContainerSetup _) = True"
| "container_side (CallContainerInit _) = True"
| "container_side (CallRouter _) = True"
| "container_side (CallRequest _) = True"
| "container_side _ = False"

lemma container_call_cases:
  "container_call e args = Some r \<Longrightarrow> (\<exists>err. r = Inl err) \<or> (\<exists>c. r = Inr c \<and> container_side c)"
  by (auto simp: container_call_def split: list.splits if_splits)

lemma container_call_total: "container_call e args \<noteq> None"
  by (cases args) (simp_all add: container_call_def)

text \<open>
  Arguments never make \<open>handle\<close> panic, a function of the host is called on the host only, and one
  of a container in a container only.
\<close>

lemma handle_inside:
  assumes "inside containerEnv args" and "handle containerEnv e (name # args) = Some (Inr c)"
  shows "\<not> host_call c"
proof (cases "name \<in> set hostOnly")
  case True
  with assms show ?thesis by (simp add: handle_def inside_def)
next
  case False
  then have "name \<noteq> ''listen''" "name \<noteq> ''setup''" "name \<noteq> ''start''" "name \<noteq> ''stop''" "name \<noteq> ''restart''" "name \<noteq> ''run''"
    unfolding hostOnly_def by auto
  then have r: "handle containerEnv e (name # args) =
      (if name \<in> {''help'', ''--help'', ''-h''} then Some (Inr (CallPrint (NewContext e args)))
       else if name = ''container'' then container_call e args else Some (Inl (''unknown command: '' @ name)))"
    using assms(1) False by (simp only: handle_def inside_def list.case extract_head bind.bind_lunit Let_def if_True if_False simp_thms)
  show ?thesis
  proof (cases "name \<in> {''help'', ''--help'', ''-h''}")
    case True
    with assms(2) r show ?thesis by auto
  next
    case False
    with assms(2) r have "container_call e args = Some (Inr c)" by (auto split: if_splits)
    from container_call_cases [OF this] show ?thesis by (cases c) auto
  qed
qed

lemma handle_outside:
  assumes "\<not> inside containerEnv args" and "handle containerEnv e (name # args) = Some (Inr c)"
  shows "\<not> container_side c"
proof (cases "name = ''container''")
  case True
  with assms show ?thesis by (simp add: handle_def inside_def containerOnly_def hostOnly_def)
next
  case False
  with assms(2) show ?thesis
    unfolding handle_def list.case extract_head bind.bind_lunit Let_def
    by (simp only: False if_False split: if_splits) auto
qed

lemma handle_total: "handle containerEnv e (name # args) \<noteq> None"
  using container_call_total by (simp add: handle_def Let_def)

lemma handle_run:
  assumes "\<not> inside containerEnv args"
  shows "handle containerEnv e (''run'' # args) = Some (Inr (CallRun (WithContainer (NewContext e args))))"
  using assms by (simp add: handle_def inside_def containerOnly_def)

text \<open>Inside a container no process of the host is run, whatever the arguments are.\<close>

lemma perform_container_side:
  assumes "perform out run h c = Some (h', printed, end)" and "container_side c \<or> (\<exists>ctx. c = CallPrint ctx)"
  shows "runs h' = runs h"
  using assms by (cases c) (auto simp: perform_def split: prod.splits sum.splits Option.bind_splits)

lemma handle_kinds:
  assumes "handle containerEnv e args = Some (Inr c)"
  shows "host_call c \<or> container_side c \<or> (\<exists>ctx. c = CallPrint ctx)"
  by (cases c) simp_all

lemma main_inside_runs:
  assumes "containerEnv" and "main_lxg out run containerEnv e h args = Some (h', printed, code)"
  shows "runs h' = runs h"
proof (cases args)
  case (Cons name rest)
  from assms(2) Cons obtain r where r: "handle containerEnv e (name # rest) = Some r"
    by (auto simp: main_lxg_def split: Option.bind_splits)
  show ?thesis
  proof (cases r)
    case (Inl err)
    with assms(2) r Cons show ?thesis by (simp add: main_lxg_def)
  next
    case (Inr c)
    have "\<not> host_call c" using handle_inside [of containerEnv rest e name c] r Inr assms(1) by (simp add: inside_def)
    with handle_kinds r Inr have "container_side c \<or> (\<exists>ctx. c = CallPrint ctx)" by blast
    with assms(2) r Inr Cons perform_container_side show ?thesis
      by (fastforce simp: main_lxg_def split: Option.bind_splits)
  qed
qed (use assms(2) in \<open>simp add: main_lxg_def\<close>)

end
