(* ===== verification/Program_Properties.thy ===== *)
theory Program_Properties
  imports Container_Start Container_Router Host_Setup Host_Daemon Main_Dispatch Container_Client Host_Init
begin

text \<open>
  The properties of the command line, the host and the container (C15 and C28 to C39), with the concrete
  programs, file systems and connections their witnesses use.
\<close>

section \<open>Concrete worlds\<close>

definition ex_ctx :: Context where
  "ex_ctx = \<lparr>Container = ''web'', Profile = ''integrated'', UID = ''1000'', User = ''u'', Home = ''/home/u'', Args = []\<rparr>"

text \<open>A container that takes some starts until it runs: 0 is running, 3 is stopped.\<close>

definition ex_lxd :: "nat runner" where
  "ex_lxd w p =
     (if p = lxc [''info'', ''web''] then
        (w, Ran 1 (if w = 0 then ''Status: Running'' else if w = 3 then ''Status: Stopped'' else ''Status: Starting'') [] ExitedOk)
      else if p = lxc [''start'', ''web''] then (w - 1, Ran 2 [] [] ExitedOk)
      else if p = lxc [''stop'', ''web''] then (3, Ran 3 [] [] ExitedOk)
      else (w, StartFails ''no such program''))"

lemma ex_lxd_status:
  "status_of ''web'' (Ran 1 ''Status: Running'' [] ExitedOk) = Inr ''RUNNING''"
  "status_of ''web'' (Ran 1 ''Status: Stopped'' [] ExitedOk) = Inr ''STOPPED''"
  "status_of ''web'' (Ran 1 ''Status: Starting'' [] ExitedOk) = Inr ''STARTING''"
  by code_simp+

lemma ex_lxd_info:
  "ex_lxd w (lxc [''info'', ''web'']) =
     (w, Ran 1 (if w = 0 then ''Status: Running'' else if w = 3 then ''Status: Stopped'' else ''Status: Starting'') [] ExitedOk)"
  "ex_lxd w (lxc [''start'', ''web'']) = (w - 1, Ran 2 [] [] ExitedOk)"
  "ex_lxd w (lxc [''stop'', ''web'']) = (3, Ran 3 [] [] ExitedOk)"
  by (simp_all add: ex_lxd_def lxc_def)

lemma ex_lxd_ranks:
  "power_rank ''stop'' ''STOPPED'' ex_lxd ''web'' (\<lambda>w. if w = 3 then 0 else 1)"
  "power_rank ''start'' ''RUNNING'' ex_lxd ''web'' (\<lambda>w. w)"
  by (auto simp: power_rank_def ex_lxd_info ex_lxd_status split: if_splits)

lemma ex_lxd_works: "power_works ''stop'' ex_lxd ''web''" "power_works ''start'' ex_lxd ''web''"
  by (simp_all add: power_works_def ex_lxd_info ex_lxd_status succeeded_def)

section \<open>Containers\<close>

text \<open>
  C29. \<open>RestartContainer\<close> returns. The loops of \<open>StopContainer\<close> and \<open>StartContainer\<close> have no bound;
  they end for every \<open>lxc\<close> for which there is a rank of its state, for either verb, that a status
  poll does not raise, that a successful verb lowers or brings to 0, and that is 0 only where a
  status that is reported is the wanted one. If no call fails, there is no error.
\<close>

theorem RestartContainer_returns:
  assumes "power_rank ''stop'' ''STOPPED'' run (Container ctx) stop_rank"
    and "power_rank ''start'' ''RUNNING'' run (Container ctx) start_rank"
  shows "\<exists>h' err. RestartContainer run h ctx = Some (h', err) \<and>
    (power_works ''stop'' run (Container ctx) \<and> power_works ''start'' run (Container ctx) \<longrightarrow> err = None)"
proof -
  obtain h1 err1 where 1: "StopContainer run h ctx = Some (h1, err1)" "power_works ''stop'' run (Container ctx) \<longrightarrow> err1 = None"
    using power_loop_returns [OF assms(1)] unfolding StopContainer_def by blast
  obtain h2 err2 where 2: "StartContainer run h1 ctx = Some (h2, err2)" "power_works ''start'' run (Container ctx) \<longrightarrow> err2 = None"
    using power_loop_returns [OF assms(2)] unfolding StartContainer_def by blast
  from RestartContainer_cases [OF 1(1) 2(1)] 1(2) 2(2) show ?thesis by (cases err1) auto
qed

theorem RestartContainer_returns_witness:
  "\<exists>h'. RestartContainer ex_lxd \<lparr>runs = [], world = 0\<rparr> ex_ctx = Some (h', None)"
  using RestartContainer_returns [of ex_lxd ex_ctx "\<lambda>w. if w = 3 then 0 else 1" "\<lambda>w. w" "\<lparr>runs = [], world = 0\<rparr>"]
    ex_lxd_ranks ex_lxd_works by (auto simp: ex_ctx_def)

text \<open>
  C30. What a successful \<open>RestartContainer\<close> has run, and in which order: rounds of a poll and a
  \<open>stop\<close>, a poll that reported \<open>STOPPED\<close>, rounds of a poll and a \<open>start\<close>, a poll that reported
  \<open>RUNNING\<close>. Nothing else is run, no \<open>start\<close> before the container has been seen to be stopped,
  and the state left is the one the last poll saw.
\<close>

theorem RestartContainer_order:
  assumes "RestartContainer run h ctx = Some (h', None)"
  defines "poll \<equiv> lxc [''info'', Container ctx]"
  shows "\<exists>n k w1 w1' oc1 w2 oc2.
    runs h' = runs h @ concat (replicate n [poll, lxc [''stop'', Container ctx]]) @ [poll] @
      concat (replicate k [poll, lxc [''start'', Container ctx]]) @ [poll] \<and>
    run w1 poll = (w1', oc1) \<and> status_of (Container ctx) oc1 = Inr ''STOPPED'' \<and>
    run w2 poll = (world h', oc2) \<and> status_of (Container ctx) oc2 = Inr ''RUNNING''"
proof -
  obtain h1 where stop: "StopContainer run h ctx = Some (h1, None)" and start: "StartContainer run h1 ctx = Some (h', None)"
    using RestartContainer_done [OF assms(1)] .
  from power_loop_done [OF stop [unfolded StopContainer_def]] power_loop_done [OF start [unfolded StartContainer_def]]
  show ?thesis unfolding poll_def by fastforce
qed

theorem RestartContainer_order_witness:
  "\<exists>h' n k. RestartContainer ex_lxd \<lparr>runs = [], world = 0\<rparr> ex_ctx = Some (h', None) \<and>
    runs h' = concat (replicate n [lxc [''info'', ''web''], lxc [''stop'', ''web'']]) @ [lxc [''info'', ''web'']] @
      concat (replicate k [lxc [''info'', ''web''], lxc [''start'', ''web'']]) @ [lxc [''info'', ''web'']]"
proof -
  have web: "Container ex_ctx = ''web''" by (simp add: ex_ctx_def)
  obtain h1 where 1: "StopContainer ex_lxd \<lparr>runs = [], world = 0\<rparr> ex_ctx = Some (h1, None)"
    using power_loop_returns [of _ _ ex_lxd ex_ctx, unfolded web, OF ex_lxd_ranks(1)] ex_lxd_works unfolding StopContainer_def by blast
  obtain h2 where 2: "StartContainer ex_lxd h1 ex_ctx = Some (h2, None)"
    using power_loop_returns [of _ _ ex_lxd ex_ctx, unfolded web, OF ex_lxd_ranks(2)] ex_lxd_works unfolding StartContainer_def by blast
  have "RestartContainer ex_lxd \<lparr>runs = [], world = 0\<rparr> ex_ctx = Some (h2, None)"
    using RestartContainer_cases [OF 1 2] by simp
  with RestartContainer_order [OF this] show ?thesis by (auto simp: web)
qed

section \<open>The command line\<close>

definition ex_env :: env where
  "ex_env = \<lparr>env_uid = ''1000'', env_user = ''u'', env_home = ''/home/u''\<rparr>"

text \<open>A container that always runs, in a world that no process changes.\<close>

definition ex_lxc :: "'w runner" where
  "ex_lxc w p =
     (w, Ran 1 (if take 1 (pargs p) = [''info''] then ''Status: Running'' else []) [] ExitedOk)"

definition ex_root :: fs where
  "ex_root = \<lparr>nodes = [], modes = [], mounts = [], faults = (\<lambda>op cs. None)\<rparr>"

definition ex_world :: sys where
  "ex_world = fs.extend ex_root \<lparr>pids = [], started = []\<rparr>"

definition ex_outside :: "(unit, unit) outside" where
  "ex_outside =
     \<lparr>helpFS = Inr, servicesFS = Inr, profileSpecFS = Inr, scriptsFS = Inr, userDB = (\<lambda>uid. None), realUID = 1000, ownPid = 7,
      ownExe = None, mapOrder = rev, spawn = (\<lambda>p. None), routerPolls = [], routerClients = [],
      dialHost = (\<lambda>p. Inl ''refused''), daemon = (\<lambda>ctx h. (h, Init_start))\<rparr>"

text \<open>
  C31. \<open>lxg run CONTAINER COMMAND...\<close>, from the command line to the processes. On the host, with
  a container name that is not a flag, the program polls the container, and starts it after every
  poll that did not report \<open>RUNNING\<close>; after the first poll that did, and not otherwise, it runs
  the command in the container as the user's id, once, and the exit code is 0 exactly if the
  command ended with success. The command is passed on as it was given, but for the first
  occurrence of each profile flag. If a poll or a start fails instead, the command is not run, and
  the exit code is 1.
\<close>

theorem lxg_run_command:
  assumes "\<not> containerEnv" and "''--from-host'' \<notin> set (c # cmd)" and "\<not> is_flag c"
    and "main_lxg out run containerEnv e h (''run'' # c # cmd) = Some (h', printed, code)"
  defines "exec \<equiv> lxc ([''exec'', c, ''--'', ''sudo'', ''-i'', ''-u'', ''#'' @ env_uid e] @ strip_profiles cmd)"
  shows "goes (then_run (powered run c ''start'' ''RUNNING'') (one_run run exec (\<lambda>oc. clean oc \<longleftrightarrow> code = Some 0))) h h' \<and>
      code \<in> {Some 0, Some 1} \<or>
    code = Some 1 \<and> goes (power_fails run c ''start'' ''RUNNING'') h h'"
proof -
  let ?ctx = "WithContainer (NewContext e (c # cmd))"
  note ctx = WithContainer_NewContext [OF assms(3), of e cmd]
  have ex: "exec = exec_command ?ctx" by (simp add: exec_def exec_command_def ctx)
  have "\<not> inside containerEnv (c # cmd)" using assms(1,2) by (simp add: inside_def)
  from handle_run [OF this] assms(4) obtain err where
    r: "RunCommand run h ?ctx = Some (h', err)" "code = Some (if err = None then 0 else 1)"
    by (cases code) (auto simp: main_lxg_def perform_def elim!: exit_code.elims split: Option.bind_splits)
  have "code = Some 0 \<longleftrightarrow> err = None" by (simp add: r(2))
  with RunCommand_goes [OF r(1)] r(2) show ?thesis unfolding ex ctx(1) by auto
qed

text \<open>A container that runs is not started.\<close>

lemma ex_lxc_polled:
  "power_run ex_lxc ''web'' verb ''RUNNING'' w ps w' ok \<Longrightarrow> ps = [lxc [''info'', ''web'']] \<and> ok"
  by (erule power_run.cases) (auto simp: ex_lxc_def lxc_def ex_lxd_status)

theorem lxg_run_command_witness:
  "\<exists>h'. main_lxg ex_outside ex_lxc False ex_env \<lparr>runs = [], world = ex_world\<rparr>
      [''run'', ''web'', ''ls'', ''--isolated'', ''-l''] = Some (h', [], Some 0) \<and>
    runs h' = [lxc [''info'', ''web''], lxc [''exec'', ''web'', ''--'', ''sudo'', ''-i'', ''-u'', ''#1000'', ''ls'', ''-l'']]"
proof -
  let ?cmd = "[''ls'', ''--isolated'', ''-l'']" and ?h = "\<lparr>runs = [], world = ex_world\<rparr>"
  let ?ctx = "WithContainer (NewContext ex_env (''web'' # ?cmd))"
  have web: "\<not> is_flag ''web''" by (simp add: is_flag_def HasPrefix_def)
  have strip: "strip_profiles ?cmd = [''ls'', ''-l'']" by (simp add: strip_profiles_def)
  have "power_rank ''start'' ''RUNNING'' ex_lxc (Container ?ctx) (\<lambda>w. 0)"
    by (auto simp: power_rank_def ex_lxc_def lxc_def WithContainer_NewContext(1) [OF web] ex_lxd_status)
  from power_loop_returns [OF this] obtain h1 err1 where "StartContainer ex_lxc ?h ?ctx = Some (h1, err1)"
    unfolding StartContainer_def by blast
  then have "RunCommand ex_lxc ?h ?ctx \<noteq> None" by (cases err1) (simp_all add: RunCommand_cases)
  then obtain h' err where "RunCommand ex_lxc ?h ?ctx = Some (h', err)" by (metis not_None_eq surj_pair)
  moreover have ins: "\<not> inside False (''web'' # ?cmd)" by (simp add: inside_def)
  ultimately have run: "main_lxg ex_outside ex_lxc False ex_env ?h (''run'' # ''web'' # ?cmd) =
      Some (h', [], Some (if err = None then 0 else 1))"
    using handle_run [OF ins] by (cases err) (simp_all add: main_lxg_def perform_def)
  let ?exec = "lxc [''exec'', ''web'', ''--'', ''sudo'', ''-i'', ''-u'', ''#1000'', ''ls'', ''-l'']"
  have "''--from-host'' \<notin> set (''web'' # ?cmd)" by simp
  from lxg_run_command [OF _ this web run] have
    "goes (then_run (powered ex_lxc ''web'' ''start'' ''RUNNING'') (one_run ex_lxc ?exec (\<lambda>oc. clean oc \<longleftrightarrow> err = None))) ?h h' \<or>
     goes (power_fails ex_lxc ''web'' ''start'' ''RUNNING'') ?h h'"
    unfolding strip by (auto simp: ex_env_def split: if_splits)
  then have "runs h' = [lxc [''info'', ''web''], ?exec] \<and> err = None"
    by (auto simp: goes_def then_run_def one_run_def powered_def power_fails_def clean_def dest!: ex_lxc_polled) (simp add: ex_lxc_def lxc_def)
  with run show ?thesis by simp
qed

text \<open>
  C32. The dispatch of the command line. With at least one argument \<open>handle\<close> never panics, whatever
  the arguments are; it calls a function of the host only outside of containers, and a function
  of the container only inside. So the program, started in a container, runs no process of the
  host, whatever its arguments and whatever it finds there.
\<close>

theorem handle_keeps_sides:
  "(\<exists>r. handle containerEnv e (name # args) = Some r \<and>
     (\<forall>c. r = Inr c \<longrightarrow>
        (host_call c \<longrightarrow> \<not> (containerEnv \<or> ''--from-host'' \<in> set args)) \<and>
        (container_side c \<longrightarrow> containerEnv \<or> ''--from-host'' \<in> set args))) \<and>
   (\<forall>out run h h' printed code. main_lxg out run True e h (name # args) = Some (h', printed, code) \<longrightarrow> runs h' = runs h)"
proof (intro conjI allI impI)
  obtain r where r: "handle containerEnv e (name # args) = Some r"
    using handle_total [of containerEnv e name args] by blast
  have "\<not> inside containerEnv args" if "r = Inr c" "host_call c" for c
    using handle_inside [of containerEnv args e name c] r that by blast
  moreover have "inside containerEnv args" if "r = Inr c" "container_side c" for c
    using handle_outside [of containerEnv args e name c] r that by blast
  ultimately show "\<exists>r. handle containerEnv e (name # args) = Some r \<and>
     (\<forall>c. r = Inr c \<longrightarrow>
        (host_call c \<longrightarrow> \<not> (containerEnv \<or> ''--from-host'' \<in> set args)) \<and>
        (container_side c \<longrightarrow> containerEnv \<or> ''--from-host'' \<in> set args))"
    using r unfolding inside_def by blast
qed (erule main_inside_runs [OF TrueI])

theorem handle_keeps_sides_witness:
  "(\<exists>c. handle True ex_env [''container'', ''init''] = Some (Inr c) \<and> container_side c \<and> \<not> host_call c) \<and>
   (\<exists>h' printed code. main_lxg ex_outside ex_lxc True ex_env \<lparr>runs = [], world = ex_world\<rparr> [''container'', ''setup''] =
      Some (h', printed, code) \<and> runs h' = [])"
proof
  have "handle True ex_env [''container'', ''init''] = Some (Inr (CallContainerInit (NewContext ex_env [])))"
    by (simp add: handle_def container_call_def hostOnly_def)
  with handle_keeps_sides [of True ex_env "''container''" "[''init'']"]
  show "\<exists>c. handle True ex_env [''container'', ''init''] = Some (Inr c) \<and> container_side c \<and> \<not> host_call c" by auto
  have "handle True ex_env [''container'', ''setup''] = Some (Inr (CallContainerSetup (NewContext ex_env [])))"
    by (simp add: handle_def container_call_def hostOnly_def)
  then have "\<exists>h' printed code. main_lxg ex_outside ex_lxc True ex_env \<lparr>runs = [], world = ex_world\<rparr> [''container'', ''setup''] =
      Some (h', printed, code)"
    by (simp add: main_lxg_def perform_def split_beta)
  with handle_keeps_sides [of True ex_env "''container''" "[''setup'']"]
  show "\<exists>h' printed code. main_lxg ex_outside ex_lxc True ex_env \<lparr>runs = [], world = ex_world\<rparr> [''container'', ''setup''] =
      Some (h', printed, code) \<and> runs h' = []" by fastforce
qed

section \<open>The bridge\<close>

text \<open>
  C33. A worker of the bridge runs a command for the peer with the user's own id only, exactly the
  command of its request, once; it answers at most once, and exactly once on a connection that
  can be written to. It panics exactly when an authorised peer sends \<open>null\<close>, since \<open>Decode\<close> then
  sets the pointer to the request to nil.
\<close>

theorem bridge_worker:
  "case serve_conn run h ctx c of
     None \<Rightarrow> auth_error ctx c = None \<and> deadlineErr c = None \<and> document c = Inr JNull
   | Some (h', c') \<Rightarrow>
       \<not> (auth_error ctx c = None \<and> deadlineErr c = None \<and> document c = Inr JNull) \<and>
       runs h' = runs h @ (case request_of ctx c of None \<Rightarrow> []
         | Some r \<Rightarrow> [\<lparr>prog = TrimSpace (Command r), pargs = rqArgs r, pstdin = None\<rparr>]) \<and>
       (request_of ctx c \<noteq> None \<longrightarrow> isUnix c \<and> (\<exists>uid. peer c = Inr uid \<and> show_nat uid = UID ctx)) \<and>
       (\<exists>rs. sent c' = sent c @ rs \<and> length rs \<le> 1 \<and> (list_all (\<lambda>w. w = None) (writes c) \<longrightarrow> length rs = 1))"
proof (cases "HandleRequest run h ctx c")
  case None
  then show ?thesis using HandleRequest_panics [of run h ctx c] by (simp add: serve_conn_def)
next
  case (Some res)
  then obtain h' c1 err where hr: "HandleRequest run h ctx c = Some (h', c1, err)" by (cases res) auto
  then obtain c' where sv: "serve_conn run h ctx c = Some (h', c')" by (cases err) (simp_all add: serve_conn_def)
  have "request_of ctx c \<noteq> None \<longrightarrow> isUnix c \<and> (\<exists>uid. peer c = Inr uid \<and> show_nat uid = UID ctx)"
    by (simp add: request_of_def auth_error_None)
  with sv HandleRequest_runs [OF hr] serve_conn_once [OF sv] HandleRequest_panics [of run h ctx c] hr show ?thesis
    by simp
qed

definition ex_peer :: "nat \<Rightarrow> bridge_conn" where
  "ex_peer uid = \<lparr>isUnix = True, sysErr = None, controlErr = None, peer = Inr uid, deadlineErr = None,
     document = Inr (encode_request \<lparr>Command = ''xdg-open'', rqArgs = [''http://x''], Wait = True\<rparr>), writes = [], sent = []\<rparr>"

definition ex_run :: "int \<Rightarrow> unit runner" where
  "ex_run code w p = (w, Ran 7 [] [] (if code = 0 then ExitedOk else Failed code ''exit status''))"

theorem bridge_worker_witness:
  "\<exists>h' c' rs. serve_conn (ex_run 0) \<lparr>runs = [], world = ()\<rparr> ex_ctx (ex_peer 1001) = Some (h', c') \<and> runs h' = [] \<and>
     sent c' = rs \<and> length rs = 1"
proof -
  have neq: "show_nat 1001 \<noteq> ''1000''" by code_simp
  then have "auth_error ex_ctx (ex_peer 1001) \<noteq> None" by (simp add: auth_error_None ex_ctx_def ex_peer_def)
  then have "request_of ex_ctx (ex_peer 1001) = None" "serve_conn (ex_run 0) \<lparr>runs = [], world = ()\<rparr> ex_ctx (ex_peer 1001) \<noteq> None"
    using HandleRequest_panics [of "ex_run 0" "\<lparr>runs = [], world = ()\<rparr>" ex_ctx "ex_peer 1001"]
    by (auto simp: request_of_def serve_conn_def split: option.splits)
  with bridge_worker [where run = "ex_run 0" and h = "\<lparr>runs = [], world = ()\<rparr>" and ctx = ex_ctx and c = "ex_peer 1001"] show ?thesis
    by (auto simp: ex_peer_def)
qed

text \<open>
  C34. A request over the bridge, and why none is ever made. The protocol: the command of the
  client's arguments, its first one that is not a flag, with the others but for one \<open>--no-wait\<close>, is
  the request; whatever answers where the client dials is sent exactly that request. When an
  authorised connection brings it to the host, the host starts exactly one process, that command,
  and answers once, and from this answer the client ends as \<open>client_outcome\<close> says: with 0 if the
  command ended with 0 or was not waited for, and otherwise with an error, whatever the code was.
  But the path that the client dials is not the one the host listens on: in a container with the
  layout of \<open>SymLinkRun\<close>, where nothing else has put a file at that path, every request is refused
  before the arguments are read.
\<close>

theorem bridge_round_trip:
  assumes args: "Args ctx = fs @ cmd # rest" "list_all is_flag fs" "\<not> is_flag cmd" "TrimSpace cmd \<noteq> []"
    and utf8: "list_all valid_utf8 (Args ctx)"
  defines "r \<equiv> \<lparr>Command = cmd, rqArgs = remove1 ''--no-wait'' (fs @ rest), Wait = (''--no-wait'' \<notin> set (fs @ rest))\<rparr>"
    and "p \<equiv> \<lparr>prog = TrimSpace cmd, pargs = remove1 ''--no-wait'' (fs @ rest), pstdin = None\<rparr>"
  assumes conn: "auth_error host_ctx c = None" "deadlineErr c = None" "document c = Inr (encode_request r)" "writes c = []"
    and oc: "run (world h) p = (w, oc)" "outcome_ok r oc"
  shows "(\<exists>response.
      serve_conn run h host_ctx c = Some (\<lparr>runs = runs h @ [p], world = w\<rparr>, c\<lparr>sent := sent c @ [response]\<rparr>) \<and>
      bridge_reply (Inr (encode_response response)) = Some (client_outcome r oc)) \<and>
    (\<forall>f dial n send. Stat f (client_socket ctx) = Inr n \<and> dial (client_socket ctx) = Inr send \<longrightarrow>
      BridgeRequest f dial ctx = (case send (encode_request r) of
        Inl err \<Rightarrow> Some (Returned (''send request error: '' @ err)) | Inr received \<Rightarrow> bridge_reply received)) \<and>
    client_socket ctx \<noteq> bridge_socket ctx \<and>
    (\<forall>f dial. component_ok (UID ctx) \<and> container_layout (UID ctx) f \<and> quiet f \<and>
      lookup f (run_dir (UID ctx) @ [''lxg.bridge'']) = None \<longrightarrow>
      BridgeRequest f dial ctx = Some (Returned ''not callable on isolated containers''))"
proof (intro conjI allI impI)
  have "TrimSpace [] = []" by code_simp
  with args(4) have "cmd \<noteq> []" by metis
  then have req: "client_request (Args ctx) = Inr r" using client_request_split [OF args(2,3)] by (simp add: args(1) r_def)
  have r: "TrimSpace (Command r) \<noteq> []" "valid_utf8 (Command r)" "list_all valid_utf8 (rqArgs r)"
    using utf8 args set_remove1_subset [of "''--no-wait''" "fs @ rest"] by (auto simp: r_def list_all_iff)
  have p: "run_process run h (bridge_process r) = (\<lparr>runs = runs h @ [p], world = w\<rparr>, oc)"
    using oc(1) by (simp add: run_process_def bridge_process_def r_def p_def)
  from serve_conn_answer [OF conn(1-3) decode_client_request [OF r(2,3)] r(1) conn(4) p] bridge_reply_answer [OF oc(2)]
  show "\<exists>response. serve_conn run h host_ctx c = Some (\<lparr>runs = runs h @ [p], world = w\<rparr>, c\<lparr>sent := sent c @ [response]\<rparr>) \<and>
      bridge_reply (Inr (encode_response response)) = Some (client_outcome r oc)" by blast
  show "BridgeRequest f dial ctx = (case send (encode_request r) of
      Inl err \<Rightarrow> Some (Returned (''send request error: '' @ err)) | Inr received \<Rightarrow> bridge_reply received)"
    if "Stat f (client_socket ctx) = Inr n \<and> dial (client_socket ctx) = Inr send" for f :: "'f fs_scheme" and dial n send
    using that by (simp add: BridgeRequest_def req)
qed (auto simp: client_socket_elsewhere BridgeRequest_unreachable)

definition ex_request :: Request where
  "ex_request = \<lparr>Command = ''false'', rqArgs = [''x''], Wait = True\<rparr>"

definition ex_asking :: bridge_conn where
  "ex_asking = (ex_peer 1000)\<lparr>document := Inr (encode_request ex_request)\<rparr>"

theorem bridge_round_trip_witness:
  "\<exists>response. serve_conn (ex_run 3) \<lparr>runs = [], world = ()\<rparr> ex_ctx ex_asking =
      Some (\<lparr>runs = [\<lparr>prog = ''false'', pargs = [''x''], pstdin = None\<rparr>], world = ()\<rparr>, ex_asking\<lparr>sent := [response]\<rparr>) \<and>
    bridge_reply (Inr (encode_response response)) = Some (Returned ''response error: '')"
proof -
  let ?ctx = "ex_ctx\<lparr>Args := [''false'', ''x'']\<rparr>" and ?oc = "Ran 7 [] [] (Failed 3 ''exit status'')"
  have 1: "TrimSpace ''false'' = ''false''" "valid_utf8 ''false''" "valid_utf8 ''x''" "show_nat 1000 = ''1000''" by code_simp+
  have conn: "auth_error ex_ctx ex_asking = None" "deadlineErr ex_asking = None" "writes ex_asking = []" "sent ex_asking = []"
    "document ex_asking = Inr (encode_request ex_request)"
    by (simp_all add: auth_error_None ex_asking_def ex_peer_def ex_ctx_def 1)
  have flag: "\<not> is_flag ''false''" by (simp add: is_flag_def HasPrefix_def)
  have oc: "outcome_ok ex_request ?oc" "client_outcome ex_request ?oc = Returned ''response error: ''"
    by (simp_all add: outcome_ok_def client_outcome_def ex_request_def)
  have "Args ?ctx = [] @ ''false'' # [''x'']" "list_all is_flag []" "TrimSpace ''false'' \<noteq> []" "list_all valid_utf8 (Args ?ctx)"
    by (simp_all add: 1 del: valid_utf8.simps(2))
  note trip = bridge_round_trip [OF this(1,2) flag this(3,4), of ex_ctx ex_asking "ex_run 3" "\<lparr>runs = [], world = ()\<rparr>" "()" ?oc]
  have r: "\<lparr>Command = ''false'', rqArgs = remove1 ''--no-wait'' ([] @ [''x'']), Wait = (''--no-wait'' \<notin> set ([] @ [''x'']))\<rparr> = ex_request"
    by (simp add: ex_request_def)
  show ?thesis using conjunct1 [OF trip [unfolded r 1(1), OF conn(1,2,5,3) _ oc(1)]] by (simp add: ex_run_def oc(2) conn(4))
qed

section \<open>Setting up a container\<close>

text \<open>
  C15. \<open>lxg setup\<close>, exactly. It succeeds if and only if its processes can be run as \<open>setup_run\<close> says,
  and then it has run those and no others, in that order. The service is checked; exactly if it is
  not active, its file is written and it is enabled. The profile is shown; exactly if it is not
  there, it is created, with the user's id, name and home in the holes of its template. It is shown
  again; exactly if the container is not listed with it, it is added and the container stopped.
  The container is started until it is reported to be running, the set-up inside is run with
  success, and it is stopped and started again, each as often as the polls ask for. And \<open>lxg setup\<close>
  returns whenever the loops of its \<open>lxc\<close> do (the ranks of C29).
\<close>

theorem host_Setup_order:
  assumes "profiles (''profiles/'' @ Profile ctx @ ''.yml'') = Inr (render '':UID'' '':USER'' '':HOME'' template)"
    and "list_all segment_ok template" and "CHR '':'' \<notin> set (UID ctx)" and "CHR '':'' \<notin> set (User ctx)"
  shows "(host_Setup services profiles run h ctx = Some (h', None) \<longleftrightarrow>
      goes (setup_run services run ctx (render (UID ctx) (User ctx) (Home ctx) template)) h h') \<and>
    (power_rank ''stop'' ''STOPPED'' run (Container ctx) stop_rank \<and>
     power_rank ''start'' ''RUNNING'' run (Container ctx) start_rank \<longrightarrow>
      (\<exists>r. host_Setup services profiles run h ctx = Some r))"
proof (intro conjI impI)
  show "host_Setup services profiles run h ctx = Some (h', None) \<longleftrightarrow>
      goes (setup_run services run ctx (render (UID ctx) (User ctx) (Home ctx) template)) h h'"
    using host_Setup_goes [where profiles = profiles and ctx = ctx, OF assms(1)] by (simp add: profile_text_render [OF assms(2-4)])
qed (use host_Setup_returns [where profiles = profiles and ctx = ctx] in blast)

text \<open>A host without the profile: \<open>stage\<close> 9, until it is created.\<close>

record lab = fs + stage :: nat

definition ex_bench :: "lab runner" where
  "ex_bench w p =
     (if prog p = ''systemctl'' then (w, Ran 5 [] [] (if pargs p ! 1 = ''is-active'' then Failed 3 [] else ExitedOk))
      else if p = lxc [''profile'', ''show'', ''integrated''] then
        (w, Ran 6 [] [] (if stage w = 9 then Failed 1 ''not found'' else ExitedOk))
      else if pstdin p \<noteq> None then (w\<lparr>stage := 2\<rparr>, Ran 7 [] [] ExitedOk)
      else if p \<in> set [lxc [''profile'', ''add'', ''web'', ''integrated''], setup_command ex_ctx] then (w, Ran 8 [] [] ExitedOk)
      else (let (n, oc) = ex_lxd (stage w) p in (w\<lparr>stage := n\<rparr>, oc)))"

lemma ex_bench_lxd:
  "ex_bench w (lxc [''info'', ''web'']) = (let (n, oc) = ex_lxd (stage w) (lxc [''info'', ''web'']) in (w\<lparr>stage := n\<rparr>, oc))"
  "ex_bench w (lxc [''start'', ''web'']) = (let (n, oc) = ex_lxd (stage w) (lxc [''start'', ''web'']) in (w\<lparr>stage := n\<rparr>, oc))"
  "ex_bench w (lxc [''stop'', ''web'']) = (let (n, oc) = ex_lxd (stage w) (lxc [''stop'', ''web'']) in (w\<lparr>stage := n\<rparr>, oc))"
  by (simp_all add: ex_bench_def lxc_def setup_command_def)

lemma ex_bench_ranks:
  "power_rank ''stop'' ''STOPPED'' ex_bench ''web'' (\<lambda>w. if stage w = 3 then 0 else 1)"
  "power_rank ''start'' ''RUNNING'' ex_bench ''web'' stage"
  by (auto simp: power_rank_def ex_bench_lxd ex_lxd_info ex_lxd_status split: if_splits)

theorem host_Setup_order_witness:
  "\<exists>h'. host_Setup (\<lambda>_. Inr ''[Unit]'') (\<lambda>_. Inr ''uid: :UID, home: :HOME'') ex_bench
      \<lparr>runs = [], world = fs.extend ex_root \<lparr>stage = 9\<rparr>\<rparr> ex_ctx = Some (h', None) \<and>
    goes (setup_run (\<lambda>_. Inr ''[Unit]'') ex_bench ex_ctx ''uid: 1000, home: /home/u'')
      \<lparr>runs = [], world = fs.extend ex_root \<lparr>stage = 9\<rparr>\<rparr> h' \<and>
    list_all (\<lambda>p. p \<in> set (runs h')) [create_command ex_ctx ''uid: 1000, home: /home/u'', setup_command ex_ctx]"
proof -
  let ?t = "[Lit ''uid: '', UidHole, Lit '', home: '', HomeHole]"
  let ?whole = "host_Setup (\<lambda>_. Inr ''[Unit]'') (\<lambda>_. Inr ''uid: :UID, home: :HOME'') ex_bench
      \<lparr>runs = [], world = fs.extend ex_root \<lparr>stage = 9\<rparr>\<rparr> ex_ctx"
  have t: "Inr ''uid: :UID, home: :HOME'' = (Inr (render '':UID'' '':USER'' '':HOME'' ?t) :: string + string)" "list_all segment_ok ?t"
    "render (UID ex_ctx) (User ex_ctx) (Home ex_ctx) ?t = ''uid: 1000, home: /home/u''" by code_simp+
  have ctx: "CHR '':'' \<notin> set (UID ex_ctx)" "CHR '':'' \<notin> set (User ex_ctx)"
    by (simp_all add: ex_ctx_def)
  have ok: "map_option (\<lambda>(h, err). (err, list_all (\<lambda>p. p \<in> set (runs h))
      [create_command ex_ctx ''uid: 1000, home: /home/u'', setup_command ex_ctx])) ?whole = Some (None, True)" by code_simp
  have web: "Container ex_ctx = ''web''" by (simp add: ex_ctx_def)
  note both = host_Setup_order [where profiles = "\<lambda>_. Inr ''uid: :UID, home: :HOME''", OF t(1,2) ctx, unfolded t(3)]
  obtain r where "?whole = Some r" using both ex_bench_ranks unfolding web by blast
  with ok obtain h' where run: "?whole = Some (h', None)"
    and mem: "list_all (\<lambda>p. p \<in> set (runs h')) [create_command ex_ctx ''uid: 1000, home: /home/u'', setup_command ex_ctx]"
    by (cases r) auto
  show ?thesis using both run mem by blast
qed

section \<open>The container's environment\<close>

text \<open>A container of user 1000 with the shared directory, a wayland and a bus socket in it.\<close>

definition ex_container :: fs where
  "ex_container = ex_root\<lparr>nodes := [([''run''], Dir), ([''run'', ''user''], Dir), ([''run'', ''user'', ''1000''], Dir),
     ([''run'', ''user'', ''1000'', ''lxg''], Symlink ''/lxg/run/user/1000''), ([''lxg''], Dir), ([''lxg'', ''run''], Dir),
     ([''lxg'', ''run'', ''user''], Dir), ([''lxg'', ''run'', ''user'', ''1000''], Dir), ([''tmp''], Dir),
     ([''lxg'', ''run'', ''user'', ''1000'', ''wayland-0''], Sock), ([''lxg'', ''run'', ''user'', ''1000'', ''bus''], Sock)]\<rparr>"

lemma ex_container_layout: "container_layout ''1000'' ex_container"
  by (simp add: container_layout_def fs_ok_def ex_container_def ex_root_def lookup_def run_dir_def lxg_path_def shared_dir_def)

text \<open>
  C35. A successful \<open>InitEnvironment\<close>, in a container with the layout that \<open>SymLinkRun\<close> makes,
  whatever order Go ranges over its maps in. Every destination whose source exists is then a link
  to that source, also if something else was there; a destination whose source does not exist is
  as before. The printed lines are those of \<open>session_variables\<close>, each variable once, whose bus
  address is the first of router, proxy and native bus that exists.
\<close>

theorem InitEnvironment_links:
  assumes "1000 \<le> uid" and "env_ready (show_nat uid) f" and "\<And>xs. mset (range_order xs) = mset xs"
    and "InitEnvironment range_order uid f = (f', Inr lines)"
  shows "container_layout (show_nat uid) f' \<and>
    (\<forall>(s, t) \<in> set (link_list (show_nat uid)).
      (shared_node (show_nat uid) f s = None \<longrightarrow> lookup f' (comps t) = lookup f (comps t)) \<and>
      (is_file (shared_node (show_nat uid) f s) \<longrightarrow> lookup f' (comps t) = Some (Symlink s))) \<and>
    (\<exists>vars. mset lines = mset (map export_line vars) \<and> distinct (map fst vars) \<and>
      map_of vars = session_variables f' (show_nat uid))"
  using InitEnvironment_result [OF assms] unfolding env_layout_def by blast

theorem InitEnvironment_links_witness:
  "\<exists>f' lines. InitEnvironment rev 1000 ex_container = (f', Inr lines) \<and>
    lookup f' [''run'', ''user'', ''1000'', ''wayland-0''] = Some (Symlink ''/run/user/1000/lxg/wayland-0'') \<and>
    lookup f' [''run'', ''user'', ''1000'', ''pipewire-0''] = None"
proof -
  have u: "show_nat 1000 = ''1000''" by code_simp
  have ready: "env_ready (show_nat 1000) ex_container"
    using ex_container_layout by (simp add: u env_ready_def ex_container_def ex_root_def lookup_def run_dir_def)
  have ok: "\<not> isl (snd (InitEnvironment rev 1000 ex_container))" by code_simp
  then obtain f' lines where run: "InitEnvironment rev 1000 ex_container = (f', Inr lines)"
    by (metis Inr_Inl_False isl_def obj_sumE prod.collapse)
  have m: "(run_user ''1000'' ''lxg/wayland-0'', run_user ''1000'' ''wayland-0'') \<in> set (link_list ''1000'')"
    "(run_user ''1000'' ''lxg/pipewire-0'', run_user ''1000'' ''pipewire-0'') \<in> set (link_list ''1000'')"
    by (simp_all add: link_list_def)
  have c: "comps (run_user ''1000'' ''wayland-0'') = [''run'', ''user'', ''1000'', ''wayland-0'']"
    "comps (run_user ''1000'' ''pipewire-0'') = [''run'', ''user'', ''1000'', ''pipewire-0'']"
    "is_file (shared_node ''1000'' ex_container (run_user ''1000'' ''lxg/wayland-0''))"
    "shared_node ''1000'' ex_container (run_user ''1000'' ''lxg/pipewire-0'') = None"
    "lookup ex_container [''run'', ''user'', ''1000'', ''pipewire-0''] = None"
    "run_user ''1000'' ''lxg/wayland-0'' = ''/run/user/1000/lxg/wayland-0''"
    by code_simp+
  have "1000 \<le> (1000 :: nat)" by simp
  from InitEnvironment_links [OF this ready _ run] m c run show ?thesis unfolding u by fastforce
qed

text \<open>
  The same with the socket and the pid file that a router has left, whose process is gone or whose
  pid, 9, some other process has now.
\<close>

definition ex_sys :: "int list \<Rightarrow> sys" where
  "ex_sys ps = fs.extend (ex_container\<lparr>nodes := nodes ex_container @
     [([''lxg'', ''run'', ''user'', ''1000'', ''router''], Sock),
      ([''lxg'', ''run'', ''user'', ''1000'', ''router.pid''], Reg (''9'' @ [CHR 0x0A]))]\<rparr>) \<lparr>pids = ps, started = []\<rparr>"

lemma ex_sys_ready: "container_ready ''1000'' (ex_sys ps)"
proof -
  have "links_ready ''1000'' (ex_sys [])" by code_simp
  moreover have "lookup (ex_sys ps) = lookup (ex_sys [])" by (simp add: lookup_def ex_sys_def fs.defs fun_eq_iff)
  ultimately have "links_ready ''1000'' (ex_sys ps)" by (simp add: links_ready_def shared_node_def place_ok_def)
  moreover have "fs_ok (ex_sys ps)"
    by (simp add: fs_ok_def ex_sys_def fs.defs ex_container_def ex_root_def lookup_def)
  ultimately show ?thesis
    by (simp add: container_ready_def quiet_def source_ok_def)
      (simp add: ex_sys_def fs.defs ex_container_def ex_root_def lookup_def run_dir_def lxg_path_def
        shared_dir_def socket_file_def pid_file_def)
qed

text \<open>
  C36. The container's \<open>Init\<close> brings a session up. From a container whose shared directory the
  host has filled, with whatever links, stale socket and pid file an earlier start has left,
  \<open>Init\<close> returns without an error, every shared socket is linked from where its clients look for
  it, and the lines for the shell have the router as the session bus. If the pid file names no
  live process, or there is no socket, exactly one router is started, and once it has run the
  preparation of \<open>Router.Start\<close>, however many polls failed before, the socket is there, the pid
  file holds its pid, and it lives. If the pid file names a live process and there is a socket,
  nothing is started and both files stay: the check cannot tell a router from another process that
  has got its pid, and then nobody listens where the session is sent.
\<close>

theorem container_Init_ready:
  assumes "1000 \<le> uid" and "UID ctx = show_nat uid" and "container_ready (show_nat uid) s"
    and "\<And>xs. mset (range_order xs) = mset xs"
    and "0 < pid" and "int pid < 2 ^ 63" and "\<And>cmd. start cmd = None"
  shows "\<exists>s' lines.
    container_Init range_order uid exe start (replicate k (\<lambda>s. s, None) @ (router_comes_up pid ctx, None) # rest) s ctx = (s', Inr lines) \<and>
    (if router_seen (show_nat uid) s
     then started s' = started s \<and> lookup s' (socket_file (show_nat uid)) = lookup s (socket_file (show_nat uid)) \<and>
       lookup s' (pid_file (show_nat uid)) = lookup s (pid_file (show_nat uid))
     else started s' = started s @ [router_command exe] \<and> router_files (show_nat uid) pid s' \<and> int pid \<in> set (pids s')) \<and>
    routerRunning s' (run_user (show_nat uid) ''lxg/router'') (run_user (show_nat uid) ''lxg/router.pid'') \<and>
    (\<forall>(source, t) \<in> set (link_list (show_nat uid)).
      is_file (shared_node (show_nat uid) s source) \<longrightarrow> lookup s' (comps t) = Some (Symlink source)) \<and>
    export_line (''DBUS_SESSION_BUS_ADDRESS'', ''unix:path='' @ run_user (show_nat uid) ''lxg/router'') \<in> set lines"
proof -
  let ?u = "show_nat uid"
  obtain s1 s2 s' lines where
    run: "container_Init range_order uid exe start (replicate k (\<lambda>s. s, None) @ (router_comes_up pid ctx, None) # rest) s ctx = (s', Inr lines)"
    and up: "routerRunning s' (run_user ?u ''lxg/router'') (run_user ?u ''lxg/router.pid'')"
    and env: "InitEnvironment range_order uid s2 = (s', Inr lines)" "env_ready ?u s2"
    and frame: "\<And>q. q \<notin> {lxg_path ?u, socket_file ?u, pid_file ?u} \<Longrightarrow> lookup s2 q = lookup s q"
    and router: "if router_seen ?u s
      then started s' = started s \<and> lookup s' (socket_file ?u) = lookup s (socket_file ?u) \<and> lookup s' (pid_file ?u) = lookup s (pid_file ?u)
      else started s' = started s @ [router_command exe] \<and> router_files ?u pid s' \<and> int pid \<in> set (pids s')"
    using container_Init_succeeds [where start = start and exe = exe and k = k and rest = rest, OF assms] by metis
  note result = InitEnvironment_result [OF assms(1) env(2) assms(4) env(1)]
  obtain vars where vars: "mset lines = mset (map export_line vars)" "map_of vars = session_variables s' ?u"
    using result(3) by blast
  have "lookup s' (comps t) = Some (Symlink source)"
    if "(source, t) \<in> set (link_list ?u)" "is_file (shared_node ?u s source)" for source t
    using result(2) [OF that(1)] that(2) shared_node_links [OF component_show_nat that(1) frame] by simp
  moreover have "export_line (''DBUS_SESSION_BUS_ADDRESS'', ''unix:path='' @ run_user ?u ''lxg/router'') \<in> set lines"
    using printed_line [OF vars(1)] router_address [OF up] by (simp add: vars(2))
  ultimately show ?thesis using run up router by blast
qed


theorem container_Init_ready_witness:
  "(\<exists>s' lines. container_Init rev 1000 None (\<lambda>cmd. None)
      (replicate 2 (\<lambda>s. s, None) @ [(router_comes_up 42 ex_ctx, None)]) (ex_sys [1]) ex_ctx = (s', Inr lines) \<and>
    started s' = [router_command None] \<and> router_files ''1000'' 42 s' \<and> 42 \<in> set (pids s') \<and>
    lookup s' [''run'', ''user'', ''1000'', ''wayland-0''] = Some (Symlink ''/run/user/1000/lxg/wayland-0'') \<and>
    ''export DBUS_SESSION_BUS_ADDRESS=\"unix:path=/run/user/1000/lxg/router\"'' @ [CHR 0x0A] \<in> set lines) \<and>
   (\<exists>s' lines. container_Init rev 1000 None (\<lambda>cmd. None)
      (replicate 2 (\<lambda>s. s, None) @ [(router_comes_up 42 ex_ctx, None)]) (ex_sys [9]) ex_ctx = (s', Inr lines) \<and> started s' = [])"
proof -
  have u: "show_nat 1000 = ''1000''" by code_simp
  have c: "(run_user ''1000'' ''lxg/wayland-0'', run_user ''1000'' ''wayland-0'') \<in> set (link_list ''1000'')"
    by (simp add: link_list_def)
  have d: "comps (run_user ''1000'' ''wayland-0'') = [''run'', ''user'', ''1000'', ''wayland-0'']"
    "is_file (shared_node ''1000'' (ex_sys [1]) (run_user ''1000'' ''lxg/wayland-0''))"
    "run_user ''1000'' ''lxg/wayland-0'' = ''/run/user/1000/lxg/wayland-0''"
    "export_line (''DBUS_SESSION_BUS_ADDRESS'', ''unix:path='' @ run_user ''1000'' ''lxg/router'') =
       ''export DBUS_SESSION_BUS_ADDRESS=\"unix:path=/run/user/1000/lxg/router\"'' @ [CHR 0x0A]"
    by code_simp+
  have seen: "\<not> router_seen ''1000'' (ex_sys [1])" "router_seen ''1000'' (ex_sys [9])" by code_simp+
  have none: "started (ex_sys ps) = []" for ps by (simp add: ex_sys_def fs.defs)
  have "(1000 :: nat) \<le> 1000" "UID ex_ctx = show_nat 1000" "\<And>ps. container_ready (show_nat 1000) (ex_sys ps)" "0 < (42 :: nat)"
    "int 42 < 2 ^ 63"
    using ex_sys_ready by (simp_all add: u ex_ctx_def)
  note init = container_Init_ready [where range_order = rev and start = "\<lambda>cmd. None" and exe = None and k = 2 and rest = "[]",
      OF this(1,2) _ _ this(4,5)]
  from init [of "ex_sys [1]"] init [of "ex_sys [9]"] \<open>\<And>ps. container_ready (show_nat 1000) (ex_sys ps)\<close> c d seen show ?thesis unfolding u none by fastforce
qed

section \<open>The life of the router\<close>



section \<open>Bind mounts\<close>

text \<open>
  C38. Binding a desktop socket into the shared directory and taking it away again. With the
  source there and a target that is a free name, a file, or still covered by a mount of an
  earlier run, \<open>BindMount\<close> succeeds: the target is the source's node and nothing else has changed,
  the earlier mount and file are gone. Cancelling then removes the mount and its file, and
  leaves every other node and mount as it was before.
\<close>

theorem BindMount_round_trip:
  assumes "bind_places f ds m d n node"
    and "comps source = ds @ [m]" and "comps target = d @ [n]" and "comps (filepath_Dir target) = d"
  shows "\<exists>f'. BindMount f source target = (f', None, True) \<and>
    lookup f' = (lookup f)(d @ [n] \<mapsto> node) \<and>
    mounts f' = (d @ [n], Reg []) # drop_first (d @ [n]) (mounts f) \<and>
    lookup (BindMount_cancel f' target) = (lookup f)(d @ [n] := None) \<and>
    mounts (BindMount_cancel f' target) = drop_first (d @ [n]) (mounts f)"
proof -
  obtain f' where b: "BindMount f source target = (f', None, True)" and "lookup f' = (lookup f)(d @ [n] \<mapsto> node)"
    "mounts f' = (d @ [n], Reg []) # drop_first (d @ [n]) (mounts f)"
    using BindMount_done [OF assms] by blast
  with BindMount_cancelled [OF assms b] show ?thesis by blast
qed

definition ex_host :: fs where
  "ex_host = ex_root\<lparr>nodes := [([''run''], Dir), ([''run'', ''user''], Dir), ([''run'', ''user'', ''1000''], Dir),
     ([''run'', ''user'', ''1000'', ''lxg''], Dir), ([''run'', ''user'', ''1000'', ''wayland-0''], Sock),
     ([''run'', ''user'', ''1000'', ''lxg'', ''wayland-0''], Reg ''old'')],
     mounts := [([''run'', ''user'', ''1000'', ''lxg'', ''wayland-0''], Reg [])]\<rparr>"

theorem BindMount_round_trip_witness:
  "\<exists>f'. LinkWayland ex_host ex_ctx = (f', None, True) \<and>
    lookup f' [''run'', ''user'', ''1000'', ''lxg'', ''wayland-0''] = Some Sock \<and>
    lookup (BindMount_cancel f' ''/run/user/1000/lxg/wayland-0'') [''run'', ''user'', ''1000'', ''lxg'', ''wayland-0''] = None"
proof -
  let ?r = "[''run'', ''user'', ''1000'']" and ?d = "[''run'', ''user'', ''1000'', ''lxg'']"
  have ok: "fs_ok ex_host" by (simp add: fs_ok_def ex_host_def ex_root_def lookup_def)
  have l: "lookup ex_host ?r = Some Dir" "lookup ex_host ?d = Some Dir" "lookup ex_host (?r @ [''wayland-0'']) = Some Sock"
    "lookup ex_host (?d @ [''wayland-0'']) = Some (Reg ''old'')"
    by (simp_all add: ex_host_def ex_root_def lookup_def)
  have "dir_ok ?r ?r ex_host" "dir_ok ?d ?d ex_host" using plain_dir [OF ok l(1)] plain_dir [OF ok l(2)] by simp_all
  then have pl: "bind_places ex_host ?r ''wayland-0'' ?d ''wayland-0'' Sock"
    using l by (simp add: bind_places_def is_file_def) (simp add: quiet_def ex_host_def ex_root_def)
  have c: "comps ''/run/user/1000/wayland-0'' = ?r @ [''wayland-0'']" "comps ''/run/user/1000/lxg/wayland-0'' = ?d @ [''wayland-0'']"
    "comps (filepath_Dir ''/run/user/1000/lxg/wayland-0'') = ?d" by code_simp+
  have svc: "LinkWayland ex_host ex_ctx = (let (f, err, bound) = BindMount ex_host ''/run/user/1000/wayland-0'' ''/run/user/1000/lxg/wayland-0''
      in (f, map_option (\<lambda>e. ''wayland error: '' @ e) err, bound))"
    by (simp add: LinkWayland_def bind_service_def run_user_def ex_ctx_def)
  from BindMount_round_trip [OF pl c] show ?thesis unfolding svc by auto
qed

section \<open>The daemon of the host\<close>

text \<open>
  C39. \<open>Init\<close> under every interleaving of its services, signals and the collector. When it has
  returned, every goroutine has finished and the result is the first error sent that is not a
  cancellation, if there is one. Once an error has been sent, the services are cancelled or
  about to be. While it has not returned, and no service function is still running, some step
  brings it closer to its end, so no goroutine is stuck on the channel; and every step does,
  except a signal.
\<close>

theorem Init_ends:
  assumes "init_reach s"
  shows "(returned s \<longrightarrow> list_all (\<lambda>p. p = Finished) (phases s) \<and>
      firstErr s = find (\<lambda>e. e \<noteq> Canceled) (sent_errors s)) \<and>
    (sent_errors s \<noteq> [] \<longrightarrow> cancelled s \<or> Cancelling \<in> set (phases s)) \<and>
    (\<not> returned s \<and> Running \<notin> set (phases s) \<longrightarrow> (\<exists>t. init_step s t \<and> init_rank t < init_rank s)) \<and>
    (\<forall>t. init_step s t \<longrightarrow> t = s\<lparr>cancelled := True\<rparr> \<or> init_rank t < init_rank s)"
proof -
  have inv: "init_inv s" using init_reach_inv [OF assms] .
  have "returned s \<Longrightarrow> list_all (\<lambda>p. p = Finished) (phases s) \<and> firstErr s = find (\<lambda>e. e \<noteq> Canceled) (sent_errors s)"
    using inv by (auto simp: init_inv_def collect_find)
  moreover have "sent_errors s \<noteq> [] \<longrightarrow> cancelled s \<or> Cancelling \<in> set (phases s)" using inv by (simp add: init_inv_def)
  ultimately show ?thesis using init_progress [OF inv] init_step_rank by blast
qed

theorem Init_ends_witness:
  "\<exists>s. init_reach s \<and> sent_errors s = [Failure ''wayland''] \<and> \<not> cancelled s \<and> Cancelling \<in> set (phases s)"
proof -
  let ?s1 = "Init_start\<lparr>phases := (phases Init_start)[0 := Sending (Failure ''wayland'')]\<rparr>"
  have "init_step Init_start ?s1"
    by (rule init_step.service_err) (simp_all add: Init_start_def init_services_def)
  then have r1: "init_reach ?s1" by (rule init_reach.step [OF init_reach.start])
  let ?s2 = "?s1\<lparr>phases := (phases ?s1)[0 := Cancelling], errChan := errChan ?s1 @ [Failure ''wayland''],
    sent_errors := sent_errors ?s1 @ [Failure ''wayland'']\<rparr>"
  have "init_step ?s1 ?s2"
    by (rule init_step.send) (simp_all add: Init_start_def init_services_def errChan_cap_def)
  with r1 have r2: "init_reach ?s2" by (rule init_reach.step)
  from Init_ends [OF r2] have "cancelled ?s2 \<or> Cancelling \<in> set (phases ?s2)" by simp
  with r2 show ?thesis by (intro exI [of _ ?s2]) (simp add: Init_start_def init_services_def)
qed

section \<open>The daemon and its files\<close>

text \<open>
  C28. The daemon of the host with its files, under every interleaving of its goroutines. From a
  host where the directories are there (\<open>host_ready\<close>), in every reachable state: \<open>Init\<close> is in a
  state of its own relation (so C39 holds of it); only the eight names of the shared directory
  have changed; the mounts are exactly those whose clean-up waits, and each shows its source. When
  \<open>Init\<close> has returned, the bridge socket is gone, and so is the one of the bus proxy if it was
  used; and once the clean-ups have run there is no mount and no name of a link that was not there
  before. But \<open>Init\<close> does not wait for the clean-ups: from every state in which the daemon lives it
  can come to return with each mount that was there still in place.
\<close>

theorem daemon_files:
  assumes "component_ok (UID ctx)" and "host_ready (UID ctx) f0" and "daemon_reach ctx addr installed f0 d"
  shows "init_reach (group d) \<and> fs_ok (files d) \<and>
    (\<forall>p. (\<forall>n \<in> set daemon_names. p \<noteq> lxg_path (UID ctx) @ [n]) \<longrightarrow> lookup (files d) p = lookup f0 p) \<and>
    mounts (files d) = map (\<lambda>i. (lxg_path (UID ctx) @ [link_names ! i], Reg [])) (cleanups d) \<and>
    (\<forall>i \<in> set (cleanups d). \<exists>q \<in> link_sources (UID ctx) i. is_file (lookup f0 q) \<and>
      lookup (files d) (lxg_path (UID ctx) @ [link_names ! i]) = lookup f0 q) \<and>
    (returned (group d) \<longrightarrow> lookup (files d) (lxg_path (UID ctx) @ [''bridge'']) = None \<and>
      (addr \<noteq> [] \<and> installed \<longrightarrow> lookup (files d) (lxg_path (UID ctx) @ [''bus'']) = None) \<and>
      (cleanups d = [] \<longrightarrow> mounts (files d) = [] \<and>
        (\<forall>n \<in> set link_names. lookup (files d) (lxg_path (UID ctx) @ [n]) \<in> {None, lookup f0 (lxg_path (UID ctx) @ [n])}))) \<and>
    (\<forall>n. \<not> died d \<and> HasPrefix n ''.mutter-Xwaylandauth.'' \<and> lookup f0 (run_dir (UID ctx) @ [n]) \<noteq> None \<longrightarrow>
      (\<exists>d'. daemon_steps ctx addr installed d d' \<and> returned (group d') \<and> set (cleanups d) \<subseteq> set (cleanups d')))"
proof -
  have inv: "daemon_inv ctx addr installed f0 d" by (rule daemon_reach_inv [OF assms(3,1,2)])
  have serve: "serving d" "init_reach (group d)" using daemon_serving [OF assms(3)] by simp_all
  have idle: "\<not> listening d \<and> \<not> proxying d \<and> (\<forall>i. \<not> running (group d) i)" if "returned (group d)"
    using daemon_over [OF serve that] .
  have gone: "lookup (files d) (lxg_path (UID ctx) @ [''bridge'']) = None \<and>
      (addr \<noteq> [] \<and> installed \<longrightarrow> lookup (files d) (lxg_path (UID ctx) @ [''bus'']) = None)" if "returned (group d)"
    using inv idle [OF that] by (simp add: daemon_inv_def)
  have kept: "fs_ok (files d)" "mounts (files d) = map (\<lambda>i. (lxg_path (UID ctx) @ [link_names ! i], Reg [])) (cleanups d)"
    "\<forall>p. (\<forall>n \<in> set daemon_names. p \<noteq> lxg_path (UID ctx) @ [n]) \<longrightarrow> lookup (files d) p = lookup f0 p"
    using inv by (simp_all add: daemon_inv_def shared_ok_def)
  then have "cleanups d = [] \<longrightarrow> mounts (files d) = []" by simp
  with serve(2) gone kept daemon_bound [OF inv] daemon_unbound [OF inv] daemon_can_return [OF assms(3,1,2)]
  show ?thesis by blast
qed

definition ex_desk :: fs where
  "ex_desk = ex_root\<lparr>nodes := [([''run''], Dir), ([''run'', ''user''], Dir), ([''run'', ''user'', ''1000''], Dir),
     ([''run'', ''user'', ''1000'', ''lxg''], Dir), ([''run'', ''user'', ''1000'', ''pulse''], Dir),
     ([''tmp''], Dir), ([''tmp'', ''.X11-unix''], Dir), ([''run'', ''user'', ''1000'', ''wayland-0''], Sock),
     ([''run'', ''user'', ''1000'', ''.mutter-Xwaylandauth.7''], Reg ''cookie'')]\<rparr>"

lemma ex_desk_ready: "host_ready ''1000'' ex_desk"
proof -
  have look: "lookup ex_desk q \<in> {None, Some Dir, Some Sock, Some (Reg ''cookie'')}" for q
    by (simp add: lookup_def ex_desk_def)
  have "\<forall>q \<in> link_sources ''1000'' i. source_ok (lookup ex_desk q)" if "i < 6" for i
    by (auto simp: link_sources_def source_ok_cases lookup_def ex_desk_def run_dir_def)
  then show ?thesis
    by (simp add: host_ready_def)
      (simp add: fs_ok_def quiet_def ex_desk_def ex_root_def lookup_def run_dir_def lxg_path_def daemon_names_def link_names_def
        source_ok_def component_ok_def)
qed

theorem daemon_files_witness:
  "\<exists>d. daemon_reach ex_ctx [] False ex_desk d \<and> returned (group d) \<and>
    ([''run'', ''user'', ''1000'', ''lxg'', ''wayland-0''], Reg []) \<in> set (mounts (files d))"
proof -
  have uid: "component_ok (UID ex_ctx)" and u: "UID ex_ctx = ''1000''" by (simp_all add: ex_ctx_def component_ok_def)
  have ready: "host_ready (UID ex_ctx) ex_desk" using ex_desk_ready by (simp add: u)
  have "(case link_service 0 ex_desk ex_ctx of Some (f, err, b) \<Rightarrow> b | None \<Rightarrow> False)" by code_simp
  then obtain f err where run: "link_service 0 ex_desk ex_ctx = Some (f, err, True)" by (auto split: option.splits prod.splits)
  let ?d = "(daemon_start ex_desk)\<lparr>group := service_returns Init_start 0 err, files := f, cleanups := [0]\<rparr>"
  have "running Init_start 0" by (simp add: running_def Init_start_def init_services_def)
  then have "daemon_step ex_ctx [] False (daemon_start ex_desk) ?d"
    using daemon_step.link [of "daemon_start ex_desk" 0 ex_ctx f err True] run by (simp add: daemon_start_def)
  then have d: "daemon_reach ex_ctx [] False ex_desk ?d" by (rule daemon_reach.step [OF daemon_reach.start])
  have "lookup ex_desk (run_dir (UID ex_ctx) @ [''.mutter-Xwaylandauth.7'']) \<noteq> None"
    by (simp add: u lookup_def ex_desk_def run_dir_def)
  then obtain d' where d': "daemon_steps ex_ctx [] False ?d d'" "returned (group d')" "0 \<in> set (cleanups d')"
    using daemon_files [OF uid ready d] by (auto simp: daemon_start_def)
  have r: "daemon_reach ex_ctx [] False ex_desk d'" by (rule daemon_steps_reach [OF d'(1) d])
  then have "mounts (files d') = map (\<lambda>i. (lxg_path (UID ex_ctx) @ [link_names ! i], Reg [])) (cleanups d')"
    using daemon_files [OF uid ready r] by simp
  then show ?thesis using d' r by (intro exI [of _ d']) (force simp: u lxg_path_def link_names_def)
qed

end
