(* ===== verification/Spec2Isabelle.thy ===== *)
theory Spec2Isabelle
  imports Dbus_Upstream Dbus_Client Program_Properties
begin

text \<open>
  lxg runs desktop applications in system containers. On the host it manages the containers
  through \<open>lxc\<close>, binds the sockets of the desktop session into a directory the containers share,
  and serves a bridge over which a container runs commands on the host. In a container it links
  those sockets to where programs look for them, prints the environment of the session, and
  runs a D-Bus router between the container's programs and two buses: the container's own
  session bus and the host's, reached through a proxy socket. A client of the router sees one
  bus; every message it sends is routed to one of the two, or to both, and the answers are
  filtered, merged and sent back.

  Theories, from the bottom up (each names the source files it models).

  The Go library, as far as the program uses it:

  \<^item> \<open>Lxg_Prelude\<close>: Go values (bytes, strings, slices that can panic), the package
    \<open>strings\<close>, the \<open>named_theorems\<close> collections.
  \<^item> \<open>Go_Binary\<close>: \<open>encoding/binary\<close>, with the locale \<open>byte_order\<close> interpreted on both
    byte orders.
  \<^item> \<open>Go_Text\<close>: decimal numbers, \<open>%q\<close>, \<open>TrimSpace\<close>, \<open>Atoi\<close>.
  \<^item> \<open>Go_Files\<close>: the file operations of \<open>os\<close>, \<open>net.Listen\<close> and the mount system calls on a file
    system of directories, files, sockets and links, with bind mounts; the locale \<open>entry_store\<close>
    is what the components rely on when they replace an entry, interpreted as \<open>dir\<close>.

  The router:

  \<^item> \<open>Dbus_Wire\<close> (\<open>container/dbus/wire.go\<close>): the \<open>Message\<close> struct, \<open>ParseHeader\<close>, the
    string-array codec, \<open>ReplaceBody\<close>; a grammar of header fields and messages
    (\<open>enc_message\<close>, \<open>dec_message\<close>) that is the specification of the parser.
  \<^item> \<open>Dbus_Conn\<close> (\<open>wire.go\<close>): descriptors (\<open>CloseFDs\<close>, \<open>CopyFDs\<close>) with an explicit kernel,
    connections with a script of write outcomes, \<open>WriteMessage\<close>; the locale \<open>message_sink\<close>.
  \<^item> \<open>Dbus_Reader\<close> (\<open>wire.go\<close>): \<open>MessageReader\<close>, \<open>ReadMessage\<close>; the locales
    \<open>message_source\<close> and \<open>message_channel\<close>, which extends it and \<open>message_sink\<close>.
  \<^item> \<open>Dbus_Messages\<close> (\<open>container/dbus/router.go\<close>): string arguments, \<open>uniqueStrings\<close>,
    \<open>mergeNameListReplies\<close>, \<open>NewErrorMessage\<close>.
  \<^item> \<open>Dbus_Rules\<close> (\<open>container/dbus/rules.go\<close>): the routing rules; the locale \<open>rule_table\<close>,
    interpreted on both tables.
  \<^item> \<open>Command_Context\<close> (\<open>command/context.go\<close>): the invocation context.
  \<^item> \<open>Dbus_Session\<close> (\<open>router.go\<close>): the router, the client session and all its handlers, up
    to the loops of \<open>handleClient\<close> (\<open>session_turn\<close>).
  \<^item> \<open>Dbus_Routing\<close>: the routing policy \<open>plan\<close> as a table, and the proof that
    \<open>DispatchClientMessage\<close> implements it.
  \<^item> \<open>Dbus_Session_Laws\<close>: the locales \<open>client_relation\<close> and \<open>session_relation\<close>, which turn a
    property of the primitive state changes into a property of every step of a session.
  \<^item> \<open>Dbus_Lifecycle\<close>: the interpretations of these (descriptors, growth, invariant, other
    calls, silence after closing), reachability (\<open>session_reach\<close>), absence of panics.
  \<^item> \<open>Dbus_Upstream\<close>: the policy of the upstream side, \<open>handleUpstream\<close> against it, the merge of
    \<open>ListNames\<close> across a whole trace of a session.
  \<^item> \<open>Dbus_Sasl\<close> (\<open>container/dbus/sasl.go\<close>): both handshakes over a chunked stream, against the
    reference \<open>dialogue\<close>.
  \<^item> \<open>Dbus_Client\<close> (\<open>handleClient\<close> of \<open>router.go\<close>): setting a session up, its three loops under any
    schedule, the clean-up; the turns of the loops as steps of the session.

  The command line, the host and the container:

  \<^item> \<open>Command_Exec\<close> (\<open>command/command.go\<close>): \<open>Execute\<close> over a runner of processes.
  \<^item> \<open>Host_Lxc\<close> (\<open>host/lxc\<close>): status, start, stop, restart, profiles, \<open>RunCommand\<close>, \<open>Setup\<close>.
  \<^item> \<open>Host_Systemd\<close> (\<open>host/systemd\<close>, \<open>host/setup.go\<close>): services and their installation.
  \<^item> \<open>Host_Power\<close>: runs of processes as relations composed like the functions that run them
    (\<open>goes\<close>), and the runs of the power loops as an inductive relation (\<open>power_run\<close>), which the
    loops are shown to have exactly.
  \<^item> \<open>Host_Setup\<close>: the whole of \<open>Setup\<close>: that it returns, and that it succeeds exactly when its
    processes can be run as \<open>setup_run\<close> says.
  \<^item> \<open>Container_Env\<close> (\<open>container/env\<close>, \<open>container/init.go\<close>): \<open>SymLinkRun\<close>, \<open>InitEnvironment\<close>; the
    layout of a container.
  \<^item> \<open>Container_Daemon\<close> (\<open>container/dbus/daemon.go\<close>, \<open>Start\<close> of \<open>router.go\<close>): the pid file, the
    supervision of the router, its listener; \<open>Init\<close> of the container.
  \<^item> \<open>Container_Start\<close>: when each operation of that \<open>Init\<close> succeeds, and \<open>Init\<close> as a whole from a
    container the host has prepared (\<open>container_ready\<close>).
  \<^item> \<open>Container_Router\<close>: the files of the router over its life, for every outcome of the calls that
    set its socket up.
  \<^item> \<open>Bridge_Protocol\<close> (\<open>host/bridge/protocol.go\<close>): requests and responses, with the decoding
    rules of \<open>encoding/json\<close> on JSON values.
  \<^item> \<open>Host_Bridge\<close> (\<open>host/bridge/handler.go\<close>, \<open>socket.go\<close>): the handler and the listener.
  \<^item> \<open>Container_Client\<close> (\<open>container/client.go\<close>, \<open>command.go\<close>): the client of the bridge, from its
    arguments to the request and from the answer to its end, and the path it dials.
  \<^item> \<open>Host_Mounts\<close> (\<open>host/run\<close>): bind mounts and the services built on them.
  \<^item> \<open>Host_Init\<close> (\<open>host/dbus/dbus.go\<close>, \<open>host/init.go\<close>): the bus proxy, and \<open>Init\<close> as a step
    relation of its goroutines.
  \<^item> \<open>Host_Daemon\<close>: \<open>Init\<close> with the functions its goroutines run and the clean-ups they leave, on the
    file system; every step of it is a step of \<open>Host_Init\<close> or none.
  \<^item> \<open>Main_Dispatch\<close> (\<open>main.go\<close>, \<open>help/help.go\<close>, \<open>container/setup\<close>): the command dispatch, the
    set-up of a container, and the whole program (\<open>main_lxg\<close>): \<open>perform\<close> runs the function of each
    command, and the record \<open>outside\<close> holds what the world does around it.
  \<^item> \<open>Program_Properties\<close>: the properties of this group; this theory: those of the router. Each
    property with a hypothesis has a witness.

  State. A session is the record \<open>session\<close>: Go's \<open>ClientSession\<close> with its three connections
  and the kernel inside, so every write and close shows in the result of a handler. A handler
  is a function from the session and a message to the new session and an error, in an
  \<open>option\<close> whose \<open>None\<close> is a panic. Go runs the three loops of a session as goroutines; the
  model executes one handler call per step, in any order, and so does not show interleavings
  inside a handler (the maps are guarded by a mutex, writes to the client by another). In
  \<open>Dbus_Client\<close> the order is a schedule of the loops, and reading a message and handling it are
  two turns. The functions of the host are functions of the record \<open>host\<close>, the processes run so
  far and a state of the world that only the runner, a parameter, reads and changes; those on
  files are functions of the record \<open>fs\<close>, where any operation on any path can fail (\<open>faults\<close>).
  \<open>Init\<close> of the host is a relation between states of its goroutines, its error channel and its
  collector.

  Input. A socket is a list of read results (\<open>recv\<close>) or of pieces of bytes (\<open>Dbus_Sasl\<close>), and
  the loops that read it end because they use it up; an accept loop is over the list of the
  results of \<open>Accept\<close>, the poll of \<open>EnsureRouter\<close> over the list of what happens between its turns.
  No fuel is needed anywhere: the only loops without a bound, those of \<open>StartContainer\<close> and
  \<open>StopContainer\<close>, are a partial function whose \<open>None\<close> is not to return, and C29 says when they
  return. Output can fail at any write (\<open>wscript\<close>, \<open>writes\<close>) and fails after \<open>Close\<close>. \<open>dup\<close>
  succeeds or fails as \<open>dupScript\<close> says. The order in which Go ranges over a map is a parameter.

  Properties. C1 to C8 are about the session (trace of a merged call, dispatch, upstream policy,
  no panics, invariant, frame, silence once a loop has ended, descriptors); C9 to C11 about
  framing; C12 to C14 about the codecs; C16 to C19 about routing, subscriptions and learned
  names; C20 and C21 about sockets and descriptors; C22 and C23 about SASL; C24 about the
  context; C25 to C27 state behaviour that departs from what the code means to do. In
  \<open>Program_Properties\<close>, C15 is about the whole set-up of a container from the host,
  C28 about the daemon of the host with its files, C29 to C31 about containers and the command
  line, C32 about the dispatch and the side each process runs on, C33 and C34 about the bridge,
  C35 about the container's environment, C36 about the start of a container with its router, C37
  about the router's files over its life, C38 about bind mounts, C39 about how the daemon ends.
  C40 is about \<open>handleClient\<close> as a whole, from the handshake with a client to its
  return.

  Not modelled: what is printed, except the lines of \<open>InitEnvironment\<close>, which are
  its result; sleeping and deadlines, beyond the errors they give; permissions of files other
  than those \<open>Chmod\<close> sets, and the umask; the path in the text of a file error
  (only the error itself); the text of JSON documents (values are modelled, with the errors of
  decoding them, but for what a repeated \<open>args\<close> member keeps of the earlier one);
  in \<open>main_lxg\<close>, how a run of the host's daemon goes, which is an input there
  because its \<open>Init\<close> is a relation; the working directory and the environment of a
  process, and the standard streams it inherits.
\<close>

section \<open>Concrete values for the witnesses\<close>

definition ex_call :: message where
  "ex_call = dec_message LittleEndian TypeMethodCall 0 1 5
     [StrField HeaderMember ''ListNames'', StrField HeaderDestination ''org.freedesktop.DBus''] []"

definition ex_container_reply :: message where
  "ex_container_reply = dec_message LittleEndian TypeMethodReturn 1 1 9 [U32Field HeaderReplySerial 5]
     (EncodeStringArray LittleEndian [''a'', ''b''])"

definition ex_host_reply :: message where
  "ex_host_reply = dec_message LittleEndian TypeMethodReturn 1 1 7 [U32Field HeaderReplySerial 5]
     (EncodeStringArray LittleEndian [''b'', ''c''])"

definition ex_notify :: message where
  "ex_notify = dec_message BigEndian TypeMethodCall 0 1 6
     [StrField HeaderMember ''Notify'', StrField HeaderDestination ''org.freedesktop.Notifications''] []"

definition ex_local :: message where
  "ex_local = dec_message LittleEndian TypeMethodCall 0 1 8 [StrField HeaderDestination ''org.example.App''] []"

definition ex_owner :: message where
  "ex_owner = dec_message LittleEndian TypeMethodReturn 1 1 3 [U32Field HeaderReplySerial 4]
     (encode_names LittleEndian [] ['':1.7''])"

definition ex_unique_call :: message where
  "ex_unique_call = dec_message LittleEndian TypeMethodCall 0 1 8 [StrField HeaderDestination '':1.7''] []"

definition ex_wrap :: "byte list" where
  "ex_wrap = [108, 1, 0, 1, 255, 255, 255, 255, 1, 0, 0, 0, 1, 0, 0, 0, 0, 0, 0, 0, 0, 0, 0]"


definition ex_conn :: conn where
  "ex_conn = \<lparr>outbox = [], wscript = [], isOpen = True\<rparr>"

definition ex_session :: session where
  "ex_session =
     new_session (NewRouter (NewContext \<lparr>env_uid = ''1000'', env_user = ''u'', env_home = ''/home/u''\<rparr> []))
       ex_conn (Some ex_conn) ex_conn \<lparr>closedFDs = [], dupScript = []\<rparr>"

lemma ex_fits:
  "message_fits LittleEndian [StrField HeaderMember ''ListNames'', StrField HeaderDestination ''org.freedesktop.DBus'']"
  "message_fits LittleEndian [U32Field HeaderReplySerial 5]"
  "message_fits BigEndian [StrField HeaderMember ''Notify'', StrField HeaderDestination ''org.freedesktop.Notifications'']"
  by (simp_all add: message_fits_def enc_fields_def append_entry_def pad_to_def align_def Let_def)

lemma ex_framed: "framed ex_call" "framed ex_container_reply" "framed ex_host_reply" "framed ex_notify"
  unfolding ex_call_def ex_container_reply_def ex_host_reply_def ex_notify_def
  by (rule framed_dec_message, rule ex_fits,
      simp add: length_enc_message enc_fields_def append_entry_def pad_to_def align_def
        EncodeStringArray_def Let_def)+

lemma ex_fields:
  "list_call ex_call" "Serial ex_call = 5" "is_reply ex_container_reply" "is_reply ex_host_reply"
  "ReplySerial ex_container_reply = 5" "ReplySerial ex_host_reply = 5" "FDs ex_host_reply = []"
  "Type ex_container_reply = TypeMethodReturn" "Type ex_host_reply = TypeMethodReturn"
  "reply_names ex_container_reply = Some [''a'', ''b'']" "reply_names ex_host_reply = Some [''b'', ''c'']"
  by code_simp+

lemma ex_works: "works ex_session"
  by (simp add: works_def healthy_session_def healthy_def ex_session_def ex_conn_def new_session_inv)
    (simp add: new_session_def)

lemma ex_traffic: "other_traffic 5 [FromClient ex_notify]" "other_traffic 5 [FromHost ex_notify]"
proof -
  have "Serial ex_notify = 6" "Type ex_notify = TypeMethodCall" by code_simp+
  then show "other_traffic 5 [FromClient ex_notify]" "other_traffic 5 [FromHost ex_notify]"
    by (simp_all add: other_traffic_def framed_msg_ok ex_framed)
qed

section \<open>The session as a whole\<close>

text \<open>
  C1. \<open>ListNames\<close> and \<open>ListActivatableNames\<close> are answered with the names of both buses. In
  a session with working connections the client makes the call, other events follow, one bus
  answers (in either order \<open>b\<close>), other events follow, the other bus answers. Nothing panics;
  the first answer sends nothing to the client; the second sends exactly one message, without
  descriptors, whose body parses to the container's names followed by the host's, each name
  once. Then the entry of the call is gone and the descriptors of both answers are closed.
\<close>

theorem ListNames_merged:
  assumes "works s" and "list_call m" and "msg_ok m" and "Serial m = k"
    and "other_traffic k evs1" and "other_traffic k evs2"
    and "is_reply c" and "is_reply h" and "ReplySerial c = k" and "ReplySerial h = k"
    and "framed c" and "framed h" and "Type c = TypeMethodReturn \<or> Type h = TypeMethodReturn"
  shows "\<exists>s2 s3 s4 t merged nc nh.
    session_run s (FromClient m # evs1) = Some s2 \<and>
    session_turn s2 (first_reply b c h) = Some s3 \<and> clientConn s3 = clientConn s2 \<and>
    session_run s3 evs2 = Some s4 \<and>
    session_turn s4 (second_reply b c h) = Some t \<and>
    outbox (clientConn t) = outbox (clientConn s4) @ [(Raw merged, [])] \<and>
    reply_names c = Some nc \<and> reply_names h = Some nh \<and>
    ParseStringArray merged = Some (Inr (uniqueStrings (nc @ nh))) \<and>
    merges t k = None \<and>
    closedFDs (kernel t) = closedFDs (kernel s4) @ filter ((\<le>) 0) (FDs h) @ filter ((\<le>) 0) (FDs c)"
proof -
  obtain s2 s3 s4 t where run: "session_run s (FromClient m # evs1) = Some s2"
    "session_turn s2 (first_reply b c h) = Some s3" "clientConn s3 = clientConn s2"
    "session_run s3 evs2 = Some s4" "session_turn s4 (second_reply b c h) = Some t"
    and s4: "healthy_session s4" and out: "merged_outcome s4 k c h t"
    using list_names_trace [OF assms(1-10)] assms(11,12) framed_msg_ok by blast
  obtain merged nc nh where mg: "mergeNameListReplies c h = Some merged" "reply_names c = Some nc"
    "reply_names h = Some nh" "ParseStringArray merged = Some (Inr (uniqueStrings (nc @ nh)))"
    "FDs merged = []"
    using merge_names [OF assms(11-13)] by blast
  have "outbox (clientConn t) = outbox (clientConn s4) @ [(Raw merged, [])]"
    using out mg(1) WriteMessage_healthy [of "clientConn s4" "merged\<lparr>FDs := []\<rparr>"] s4
    by (auto simp: merged_outcome_def healthy_session_def)
  with run mg out show ?thesis
    by (auto simp: merged_outcome_def)
qed

theorem ListNames_merged_witness:
  "\<exists>s2 s3 s4 t merged nc nh.
    session_run ex_session (FromClient ex_call # [FromClient ex_notify]) = Some s2 \<and>
    session_turn s2 (first_reply True ex_container_reply ex_host_reply) = Some s3 \<and>
    clientConn s3 = clientConn s2 \<and> session_run s3 [FromHost ex_notify] = Some s4 \<and>
    session_turn s4 (second_reply True ex_container_reply ex_host_reply) = Some t \<and>
    outbox (clientConn t) = outbox (clientConn s4) @ [(Raw merged, [])] \<and>
    nc = [''a'', ''b''] \<and> nh = [''b'', ''c''] \<and>
    ParseStringArray merged = Some (Inr [''a'', ''b'', ''c''])"
  using ListNames_merged [OF ex_works ex_fields(1) framed_msg_ok [OF ex_framed(1)] ex_fields(2)
      ex_traffic ex_fields(3-6) ex_framed(2,3), of True] ex_fields(8,10,11)
  by (fastforce simp: uniqueStrings_def)

text \<open>
  C2. \<open>DispatchClientMessage\<close> implements the routing table. With working connections every
  message a reader can return is dispatched without a panic or an error, and exactly what
  \<open>plan\<close> says is written: the message to the container, to the host, to both (the host's copy
  with either none or as many descriptors), or a \<open>ServiceUnknown\<close> error to the client.
\<close>

theorem DispatchClientMessage_implements_plan:
  assumes "healthy_session s" and "msg_ok m"
  shows "\<exists>t. DispatchClientMessage s m = Some (t, None) \<and> carries_out (plan s m) s m t"
  using assms by (rule dispatch_carries_out)

lemma ex_healthy: "healthy_session ex_session"
  using ex_works by (simp add: works_def)

theorem DispatchClientMessage_implements_plan_witness:
  "plan ex_session ex_notify = DeliverHost \<and>
   (\<exists>t. DispatchClientMessage ex_session ex_notify = Some (t, None) \<and>
     carries_out (plan ex_session ex_notify) ex_session ex_notify t)"
proof -
  have "plan ex_session ex_notify = DeliverHost" by code_simp
  with DispatchClientMessage_implements_plan [OF ex_healthy framed_msg_ok [OF ex_framed(4)]]
  show ?thesis by blast
qed

text \<open>
  C3. \<open>handleUpstream\<close> implements the reply and signal policy, for every message that is not
  half of a merge and whatever the writes do: the client is written the message exactly when
  \<open>client_gets\<close> says so, no other connection is touched, the pending call of a host reply is
  forgotten, the session learns exactly the unique names \<open>host_learns\<close>, and each descriptor
  of the message is closed exactly once.
\<close>

theorem handleUpstream_implements_policy:
  assumes "is_reply m \<Longrightarrow> merges s (ReplySerial m) = None"
  shows "\<exists>t e. handleUpstream s from m = Some (t, m\<lparr>FDs := []\<rparr>, e) \<and> upstream_outcome s from m t e"
  using assms by (rule handleUpstream_spec)

theorem handleUpstream_implements_policy_witness:
  "\<not> client_gets ex_session TargetHost ex_host_reply \<and>
   (\<exists>t e. handleUpstream ex_session TargetHost ex_host_reply = Some (t, ex_host_reply\<lparr>FDs := []\<rparr>, e) \<and>
     upstream_outcome ex_session TargetHost ex_host_reply t e)"
proof -
  have "merges ex_session (ReplySerial ex_host_reply) = None" and "hostPending ex_session = Map.empty"
    by (simp_all add: ex_session_def new_session_def)
  with handleUpstream_implements_policy [of ex_host_reply ex_session TargetHost] ex_fields(4)
  show ?thesis by (simp add: client_gets_def)
qed

text \<open>
  C4. No handler panics. In every state a session can reach from its start, every event its
  loops can produce is handled: no index or slice out of range, no write to a missing host
  connection. (\<open>None\<close> is the panic.)
\<close>

theorem session_never_panics:
  assumes "session_reach (new_session r cl ho co w) s" and "admissible s ev"
  shows "session_turn s ev \<noteq> None"
  using session_turn_defined session_reach_inv new_session_inv assms by blast

theorem session_never_panics_witness: "session_turn ex_session (FromClient ex_call) \<noteq> None"
proof -
  have "session_reach ex_session ex_session" by (rule session_reach.start)
  moreover have "admissible ex_session (FromClient ex_call)" using framed_msg_ok ex_framed(1) by simp
  ultimately show ?thesis using session_never_panics unfolding ex_session_def by blast
qed

text \<open>
  C5. The invariant of the session maps. In every reachable state: without a host connection
  there are no pending host calls, no merges and no host names; every learned name is a unique
  name; a merge holds at most one of its two replies; a closed session has all its connections
  closed. And compared with the start, the streams written, the log of closed descriptors and
  the learned names have only grown.
\<close>

theorem reachable_session_invariant:
  assumes "session_reach (new_session r cl ho co w) s"
  shows "session_inv s \<and> evolves (new_session r cl ho co w) s"
  using session_reach_inv [OF assms new_session_inv] session_reach_evolves [OF assms] by blast

theorem reachable_session_invariant_witness:
  "\<exists>s. session_run ex_session [FromClient ex_call, FromHost ex_host_reply] = Some s \<and>
     session_inv s \<and> evolves ex_session s"
proof -
  have h: "hostConn ex_session \<noteq> None" by (simp add: ex_session_def new_session_def)
  obtain s where "session_run ex_session [FromClient ex_call, FromHost ex_host_reply] = Some s"
    "session_reach ex_session s"
    using session_run_reach [of ex_session "[FromClient ex_call, FromHost ex_host_reply]"] h
      ex_works framed_msg_ok ex_framed by (auto simp: works_def)
  with reachable_session_invariant show ?thesis unfolding ex_session_def by blast
qed

text \<open>
  C6. A step of a session leaves the bookkeeping of every call it is not about alone: the
  pending host call and the merge of a serial \<open>k\<close> change only when the client uses that
  serial, or a reply to it arrives.
\<close>

theorem other_calls_untouched:
  assumes "session_turn s ev = Some t" and "admissible s ev" and "\<not> touches k ev"
  shows "merges t k = merges s k \<and> hostPending t k = hostPending s k"
  using others.R_turn [OF assms(1,2), of k] assms(3) by (auto simp: same_call_def)

theorem other_calls_untouched_witness:
  "\<exists>t. session_turn ex_session (FromClient ex_call) = Some t \<and> merges t 6 = None \<and> hostPending t 6 = None"
proof -
  have a: "admissible ex_session (FromClient ex_call)" using framed_msg_ok ex_framed(1) by simp
  obtain t where t: "session_turn ex_session (FromClient ex_call) = Some t"
    using session_turn_defined [OF _ a] ex_works by (auto simp: works_def)
  have "\<not> touches 6 (FromClient ex_call)" using ex_fields(2) by simp
  from other_calls_untouched [OF t a this] t show ?thesis
    by (simp add: ex_session_def new_session_def)
qed

text \<open>
  C7. When a loop ends, its session falls silent. From any reachable session, a failed read or a
  turn whose handler has returned an error closes all three connections; whatever the three
  loops still read after that, without a panic, not one byte more is written to any of them.
\<close>

theorem closed_session_silent:
  assumes "session_reach (new_session r cl ho co w) s" and "admissible s ev" and "turn_fails s ev"
    and "list_all (ok_event (hostConn s \<noteq> None)) evs"
  shows "\<exists>t u. session_turn s ev = Some t \<and> session_run t evs = Some u \<and>
    (\<forall>x \<in> {t, u}. \<not> isOpen (clientConn x) \<and> \<not> isOpen (containerConn x) \<and>
      (\<forall>c. hostConn x = Some c \<longrightarrow> \<not> isOpen c) \<and> (hostConn x = None \<longleftrightarrow> hostConn s = None)) \<and>
    outbox (clientConn u) = outbox (clientConn t) \<and> host_out u = host_out t \<and>
    outbox (containerConn u) = outbox (containerConn t)"
proof -
  have inv: "session_inv s" using session_reach_inv [OF assms(1) new_session_inv] .
  obtain t where t: "session_turn s ev = Some t" using session_turn_defined [OF inv assms(2)] by blast
  have r: "session_reach s t" by (rule session_reach.turn [OF session_reach.start assms(2) t])
  have it: "session_inv t" using session_reach_inv [OF r inv] .
  have host: "hostConn t = None \<longleftrightarrow> hostConn s = None" using evolves_host [OF session_reach_evolves [OF r]] .
  have d: "dead t" using closed_dead [OF it failed_turn_closed [OF assms(3) t]] .
  obtain u where u: "session_run t evs = Some u" "session_reach t u"
    using session_run_reach [OF it] assms(4) host by auto
  have "hostConn u = None \<longleftrightarrow> hostConn s = None" using evolves_host [OF session_reach_evolves [OF u(2)]] host by simp
  with t u(1) d session_reach_silent [OF u(2)] host show ?thesis by (auto simp: silent_def dead_def)
qed

theorem closed_session_silent_witness:
  "\<exists>t u. session_turn ex_session ReadFails = Some t \<and> session_run t [FromClient ex_notify, FromHost ex_host_reply] = Some u \<and>
     (\<forall>c. hostConn u = Some c \<longrightarrow> \<not> isOpen c) \<and> host_out u = [] \<and> outbox (containerConn u) = []"
proof -
  have s: "session_reach (new_session (srouter ex_session) ex_conn (Some ex_conn) ex_conn (kernel ex_session)) ex_session"
    using session_reach.start by (simp add: ex_session_def new_session_def)
  have evs: "list_all (ok_event (hostConn ex_session \<noteq> None)) [FromClient ex_notify, FromHost ex_host_reply]"
    using framed_msg_ok ex_framed(3,4) by (simp add: ex_session_def new_session_def)
  have "session_turn ex_session ReadFails = Some (session_Close ex_session)" by simp
  moreover have "host_out (session_Close ex_session) = []" "outbox (containerConn (session_Close ex_session)) = []"
    by (simp_all add: session_Close_def ex_session_def new_session_def ex_conn_def host_out_def conn_Close_def)
  ultimately show ?thesis
    using closed_session_silent [OF s _ _ evs, of ReadFails] by auto
qed

text \<open>
  C8. File descriptors on the client side: one turn of the client loop closes the descriptors it
  duplicated for a host copy, and then each descriptor of the message, once and in order,
  whatever the route and whether or not the writes succeed.
\<close>

theorem client_turn_closes_descriptors:
  assumes "client_turn s m = Some t" and "\<forall>d. Some d \<in> set (dupScript (kernel s)) \<longrightarrow> 0 \<le> d"
  shows "\<exists>used. dupScript (kernel s) = used @ dupScript (kernel t) \<and>
    closedFDs (kernel t) = closedFDs (kernel s) @ List.map_filter id used @ filter ((\<le>) 0) (FDs m)"
  using assms by (rule client_turn_descriptors)

theorem client_turn_closes_descriptors_witness:
  "\<exists>t. client_turn (ex_session\<lparr>kernel := \<lparr>closedFDs = [], dupScript = [Some 8, Some 9]\<rparr>\<rparr>)
      (ex_call\<lparr>FDs := [4, 5]\<rparr>) = Some t \<and> closedFDs (kernel t) = [8, 9, 4, 5]"
proof -
  let ?s = "ex_session\<lparr>kernel := \<lparr>closedFDs = [], dupScript = [Some 8, Some 9]\<rparr>\<rparr>"
  have m: "msg_ok (ex_call\<lparr>FDs := [4, 5]\<rparr>)" using framed_msg_ok [OF ex_framed(1)] by (simp add: msg_ok_def)
  have h: "healthy_session ?s" using ex_healthy by simp
  obtain t where t: "client_turn ?s (ex_call\<lparr>FDs := [4, 5]\<rparr>) = Some t"
    using healthy_client_turn [OF h m] by blast
  have "map_option (\<lambda>t. dupScript (kernel t)) (client_turn ?s (ex_call\<lparr>FDs := [4, 5]\<rparr>)) = Some []"
    by code_simp
  then have "dupScript (kernel t) = []" using t by simp
  with client_turn_closes_descriptors [OF t] t show ?thesis
    by (auto simp: List.map_filter_simps)
qed

section \<open>Framing\<close>

text \<open>
  C9. Messages travel: what \<open>WriteMessage\<close> wrote without error, \<open>ReadMessage\<close> reads back,
  message by message with its descriptors, however the socket cuts the bytes into pieces and
  whenever the descriptors arrive, and nothing is left over.
\<close>

theorem messages_travel:
  assumes "send_all WriteMessage c ms = (c', None)" and "conn_bytes c = []" and "conn_fds c = []"
    and "list_all wire_message ms"
    and "live r" and "stream_bytes r = conn_bytes c'" and "stream_fds r = conn_fds c'"
  shows "\<exists>r'. recv_n ReadMessage (length ms) r = (r', ms) \<and> stream_bytes r' = [] \<and> stream_fds r' = []"
  using assms by (rule wire.channel_delivers)

lemma ex_wire: "wire_message ex_call" "wire_message ex_notify"
proof -
  have u: "UnixFDs ex_call = 0" "UnixFDs ex_notify = 0" "FDs ex_call = []" "FDs ex_notify = []" by code_simp+
  show "wire_message ex_call"
    using ex_framed(1) u ParseHeader_enc_message [OF ex_fits(1)] frame_len_enc_message [OF ex_fits(1)]
    by (simp add: wire_message_def ex_call_def dec_message_envelope framed_def)
  show "wire_message ex_notify"
    using ex_framed(4) u ParseHeader_enc_message [OF ex_fits(3)] frame_len_enc_message [OF ex_fits(3)]
    by (simp add: wire_message_def ex_notify_def dec_message_envelope framed_def)
qed

theorem messages_travel_witness:
  "\<exists>r'. recv_n ReadMessage 2
      \<lparr>rconn = [\<lparr>rdata = take 7 (Raw ex_call @ Raw ex_notify), roobn = 0, rscms = None, rerr = None\<rparr>,
          \<lparr>rdata = drop 7 (Raw ex_call @ Raw ex_notify), roobn = 0, rscms = None, rerr = None\<rparr>],
        rbuf = [], pendingFDs = []\<rparr> = (r', [ex_call, ex_notify])"
proof -
  let ?c = "push (Raw ex_notify) [] (push (Raw ex_call) [] ex_conn)"
  let ?B = "Raw ex_call @ Raw ex_notify"
  let ?r = "\<lparr>rconn = [\<lparr>rdata = take 7 ?B, roobn = 0, rscms = None, rerr = None\<rparr>,
          \<lparr>rdata = drop 7 ?B, roobn = 0, rscms = None, rerr = None\<rparr>], rbuf = [], pendingFDs = []\<rparr>"
  have f: "FDs ex_call = []" "FDs ex_notify = []" by code_simp+
  have l: "16 \<le> length (Raw ex_call)" using ex_framed(1) by (simp add: framed_def parsed_def)
  have 1: "send_all WriteMessage ex_conn [ex_call, ex_notify] = (?c, None)"
    using f by (simp add: WriteMessage_def conn_Write_def push_def ex_conn_def)
  have 2: "conn_bytes ex_conn = []" "conn_fds ex_conn = []"
    by (simp_all add: conn_bytes_def conn_fds_def ex_conn_def)
  have 3: "live ?r" using l by (auto simp: live_def)
  have 4: "stream_bytes ?r = conn_bytes ?c" "stream_fds ?r = conn_fds ?c"
    using 2 by (simp_all add: stream_bytes_def stream_fds_def recv_fds_def del: take_append drop_append)
  have 5: "list_all wire_message [ex_call, ex_notify]" using ex_wire by simp
  from messages_travel [OF 1 2 5 3 4] show ?thesis by (auto simp: numeral_2_eq_2)
qed

text \<open>
  C10. \<open>ReadMessage\<close> on any input: it never panics; a message it returns is cut from the front
  of the stream, at most \<open>MaxMessageSize\<close> long, parsed, with as many descriptors as its
  header announces, taken in order; after an error no descriptor is lost.
\<close>

theorem ReadMessage_conserves:
  "\<exists>r' x. ReadMessage r = Some (r', x) \<and>
    (case x of
       Inl e \<Rightarrow> stream_fds r' = stream_fds r \<and> suffix (stream_bytes r') (stream_bytes r)
     | Inr m \<Rightarrow> length (Raw m) \<le> MaxMessageSize \<and> parsed m \<and>
         length (FDs m) = unat (UnixFDs m) \<and> stream_bytes r = Raw m @ stream_bytes r' \<and>
         stream_fds r = FDs m @ stream_fds r')"
  by (rule ReadMessage_total)

text \<open>
  C11. No received descriptor is lost or closed twice: when the socket is exhausted and the
  reader is closed, the descriptors that arrived are those of the messages returned, in order,
  followed by exactly those the close released.
\<close>

theorem reader_descriptors_accounted:
  assumes "recv_n ReadMessage n r = (r', ms)" and "rconn r' = []" and "reader_Close r' w = (r'', w')"
  shows "\<exists>rest. stream_fds r = concat (map FDs ms) @ rest \<and> closedFDs w' = closedFDs w @ rest \<and>
    stream_fds r'' = []"
  using msgreader.recv_n_stream [OF assms(1)] assms(2,3)
  by (auto simp: reader_Close_def stream_fds_def)

theorem reader_descriptors_accounted_witness:
  "let r = \<lparr>rconn = [\<lparr>rdata = [1], roobn = 24, rscms = Some [Some [6, 7]], rerr = None\<rparr>],
      rbuf = [], pendingFDs = []\<rparr>
   in \<exists>r' r'' w'. recv_n ReadMessage 1 r = (r', []) \<and>
     reader_Close r' \<lparr>closedFDs = [], dupScript = []\<rparr> = (r'', w') \<and> closedFDs w' = [6, 7]"
proof -
  let ?r = "\<lparr>rconn = [\<lparr>rdata = [1], roobn = 24, rscms = Some [Some [6, 7]], rerr = None\<rparr>],
      rbuf = [], pendingFDs = []\<rparr>"
  let ?r' = "\<lparr>rconn = [], rbuf = [1], pendingFDs = [6, 7]\<rparr>"
  have "fill_buf 16 ?r = (?r', Some ErrEOF)"
    by (subst fill_buf.simps, simp add: readMore_def parseFDs_def, subst fill_buf.simps,
        simp add: readMore_def)
  then have 1: "recv_n ReadMessage 1 ?r = (?r', [])" by (simp add: ReadMessage_def)
  obtain r'' w' where 2: "reader_Close ?r' \<lparr>closedFDs = [], dupScript = []\<rparr> = (r'', w')" by fastforce
  from reader_descriptors_accounted [OF 1 _ 2] have "closedFDs w' = stream_fds ?r" by auto
  moreover have "stream_fds ?r = [6, 7]" by (simp add: stream_fds_def recv_fds_def parseFDs_def)
  ultimately show ?thesis using 1 2 by auto
qed

section \<open>The codec\<close>

text \<open>
  C12. \<open>ParseHeader\<close> inverts the D-Bus grammar: the bytes of a message with any list of
  header fields (strings, object paths, integers, signatures), in either byte order, parse to
  the message with those fields set in order.
\<close>

theorem ParseHeader_roundtrip:
  assumes "message_fits order fs"
  shows "ParseHeader (enc_message order type flags version serial fs body) =
    Some (Inr (dec_message order type flags version serial fs body))"
  using assms by (rule ParseHeader_enc_message)

theorem ParseHeader_roundtrip_witness:
  "map_option (\<lambda>r. case r of Inl _ \<Rightarrow> None | Inr m \<Rightarrow> Some (Member m, Destination m))
     (ParseHeader (enc_message BigEndian TypeMethodCall 0 1 6
       [StrField HeaderMember ''Notify'', StrField HeaderDestination ''org.freedesktop.Notifications''] [])) =
   Some (Some (''Notify'', ''org.freedesktop.Notifications''))"
proof -
  have "Member ex_notify = ''Notify''" "Destination ex_notify = ''org.freedesktop.Notifications''"
    by code_simp+
  with ParseHeader_roundtrip [OF ex_fits(3)] show ?thesis by (simp add: ex_notify_def)
qed

text \<open>
  C13. A string array put into a message with \<open>EncodeStringArray\<close> and \<open>ReplaceBody\<close> is read
  back by \<open>ParseStringArray\<close>; the message keeps its type, serial and byte order, and its body
  length is the new one.
\<close>

theorem string_array_roundtrip:
  assumes "framed m" and "names_fit (byteOrder m) names"
  shows "\<exists>out. ReplaceBody m (EncodeStringArray (byteOrder m) names) = Some out \<and>
    ParseStringArray out = Some (Inr names) \<and> Type out = Type m \<and> Serial out = Serial m \<and>
    byteOrder out = byteOrder m \<and> FDs out = [] \<and>
    BodyLength out = of_nat (length (EncodeStringArray (byteOrder m) names))"
proof -
  let ?b = "EncodeStringArray (byteOrder m) names"
  obtain out where out: "ReplaceBody m ?b = Some out" "FDs out = []" "byteOrder out = byteOrder m"
    "Type out = Type m" "Serial out = Serial m" "BodyLength out = of_nat (length ?b)"
    "HeaderLength out = HeaderLength m" "length (Raw out) = unat (HeaderLength m) + length ?b"
    "msg_body out = ?b"
    using ReplaceBody_framed [OF assms(1), of ?b] by auto
  then show ?thesis
    using ParseStringArray_Encode [of out names "[]"] assms(2) by auto
qed

theorem string_array_roundtrip_witness:
  "\<exists>out. ReplaceBody ex_host_reply (EncodeStringArray (byteOrder ex_host_reply) [''org.x'', []]) = Some out \<and>
     ParseStringArray out = Some (Inr [''org.x'', []])"
proof -
  have "names_fit (byteOrder ex_host_reply) [''org.x'', []]" by (rule names_fit_cost) simp
  from string_array_roundtrip [OF ex_framed(3) this] show ?thesis by blast
qed

text \<open>
  C14. The error reply of the router is well formed: for every message a reader can return
  there is one, its own bytes parse to it (with the caller as destination, which the Go value
  itself leaves empty), it answers the caller's serial and carries the text as its argument.
\<close>

theorem NewErrorMessage_well_formed:
  assumes "msg_ok m" and "length name < 1000" and "length txt' < 2 ^ 32"
  shows "\<exists>e. NewErrorMessage m name txt' serial = Some e \<and>
    ParseHeader (Raw e) = Some (Inr (e\<lparr>Destination := Sender m\<rparr>)) \<and>
    Type e = TypeError \<and> ErrorName e = name \<and> ReplySerial e = Serial m \<and> Serial e = serial \<and>
    body_strings e = [txt']"
proof -
  let ?fs = "error_fields m name" and ?b = "error_body txt'"
  let ?D = "dec_message LittleEndian TypeError 1 1 serial ?fs ?b"
  have fit: "message_fits LittleEndian ?fs" by (rule error_fields_fit [OF assms(1,2)])
  have f: "Destination ?D = Sender m" "ErrorName ?D = name" "ReplySerial ?D = Serial m"
    by (auto simp: dec_message_def error_fields_def set_string_field_def set_u32_field_def base_message_def)
  have b: "body_strings (?D\<lparr>Destination := []\<rparr>) = [txt']"
  proof (rule body_strings_encode)
    show "msg_body (?D\<lparr>Destination := []\<rparr>) = encode_names (byteOrder (?D\<lparr>Destination := []\<rparr>)) [] [txt']"
      using msg_body_dec_message [OF fit] byteOrder_dec_message [of LittleEndian]
      by (simp only: error_body_def msg_body_fields byteOrder_fields)
  qed (use assms(3) in simp)
  have "?D = ?D\<lparr>Destination := Sender m\<rparr>" using f(1) by simp
  then show ?thesis
    using NewErrorMessage_dec [OF fit] ParseHeader_enc_message [OF fit] f b
    by (simp add: dec_message_envelope)
qed

theorem NewErrorMessage_well_formed_witness:
  "\<exists>e. NewErrorMessage ex_notify ''a.Error'' ''no'' 1 = Some e \<and> body_strings e = [''no''] \<and> ReplySerial e = 6"
proof -
  have "Serial ex_notify = 6" by code_simp
  with NewErrorMessage_well_formed [OF framed_msg_ok [OF ex_framed(4)], of "''a.Error''" "''no''" 1]
  show ?thesis by auto
qed

text \<open>
  \<open>uniqueStrings\<close> is the reference that keeps the first occurrence of every string, in order.
\<close>

lemma uniqueStrings_keeps_first:
  "uniqueStrings ss = rev (remdups (rev ss)) \<and> set (uniqueStrings ss) = set ss \<and> distinct (uniqueStrings ss)"
  using uniqueStrings_remdups by simp

section \<open>The routing rules\<close>

text \<open>
  C16. Which names live on the host: the four names listed, and the portal and MPRIS names,
  where a pattern \<open>p.*\<close> means that the dot-separated elements of \<open>p\<close> are the first elements
  of the name (so \<open>org.freedesktop.portalX\<close> does not match).
\<close>

theorem host_names_by_element:
  "(RouteDestination n = TargetHost \<longleftrightarrow>
      prefix [''org'', ''freedesktop'', ''portal''] (elements n) \<or>
      n \<in> {''org.freedesktop.Notifications'', ''org.freedesktop.secrets'',
        ''org.freedesktop.ScreenSaver'', ''org.kde.StatusNotifierWatcher''}) \<and>
   (RouteOwnership n = TargetHost \<longleftrightarrow> prefix [''org'', ''mpris'', ''MediaPlayer2''] (elements n))"
proof -
  have p: "MatchRule ''org.freedesktop.portal.*'' n \<longleftrightarrow> prefix [''org'', ''freedesktop'', ''portal''] (elements n)"
    "MatchRule ''org.mpris.MediaPlayer2.*'' n \<longleftrightarrow> prefix [''org'', ''mpris'', ''MediaPlayer2''] (elements n)"
    by (rule MatchRule_below; simp)+
  have e: "MatchRule ''org.freedesktop.Notifications'' n \<longleftrightarrow> n = ''org.freedesktop.Notifications''"
    "MatchRule ''org.freedesktop.secrets'' n \<longleftrightarrow> n = ''org.freedesktop.secrets''"
    "MatchRule ''org.freedesktop.ScreenSaver'' n \<longleftrightarrow> n = ''org.freedesktop.ScreenSaver''"
    "MatchRule ''org.kde.StatusNotifierWatcher'' n \<longleftrightarrow> n = ''org.kde.StatusNotifierWatcher''"
    by (rule MatchRule_exact; simp add: HasSuffix_def)+
  show ?thesis
  proof (cases "n = []")
    case True
    then show ?thesis by (simp add: talk.route_empty own.route_empty)
  next
    case False
    show ?thesis
      unfolding talk.route_iff [OF False] own.route_iff [OF False] DefaultHostTalkRules_def
        DefaultHostOwnRules_def list.set bex_simps insert_iff empty_iff p e
      by (simp only: simp_thms)
  qed
qed



text \<open>
  C18. What the policy keeps in the container stays there: dispatching such a message changes
  nothing of the session but the container connection, whatever the writes do.
\<close>

theorem container_messages_isolated:
  assumes "plan s m = DeliverContainer" and "DispatchClientMessage s m = Some (t, e)"
  shows "\<exists>c. t = s\<lparr>containerConn := c\<rparr> \<and> WriteMessage (containerConn s) m = (c, e)"
  using plan_handler(1) [OF assms(1)] assms(2)
  by (auto simp: SendToContainer_def split: prod.splits)

theorem container_messages_isolated_witness:
  "\<exists>t. DispatchClientMessage ex_session ex_local = Some (t, None) \<and> hostConn t = Some ex_conn"
proof -
  have p: "plan ex_session ex_local = DeliverContainer" by code_simp
  obtain t e where d: "DispatchClientMessage ex_session ex_local = Some (t, e)"
    using plan_handler(1) [OF p] by (metis surj_pair)
  obtain c where t: "t = ex_session\<lparr>containerConn := c\<rparr>" "WriteMessage (containerConn ex_session) ex_local = (c, e)"
    using container_messages_isolated [OF p d] by blast
  have "e = None"
    using t(2) WriteMessage_healthy [of "containerConn ex_session" ex_local] ex_healthy
    by (auto simp: healthy_session_def)
  with d t(1) show ?thesis by (simp add: ex_session_def new_session_def)
qed

text \<open>
  C19. A host service's owner becomes reachable. After the host has answered a forwarded
  \<open>GetNameOwner\<close> with a unique name, that name is routed to the host, and a call to it is written
  to the host's connection and to no other, and noted as waiting for the host's reply if the
  write succeeds.
\<close>

theorem learned_owner_is_routed:
  assumes "hostPending s (ReplySerial m) = Some \<lparr>pkind = hostForward, pmember = ''GetNameOwner''\<rparr>"
    and "merges s (ReplySerial m) = None" and "Type m = TypeMethodReturn"
    and "HasPrefix (first_string m) '':''" and "hostConn s \<noteq> None"
    and "handleUpstream s TargetHost m = Some (t, m', e)"
    and "Type call = TypeMethodCall" and "Destination call = first_string m"
  shows "routeDestination t (Destination call) = TargetHost \<and>
    (\<exists>c c' e'. hostConn t = Some c \<and> WriteMessage c call = (c', e') \<and>
      DispatchClientMessage t call = Some (t\<lparr>hostConn := Some c', hostPending := (hostPending t)(Serial call :=
        if e' = None then Some \<lparr>pkind = hostForward, pmember = Member call\<rparr> else None)\<rparr>, e'))"
proof -
  have r: "is_reply m" using assms(3) by (simp add: is_reply_def)
  have "upstream_outcome s TargetHost m t e"
    using handleUpstream_spec [of m s TargetHost] assms(2,6) by auto
  then have u: "hostUniqueNames t = hostUniqueNames s \<union> host_learns s m" "hostConn t = hostConn s"
    by (auto simp: upstream_outcome_def)
  have "first_string m \<in> host_learns s m"
    using r assms(1,3,4) by (simp add: host_learns_def told_name_def)
  moreover have "first_string m \<noteq> []" "first_string m \<noteq> ''org.freedesktop.DBus''"
    using assms(4) by (auto simp: HasPrefix_def)
  ultimately have b: "host_bound t (Destination call)" and "Destination call \<noteq> ''org.freedesktop.DBus''"
    using assms(8) u(1) by (auto simp: host_bound_def)
  then have p: "plan t call = DeliverHost" using assms(5,7) u(2) by (simp add: plan_def Let_def)
  obtain c where c: "hostConn t = Some c" using assms(5) u(2) by auto
  obtain c' e' where w: "WriteMessage c call = (c', e')" by force
  have "routeDestination t (Destination call) = TargetHost" using b by (simp add: routeDestination_iff)
  then show ?thesis using plan_handler(2) [OF p] sendToHost_call [OF c assms(7) w] c w by auto
qed

theorem learned_owner_is_routed_witness:
  "routeDestination ex_session (Destination ex_unique_call) = TargetContainer \<and>
   (\<exists>t m' e u e'. handleUpstream (noteHostPending ex_session 4 hostForward ''GetNameOwner'') TargetHost ex_owner =
      Some (t, m', e) \<and> routeDestination t (Destination ex_unique_call) = TargetHost \<and>
      DispatchClientMessage t ex_unique_call = Some (u, e') \<and> containerConn u = containerConn t)"
proof -
  let ?s = "noteHostPending ex_session 4 hostForward ''GetNameOwner''"
  have m: "ReplySerial ex_owner = 4" "Type ex_owner = TypeMethodReturn" "first_string ex_owner = '':1.7''"
    "HasPrefix '':1.7'' '':''" by code_simp+
  have c: "Type ex_unique_call = TypeMethodCall" "Destination ex_unique_call = '':1.7''" by code_simp+
  have s: "hostPending ?s 4 = Some \<lparr>pkind = hostForward, pmember = ''GetNameOwner''\<rparr>" "merges ?s 4 = None"
    "hostConn ?s \<noteq> None" by (simp_all add: noteHostPending_def ex_session_def new_session_def)
  obtain t m' e where t: "handleUpstream ?s TargetHost ex_owner = Some (t, m', e)"
    using handleUpstream_spec [of ex_owner ?s TargetHost] s(2) m(1) by auto
  have "routeDestination t (Destination ex_unique_call) = TargetHost \<and>
    (\<exists>u e'. DispatchClientMessage t ex_unique_call = Some (u, e') \<and> containerConn u = containerConn t)"
    using learned_owner_is_routed [of ?s ex_owner t m' e ex_unique_call] s m c t by auto
  moreover have "routeDestination ex_session (Destination ex_unique_call) = TargetContainer" by code_simp
  ultimately show ?thesis using t by blast
qed

section \<open>Sockets and descriptors\<close>

text \<open>
  C20. Messages are never interleaved or reordered on a connection: writing messages one after
  the other until one fails leaves a prefix of their concatenation on the stream, and the whole
  of it, with all descriptors, when none fails.
\<close>

theorem writes_are_a_prefix:
  assumes "send_all WriteMessage c ms = (c', r)"
  shows "(\<exists>p. prefix p (concat (map Raw ms)) \<and> conn_bytes c' = conn_bytes c @ p) \<and>
    (r = None \<longrightarrow> conn_bytes c' = conn_bytes c @ concat (map Raw ms) \<and>
       conn_fds c' = conn_fds c @ concat (map FDs ms))"
  using sock.send_all_prefix [OF assms] sock.send_all_ok [of c ms c'] assms by auto

theorem writes_are_a_prefix_witness:
  "\<exists>c' p. send_all WriteMessage (ex_conn\<lparr>wscript := [Accept 0, Fail 3]\<rparr>) [ex_notify, ex_call] =
      (c', Some ErrBroken) \<and> prefix p (Raw ex_notify @ Raw ex_call) \<and> conn_bytes c' = p"
proof -
  have f: "FDs ex_call = []" "FDs ex_notify = []" by code_simp+
  let ?c = "ex_conn\<lparr>wscript := [Accept 0, Fail 3]\<rparr>"
  obtain c' where c': "send_all WriteMessage ?c [ex_notify, ex_call] = (c', Some ErrBroken)"
    using f by (simp add: WriteMessage_def conn_Write_def push_def ex_conn_def)
  from writes_are_a_prefix [OF c'] c' show ?thesis by (auto simp: conn_bytes_def ex_conn_def)
qed

text \<open>
  C21. \<open>CopyFDs\<close> leaks nothing: it returns one new descriptor per argument and closes nothing,
  or it fails and has closed exactly the descriptors it had obtained.
\<close>

theorem CopyFDs_all_or_nothing:
  assumes "CopyFDs fds w = (w', r)"
  shows "\<exists>new. (r = Some new \<and> closedFDs w' = closedFDs w \<and> length new = length fds \<and>
            dupScript w = map Some new @ dupScript w') \<or>
     (r = None \<and> closedFDs w' = closedFDs w @ new \<and> length new < length fds \<and>
       (dupScript w = map Some new @ None # dupScript w' \<or>
        dupScript w = map Some new \<and> dupScript w' = []))"
  using assms by (rule CopyFDs_effect)

theorem CopyFDs_all_or_nothing_witness:
  "CopyFDs [3, 4, 5] \<lparr>closedFDs = [], dupScript = [Some 10, Some 11, None]\<rparr> =
     (\<lparr>closedFDs = [10, 11], dupScript = []\<rparr>, None) \<and>
   (\<exists>new. closedFDs \<lparr>closedFDs = [10, 11], dupScript = []\<rparr> = new \<and> length new < length [3 :: int, 4, 5])"
proof -
  let ?w = "\<lparr>closedFDs = [], dupScript = [Some 10, Some 11, None]\<rparr>"
  let ?w' = "\<lparr>closedFDs = [10, 11], dupScript = []\<rparr>"
  have c: "CopyFDs [3, 4, 5] ?w = (?w', None)" by code_simp
  from CopyFDs_all_or_nothing [OF c] c show ?thesis by auto
qed

section \<open>The SASL handshakes\<close>

text \<open>
  C22. \<open>AuthenticateClient\<close> depends on the bytes the client sends and not on how they arrive:
  however the stream is cut into pieces, the replies written are those of the reference
  \<open>dialogue\<close>, in order; and the bytes returned followed by the bytes still in the socket are
  exactly what the client sent after \<open>BEGIN\<close>, so no byte of the first message is lost.
\<close>

theorem AuthenticateClient_chunks:
  assumes "healthy conn" and "concat src = 0 # s" and "[] \<notin> set src"
    and "AuthenticateClient src conn = (b, conn', r)" and "dialogue s = (replies, x)"
  shows "outbox conn' = outbox conn @ map (\<lambda>l. (bytes_of_string l, [])) replies \<and>
    (case x of None \<Rightarrow> r = Inl (SaslIO ErrEOF)
     | Some rest \<Rightarrow> \<exists>extra. r = Inr extra \<and> extra @ concat (bsrc b) = rest)"
  using assms by (rule AuthenticateClient_dialogue)

lemma ex_dialogue:
  "dialogue (join (map bytes_of_string [''AUTH'']) @ 13 # 10 # join (map bytes_of_string [''BEGIN'']) @ 13 # 10 # [7]) =
    ([saslRejected], Some [7])"
  using plain_keywords by (simp add: dialogue_strings sasl_step_def del: map_map list.map join.simps)

theorem AuthenticateClient_chunks_witness:
  "let s = join (map bytes_of_string [''AUTH'']) @ 13 # 10 # join (map bytes_of_string [''BEGIN'']) @ 13 # 10 # [7]
   in \<exists>b conn' extra. AuthenticateClient [[0], take 3 s, drop 3 s] ex_conn = (b, conn', Inr extra) \<and>
     outbox conn' = [(bytes_of_string saslRejected, [])] \<and> extra @ concat (bsrc b) = [7]"
proof -
  let ?s = "join (map bytes_of_string [''AUTH'']) @ 13 # 10 # join (map bytes_of_string [''BEGIN'']) @ 13 # 10 # [7]"
  obtain b conn' r where a: "AuthenticateClient [[0], take 3 ?s, drop 3 ?s] ex_conn = (b, conn', r)"
    by (metis surj_pair)
  have c: "concat [[0], take 3 ?s, drop 3 ?s] = 0 # ?s" by (simp del: take_append drop_append)
  have n: "[] \<notin> set [[0], take 3 ?s, drop 3 ?s]" by simp
  have h: "healthy ex_conn" by (simp add: healthy_def ex_conn_def)
  from AuthenticateClient_chunks [OF h c n a ex_dialogue] a show ?thesis
    by (auto simp: Let_def ex_conn_def)
qed

text \<open>
  C23. The two handshakes understand each other. Whatever else follows on the stream and however
  it is cut, \<open>AuthenticateClient\<close> accepts the script of \<open>AuthenticateUpstream\<close> (which the router
  itself sends to a bus), answers \<open>OK\<close> and \<open>AGREE_UNIX_FD\<close>, and hands over the rest; and
  \<open>AuthenticateUpstream\<close>, given those answers, succeeds after sending exactly that script.
\<close>

theorem handshakes_agree:
  assumes "healthy conn" and "healthy uconn" and "[] \<notin> set src"
    and "concat src = bytes_of_string (upstream_script uid) @ rest"
    and "concat usrc = bytes_of_string (saslOK @ saslAgreeUnixFD)"
    and "AuthenticateClient src conn = (b, conn', r)" and "AuthenticateUpstream uid usrc uconn = (ub, uconn', ur)"
  shows "conn_bytes conn' = conn_bytes conn @ concat usrc \<and>
    (\<exists>extra. r = Inr extra \<and> extra @ concat (bsrc b) = rest) \<and>
    ur = None \<and> conn_bytes uconn' = conn_bytes uconn @ bytes_of_string (upstream_script uid)"
  using assms by (rule handshakes_understood)

theorem handshakes_agree_witness:
  "\<exists>b conn' extra ub uconn'.
    AuthenticateClient [bytes_of_string (upstream_script 1000) @ [108]] ex_conn = (b, conn', Inr extra) \<and>
    extra @ concat (bsrc b) = [108] \<and>
    AuthenticateUpstream 1000 [bytes_of_string (saslOK @ saslAgreeUnixFD)] ex_conn = (ub, uconn', None)"
proof -
  let ?src = "[bytes_of_string (upstream_script 1000) @ [108]]"
    and ?usrc = "[bytes_of_string (saslOK @ saslAgreeUnixFD)]"
  obtain b conn' r where 1: "AuthenticateClient ?src ex_conn = (b, conn', r)" by (metis surj_pair)
  obtain ub uconn' ur where 2: "AuthenticateUpstream 1000 ?usrc ex_conn = (ub, uconn', ur)" by (metis surj_pair)
  have h: "healthy ex_conn" by (simp add: healthy_def ex_conn_def)
  have n: "[] \<notin> set ?src" and c: "concat ?src = bytes_of_string (upstream_script 1000) @ [108]"
    and u: "concat ?usrc = bytes_of_string (saslOK @ saslAgreeUnixFD)" by simp_all
  from handshakes_agree [OF h h n c u 1 2] 1 2 show ?thesis by auto
qed

section \<open>The invocation context\<close>

text \<open>
  C24. \<open>NewContext\<close> takes each profile flag out of the arguments once, the last one of
  \<open>--privileged\<close>, \<open>--isolated\<close>, \<open>--integrated\<close> that is present (in this order) sets the profile, and
  \<open>integrated\<close> is the default; \<open>WithContainer\<close> then takes the first argument that is not a
  flag as the container. The remaining arguments keep their order.
\<close>

theorem NewContext_WithContainer:
  assumes "remove1 ''--integrated'' (remove1 ''--isolated'' (remove1 ''--privileged'' args)) = fs @ c # rest"
    and "list_all is_flag fs" and "\<not> is_flag c"
  shows "WithContainer (NewContext e args) =
    \<lparr>Container = c,
     Profile = (if ''--integrated'' \<in> set args then ''integrated''
       else if ''--isolated'' \<in> set args then ''isolated''
       else if ''--privileged'' \<in> set args then ''privileged'' else ''integrated''),
     UID = env_uid e, User = env_user e, Home = env_home e, Args = fs @ rest\<rparr>"
proof -
  have t: "TrimPrefix ''--privileged'' ''--'' = ''privileged''" "TrimPrefix ''--isolated'' ''--'' = ''isolated''"
    "TrimPrefix ''--integrated'' ''--'' = ''integrated''" by code_simp+
  have "profile_loop profileFlags ''integrated'' args =
    (if ''--integrated'' \<in> set args then ''integrated''
     else if ''--isolated'' \<in> set args then ''isolated''
     else if ''--privileged'' \<in> set args then ''privileged'' else ''integrated'', fs @ c # rest)"
    using assms(1) by (simp add: profileFlags_def profile_loop_cons t del: profile_loop.simps(2))
  then show ?thesis
    using container_loop_find [OF assms(2,3)] by (simp add: NewContext_def WithContainer_def)
qed

theorem NewContext_WithContainer_witness:
  "Container (WithContainer (NewContext \<lparr>env_uid = ''1000'', env_user = ''u'', env_home = ''/h''\<rparr>
     [''--isolated'', ''--force'', ''box'', ''bash''])) = ''box''"
proof -
  have 1: "remove1 ''--integrated'' (remove1 ''--isolated'' (remove1 ''--privileged''
     [''--isolated'', ''--force'', ''box'', ''bash''])) = [''--force''] @ ''box'' # [''bash'']" by simp
  have 2: "list_all is_flag [''--force'']" "\<not> is_flag ''box''" by code_simp+
  from NewContext_WithContainer [OF 1 2] show ?thesis by simp
qed

section \<open>Where the code does not do what it means to\<close>

text \<open>
  C25. A method call from the host is never delivered. The router owns MPRIS names on the host
  bus for its clients (\<open>DefaultHostOwnRules\<close>), but every method call that arrives on the host
  connection is dropped: nothing is written to any connection and its descriptors are closed.
\<close>

theorem host_calls_are_dropped:
  assumes "Type m = TypeMethodCall"
  shows "\<exists>t. handleUpstream s TargetHost m = Some (t, m\<lparr>FDs := []\<rparr>, None) \<and>
    clientConn t = clientConn s \<and> containerConn t = containerConn s \<and> hostConn t = hostConn s \<and>
    closedFDs (kernel t) = closedFDs (kernel s) @ filter ((\<le>) 0) (FDs m)"
proof -
  have "\<not> is_reply m" using assms by (simp add: is_reply_def)
  moreover from this assms have "\<not> client_gets s TargetHost m" by (simp add: client_gets_def)
  ultimately show ?thesis
    using handleUpstream_spec [of m s TargetHost] by (auto simp: upstream_outcome_def)
qed

theorem host_calls_are_dropped_witness:
  "\<exists>t. handleUpstream ex_session TargetHost ex_notify = Some (t, ex_notify\<lparr>FDs := []\<rparr>, None) \<and>
     clientConn t = clientConn ex_session"
proof -
  have "Type ex_notify = TypeMethodCall" by code_simp
  from host_calls_are_dropped [OF this, of ex_session] show ?thesis by blast
qed

text \<open>
  C26. The size limit of \<open>ReadMessage\<close> can be passed by wrap-around: the total length is
  computed modulo \<open>2 ^ 32\<close>, so this 23-byte message that announces a body of \<open>2 ^ 32 - 1\<close>
  bytes is accepted, with a header longer than the message.
\<close>

theorem size_limit_wraps:
  "\<exists>r' m. ReadMessage \<lparr>rconn = [], rbuf = ex_wrap, pendingFDs = []\<rparr> = Some (r', Inr m) \<and>
     unat (BodyLength m) = 2 ^ 32 - 1 \<and> MaxMessageSize < unat (BodyLength m) \<and>
     length (Raw m) < unat (HeaderLength m)"
proof -
  let ?r = "\<lparr>rconn = [], rbuf = ex_wrap, pendingFDs = []\<rparr>"
  have f: "fill_buf n ?r = (?r, None)" if "n \<le> 23" for n
    using that by (subst fill_buf.simps) (simp add: ex_wrap_def)
  have l: "frame_len ex_wrap = Some 23" "order_of_endian (ex_wrap ! 0) = Some LittleEndian" by code_simp+
  have p: "map_option (\<lambda>x. case x of Inl _ \<Rightarrow> None | Inr m \<Rightarrow> Some (BodyLength m, HeaderLength m, UnixFDs m))
    (ParseHeader ex_wrap) = Some (Some (- 1, 24, 0))" by code_simp
  obtain z where z: "ParseHeader ex_wrap = Some z" using ParseHeader_total by blast
  with p obtain m where m: "ParseHeader ex_wrap = Some (Inr m)" "BodyLength m = - 1" "HeaderLength m = 24"
    "UnixFDs m = 0" by (cases z) auto
  have t: "take 23 ex_wrap = ex_wrap" by (simp add: ex_wrap_def)
  have "ReadMessage ?r = Some (?r\<lparr>rbuf := drop 23 ex_wrap\<rparr>, Inr m)"
    using ReadMessage_unfold [OF f [of 16]] l f [of 23] m t by (simp add: read_body_def attach_fds_def)
  moreover have "unat (- 1 :: u32) = 2 ^ 32 - 1"
    by (simp add: unsigned_minus_1_eq_mask mask_eq_exp_minus_1)
  moreover have "Raw m = ex_wrap" using ParseHeader_parsed [OF m(1)] by simp
  ultimately show ?thesis using m by (auto simp: ex_wrap_def)
qed

text \<open>
  C27. \<open>AuthenticateClient\<close> accepts \<open>BEGIN\<close> before any \<open>AUTH\<close>: a client that sends nothing but
  the null byte and \<open>BEGIN\<close> is let in, without a reply.
\<close>

theorem begin_without_auth:
  "\<exists>b. AuthenticateClient [0 # bytes_of_string (''BEGIN'' @ crlf)] conn = (b, conn, Inr [])"
  using begin_accepted by blast

section \<open>The decision of the session\<close>

text \<open>
  \<open>routeDestination\<close> combines its three sources of knowledge (the talk rules, the ownership
  rules, the learned unique names) without priority: its result is their maximum in the
  \<open>iota\<close> order of the targets, so one vote for the host decides.
\<close>

lemma routeDestination_is_maximum:
  "routeDestination s dest =
     max (RouteDestination dest) (max (RouteOwnership dest)
       (if dest \<noteq> [] \<and> dest \<in> hostUniqueNames s then TargetHost else TargetContainer))"
  by (rule routeDestination_max)

section \<open>A client, from its handshake to the end\<close>

text \<open>
  C40. \<open>handleClient\<close> as a whole, whatever the client and the buses send, whatever fails, and
  however the three loops are scheduled. It never panics. It returns: once each loop has had two
  turns for every byte of its socket and one more, either the client was not accepted and what had
  been connected is closed, or it has been served. Then no loop is running or holds a message, the
  session, which is a reachable one, has closed all its connections, and exactly the descriptors
  that were left in the three readers have been closed, each once, after those closed before.
\<close>

theorem handleClient_returns:
  assumes "\<And>l. 2 * loop_bytes client container host l < count_list sched l"
  shows "(\<forall>sched'. handleClient uid r w client container host sched' \<noteq> None) \<and>
    (case client_open uid r w client container host of
       Inl (cl, co) \<Rightarrow> handleClient uid r w client container host sched = Some (Inl (cl, co)) \<and>
         \<not> isOpen cl \<and> (\<forall>c. co = Some c \<longrightarrow> \<not> isOpen c)
     | Inr cr0 \<Rightarrow> \<exists>cr1 cr cl ho co. run_loops sched cr0 = Some cr1 \<and>
         handleClient uid r w client container host sched = Some (Inr cr) \<and>
         (\<forall>l. \<not> looping cr l \<and> held cr l = None \<and> pending_of cr l = []) \<and>
         session_reach (new_session r cl ho co w) (sess cr1) \<and> dead (sess cr) \<and>
         sess cr = (sess cr1)\<lparr>kernel := kernel (sess cr)\<rparr> \<and>
         closedFDs (kernel (sess cr)) = closedFDs (kernel (sess cr1)) @
           pending_of cr1 ClientLoop @ pending_of cr1 ContainerLoop @ pending_of cr1 HostLoop)"
proof (cases "client_open uid r w client container host")
  case (Inl cs)
  with client_open_Inl [of uid r w client container host] handleClient_defined show ?thesis
    by (cases cs) (auto simp: handleClient_def)
next
  case (Inr cr0)
  from handleClient_served [OF Inr assms] obtain cr1 cl ho co where run: "run_loops sched cr0 = Some cr1"
    "handleClient uid r w client container host sched = Some (Inr (client_return cr1))"
    "\<And>l. \<not> looping cr1 l \<and> held cr1 l = None" "session_reach (new_session r cl ho co w) (sess cr1)" "dead (sess cr1)" by metis
  obtain k where k: "sess (client_return cr1) = (sess cr1)\<lparr>kernel := k\<rparr>"
    "closedFDs k = closedFDs (kernel (sess cr1)) @ pending_of cr1 ClientLoop @ pending_of cr1 ContainerLoop @ pending_of cr1 HostLoop"
    using client_return_result [of cr1] by blast
  have "dead (sess (client_return cr1))" using run(5) by (simp add: k(1) dead_def)
  with run k client_return_result [of cr1] handleClient_defined show ?thesis by (auto simp: Inr)
qed


text \<open>
  A client that is let in without authentication and sends one byte with two descriptors, and no bus
  of the host.
\<close>

definition ex_client :: socket where
  "ex_client = \<lparr>handshake = [0 # bytes_of_string (''BEGIN'' @ crlf)],
     later = [\<lparr>rdata = [1], roobn = 24, rscms = Some [Some [6, 7]], rerr = None\<rparr>], sconn = ex_conn\<rparr>"

definition ex_bus :: socket where
  "ex_bus = \<lparr>handshake = [bytes_of_string (saslOK @ saslAgreeUnixFD)], later = [], sconn = ex_conn\<rparr>"

lemma ex_reads:
  "ReadMessage \<lparr>rconn = [\<lparr>rdata = [1], roobn = 24, rscms = Some [Some [6, 7]], rerr = None\<rparr>], rbuf = [], pendingFDs = []\<rparr> =
     Some (\<lparr>rconn = [], rbuf = [1], pendingFDs = [6, 7]\<rparr>, Inl (ErrIO ErrEOF))"
  "ReadMessage \<lparr>rconn = [], rbuf = [], pendingFDs = []\<rparr> = Some (\<lparr>rconn = [], rbuf = [], pendingFDs = []\<rparr>, Inl (ErrIO ErrEOF))"
proof -
  have "fill_buf 16 \<lparr>rconn = [\<lparr>rdata = [1], roobn = 24, rscms = Some [Some [6, 7]], rerr = None\<rparr>], rbuf = [], pendingFDs = []\<rparr> =
      (\<lparr>rconn = [], rbuf = [1], pendingFDs = [6, 7]\<rparr>, Some ErrEOF)"
    "fill_buf 16 \<lparr>rconn = [], rbuf = [], pendingFDs = []\<rparr> = (\<lparr>rconn = [], rbuf = [], pendingFDs = []\<rparr>, Some ErrEOF)"
    by (subst fill_buf.simps, simp add: readMore_def parseFDs_def, subst fill_buf.simps, simp add: readMore_def)
      (subst fill_buf.simps, simp add: readMore_def)
  then show "ReadMessage \<lparr>rconn = [\<lparr>rdata = [1], roobn = 24, rscms = Some [Some [6, 7]], rerr = None\<rparr>], rbuf = [], pendingFDs = []\<rparr> =
     Some (\<lparr>rconn = [], rbuf = [1], pendingFDs = [6, 7]\<rparr>, Inl (ErrIO ErrEOF))"
   "ReadMessage \<lparr>rconn = [], rbuf = [], pendingFDs = []\<rparr> = Some (\<lparr>rconn = [], rbuf = [], pendingFDs = []\<rparr>, Inl (ErrIO ErrEOF))"
    by (simp_all add: ReadMessage_def)
qed

lemma ex_bus_accepts: obtains b co where "AuthenticateUpstream 1000 (handshake ex_bus) ex_conn = (b, co, None)"
proof -
  let ?src = "[bytes_of_string (upstream_script 1000)]"
  have h: "healthy ex_conn" by (simp add: healthy_def ex_conn_def)
  have src: "[] \<notin> set ?src" "concat ?src = bytes_of_string (upstream_script 1000) @ []" by (simp_all add: upstream_script_bytes)
  have usrc: "concat (handshake ex_bus) = bytes_of_string (saslOK @ saslAgreeUnixFD)" by (simp add: ex_bus_def)
  obtain b co e where u: "AuthenticateUpstream 1000 (handshake ex_bus) ex_conn = (b, co, e)" by (metis surj_pair)
  obtain cb cl x where c: "AuthenticateClient ?src ex_conn = (cb, cl, x)" by (metis surj_pair)
  from handshakes_understood [OF h h src usrc c u] u that show thesis by simp
qed

theorem handleClient_returns_witness:
  "\<exists>cr. handleClient 1000 (NewRouter (NewContext \<lparr>env_uid = ''1000'', env_user = ''u'', env_home = ''/home/u''\<rparr> []))
      \<lparr>closedFDs = [], dupScript = []\<rparr> ex_client (Inr ex_bus) (Inl ''no such file'')
      (ClientLoop # replicate 18 ClientLoop @ ContainerLoop # replicate 120 ContainerLoop @ [HostLoop]) = Some (Inr cr) \<and>
    dead (sess cr) \<and> closedFDs (kernel (sess cr)) = [6, 7]"
proof -
  let ?r = "NewRouter (NewContext \<lparr>env_uid = ''1000'', env_user = ''u'', env_home = ''/home/u''\<rparr> [])"
    and ?w = "\<lparr>closedFDs = [], dupScript = []\<rparr>"
    and ?sched = "ClientLoop # replicate 18 ClientLoop @ ContainerLoop # replicate 120 ContainerLoop @ [HostLoop]"
  have "\<forall>l \<in> set [ClientLoop, ContainerLoop, HostLoop].
      2 * loop_bytes ex_client (Inr ex_bus) (Inl ''no such file'') l < count_list ?sched l" by code_simp
  then have len: "2 * loop_bytes ex_client (Inr ex_bus) (Inl ''no such file'') l < count_list ?sched l" for l
    by (cases l) (simp_all only: list.set ball_simps insert_iff simp_thms)
  obtain b co where bus: "AuthenticateUpstream 1000 (handshake ex_bus) ex_conn = (b, co, None)"
    using ex_bus_accepts .
  have cl: "AuthenticateClient (handshake ex_client) (sconn ex_client) = (\<lparr>bsrc = [], bbuf = []\<rparr>, ex_conn, Inr [])"
    unfolding ex_client_def socket.simps by (rule begin_accepted)
  have sc: "sconn ex_bus = ex_conn" "later ex_client = [\<lparr>rdata = [1], roobn = 24, rscms = Some [Some [6, 7]], rerr = None\<rparr>]"
    by (simp_all add: ex_bus_def ex_client_def)
  define cr0 where "cr0 = \<lparr>sess = new_session ?r ex_conn None co ?w,
    readers = (\<lambda>l. case l of
        ClientLoop \<Rightarrow> Some (NewMessageReader (later ex_client))
      | ContainerLoop \<Rightarrow> Some (NewMessageReader (after_handshake b ex_bus)) | HostLoop \<Rightarrow> None),
    held = Map.empty, looping = (\<lambda>l. l \<noteq> HostLoop)\<rparr>"
  have o: "client_open 1000 ?r ?w ex_client (Inr ex_bus) (Inl ''no such file'') = Inr cr0"
    using bus
    by (simp add: client_open_def cl host_connection_def cr0_def sc
        after_handshake_def [of "\<lparr>bsrc = [], bbuf = []\<rparr>"])
      (auto simp: fun_eq_iff sc split: client_loop.split)
  obtain cr1 where run: "run_loops ?sched cr0 = Some cr1"
    and fds: "closedFDs (kernel (sess cr1)) = []" "pending_of cr1 ClientLoop = [6, 7]" "pending_of cr1 ContainerLoop = []" "pending_of cr1 HostLoop = []"
    by (simp add: run_loops_idle loop_turn_def cr0_def loop_reads_def ex_reads loop_end_def new_session_def session_Close_def pending_of_def
        NewMessageReader_def sc(2) del: replicate.simps replicate_Suc)
  show ?thesis using handleClient_returns [OF len, of 1000 ?r ?w] unfolding o sum.case run option.inject
    by (elim conjE exE) (use fds in auto)
qed

end
